(* ===== verification/KB_Prelude.thy ===== *)
theory KB_Prelude
  imports Main "HOL-Library.Word" "HOL-Library.Sublist"
begin

text \<open>
  What every component of the KeyBank model shares.

  \<^item> The data of the browser code: a JavaScript string is the list of its UTF-16 code units
    (\<open>jsstring\<close>), a \<open>Uint8Array\<close> is a list of 8-bit words (\<open>bytes\<close>), a thrown exception is the
    left summand of a \<open>js_error result\<close>.
  \<^item> The string methods the code calls: \<open>indexOf\<close>, \<open>slice\<close>, \<open>startsWith\<close>, \<open>trim\<close>,
    \<open>replace\<close> by one code unit, decimal printing of a number.
  \<^item> Two interfaces as locales: \<open>codec\<close> (an encoder and a decoder that undoes it on a domain) and
    \<open>machine\<close> (a step function over events with an invariant), instantiated by the components.
  \<^item> The collections \<open>js_simps\<close> (evaluation of string literals and string methods) and
    \<open>result_simps\<close> (the exception plumbing), which the component proofs pass to \<open>simp\<close>.
\<close>

section \<open>Types and named collections\<close>

type_synonym code_unit = "16 word"
type_synonym jsstring = "16 word list"
type_synonym bytes = "8 word list"

named_theorems js_simps \<open>evaluation of string literals and of the string methods\<close>
named_theorems result_simps \<open>exceptions as left summands\<close>

text \<open>A literal of the source, written in ASCII, as code units.\<close>

definition js :: "string \<Rightarrow> jsstring" where
  "js s = map of_char s"

lemma js_Nil [simp]: "js [] = []"
  by (simp add: js_def)

lemma js_Cons [js_simps]: "js (c # s) = of_char c # js s"
  by (simp add: js_def)

lemma js_append: "js (s @ t) = js s @ js t"
  by (simp add: js_def)

lemma length_js [simp]: "length (js s) = length s"
  by (simp add: js_def)

lemma js_eq_Nil_iff [simp]: "js s = [] \<longleftrightarrow> s = []"
  by (simp add: js_def)

text \<open>Times on the server are integers, in nanoseconds.\<close>

definition second :: int where
  "second = 10 ^ 9"

section \<open>Exceptions\<close>

text \<open>
  What a call can throw or a promise can reject with: an \<open>Error\<close> carrying the message the code
  gave it, or an exception of the platform (the \<open>DOMException\<close>s of \<open>btoa\<close>, \<open>atob\<close> and
  Web Crypto and the clipboard, \<open>URIError\<close>, \<open>RangeError\<close>, \<open>SyntaxError\<close>, \<open>TypeError\<close>).
\<close>

datatype js_error =
    JsError jsstring
  | InvalidCharacterError
  | CryptoError
  | URIError
  | RangeError
  | NotAllowedError
  | SyntaxError
  | TypeError

type_synonym 'a result = "js_error + 'a"

definition bindR :: "'e + 'a \<Rightarrow> ('a \<Rightarrow> 'e + 'b) \<Rightarrow> 'e + 'b" where
  "bindR m f = (case m of Inl e \<Rightarrow> Inl e | Inr a \<Rightarrow> f a)"

lemma bindR_simps [simp, result_simps]:
  "bindR (Inl e) f = Inl e"
  "bindR (Inr a) f = f a"
  by (simp_all add: bindR_def)

lemma bindR_eq_Inr [result_simps]:
  "bindR m f = Inr b \<longleftrightarrow> (\<exists>a. m = Inr a \<and> f a = Inr b)"
  by (cases m) auto

definition throws :: "'e + 'a \<Rightarrow> bool" where
  "throws m = (case m of Inl _ \<Rightarrow> True | Inr _ \<Rightarrow> False)"

lemma throws_simps [simp, result_simps]:
  "throws (Inl e)"
  "\<not> throws (Inr a)"
  by (simp_all add: throws_def)

section \<open>String methods\<close>

text \<open>\<open>s.indexOf(needle)\<close>, with \<open>None\<close> for the result \<open>-1\<close>.\<close>

fun index_of :: "'a list \<Rightarrow> 'a list \<Rightarrow> nat option" where
  "index_of needle [] = (if needle = [] then Some 0 else None)"
| "index_of needle (x # xs) =
     (if prefix needle (x # xs) then Some 0 else map_option Suc (index_of needle xs))"

lemma index_of_prefix: "prefix needle xs \<Longrightarrow> index_of needle xs = Some 0"
  by (cases xs) auto

lemma index_of_skip:
  "hd needle \<notin> set xs \<Longrightarrow> needle \<noteq> [] \<Longrightarrow>
   index_of needle (xs @ ys) = map_option ((+) (length xs)) (index_of needle ys)"
proof (induction xs)
  case Nil
  then show ?case by (cases "index_of needle ys") auto
next
  case (Cons x xs)
  then have "\<not> prefix needle (x # xs @ ys)"
    by (cases needle) auto
  with Cons show ?case by (cases "index_of needle ys") auto
qed

lemma index_of_None: "hd needle \<notin> set xs \<Longrightarrow> needle \<noteq> [] \<Longrightarrow> index_of needle xs = None"
  using index_of_skip [of needle xs "[]"] by simp

text \<open>\<open>s.slice(b, e)\<close> for indices from the start: empty when \<open>e\<close> is not past \<open>b\<close>.\<close>

definition slice :: "nat \<Rightarrow> nat \<Rightarrow> 'a list \<Rightarrow> 'a list" where
  "slice b e s = take (e - b) (drop b s)"

lemma slice_middle: "b = length xs \<Longrightarrow> e = b + length ys \<Longrightarrow> slice b e (xs @ ys @ zs) = ys"
  by (simp add: slice_def)

text \<open>\<open>s.replace(/x/g, y)\<close> for single code units \<open>x\<close> and \<open>y\<close>.\<close>

definition replace_unit :: "code_unit \<Rightarrow> code_unit \<Rightarrow> jsstring \<Rightarrow> jsstring" where
  "replace_unit x y s = map (\<lambda>u. if u = x then y else u) s"

lemma length_replace_unit [simp]: "length (replace_unit x y s) = length s"
  by (simp add: replace_unit_def)

lemma replace_unit_id: "x \<notin> set s \<Longrightarrow> replace_unit x y s = s"
  unfolding replace_unit_def by (rule map_idI) auto

text \<open>
  The code units of the class \<open>\s\<close>, which are also the ones \<open>trim\<close> removes: white space and line
  terminators, the no-break space, the byte order mark and the space separators of Unicode.
\<close>

definition is_space :: "code_unit \<Rightarrow> bool" where
  "is_space u \<longleftrightarrow> (9 \<le> u \<and> u \<le> 13) \<or> u = 32 \<or> u = 0xA0 \<or> u = 0x1680 \<or>
     (0x2000 \<le> u \<and> u \<le> 0x200A) \<or> u = 0x2028 \<or> u = 0x2029 \<or> u = 0x202F \<or>
     u = 0x205F \<or> u = 0x3000 \<or> u = 0xFEFF"

text \<open>\<open>s.replace(/\s+/g, "")\<close> and \<open>s.trim()\<close>.\<close>

definition remove_spaces :: "jsstring \<Rightarrow> jsstring" where
  "remove_spaces s = filter (\<lambda>u. \<not> is_space u) s"

definition trim :: "jsstring \<Rightarrow> jsstring" where
  "trim s = rev (dropWhile is_space (rev (dropWhile is_space s)))"

lemma trim_eq_Nil_iff: "trim s = [] \<longleftrightarrow> (\<forall>u \<in> set s. is_space u)"
proof
  assume "trim s = []"
  then have "\<forall>u \<in> set (dropWhile is_space s). is_space u"
    by (simp add: trim_def)
  then have "dropWhile is_space s = []"
    by (metis dropWhile_eq_Nil_conv hd_dropWhile hd_in_set)
  then show "\<forall>u \<in> set s. is_space u" by simp
next
  assume "\<forall>u \<in> set s. is_space u"
  then show "trim s = []"
    by (simp add: trim_def dropWhile_eq_Nil_conv [THEN iffD2])
qed

text \<open>Printing a non-negative integer: \<open>String(n)\<close> and template substitution.\<close>

fun decimal :: "nat \<Rightarrow> jsstring" where
  "decimal n = (if n < 10 then [of_nat (48 + n)] else decimal (n div 10) @ [of_nat (48 + n mod 10)])"

declare decimal.simps [simp del]

lemma decimal_not_Nil [simp]: "decimal n \<noteq> []"
  by (subst decimal.simps) simp

section \<open>Interfaces\<close>

text \<open>
  A codec: \<open>enc\<close> is total, \<open>dec\<close> may fail, and \<open>dec\<close> undoes \<open>enc\<close> on the domain \<open>dom\<close>. The
  text formats of the program (UTF-8, Base64, Base64URL, PEM blocks, the link fragment) are
  interpretations of it, and they are chained by \<open>codec_chain\<close>.
\<close>

locale codec =
  fixes enc :: "'a \<Rightarrow> 'b"
    and dec :: "'b \<Rightarrow> 'e + 'a"
    and dom :: "'a \<Rightarrow> bool"
  assumes dec_enc: "dom x \<Longrightarrow> dec (enc x) = Inr x"
begin

lemma enc_inj: "dom x \<Longrightarrow> dom y \<Longrightarrow> enc x = enc y \<Longrightarrow> x = y"
  using dec_enc by (metis Inr_inject)

lemma not_throws: "dom x \<Longrightarrow> \<not> throws (dec (enc x))"
  by (simp add: dec_enc)

lemma bind_dec_enc: "dom x \<Longrightarrow> bindR (dec (enc x)) f = f x"
  by (simp add: dec_enc)

end

text \<open>
  A component driven by events: a step function, an initial state and an invariant every step
  keeps. The browser pages and buttons are interpretations of it.
\<close>

locale machine =
  fixes step :: "'s \<Rightarrow> 'e \<Rightarrow> 's"
    and init :: "'s \<Rightarrow> bool"
    and inv :: "'s \<Rightarrow> bool"
  assumes inv_init: "init s \<Longrightarrow> inv s"
    and inv_step: "inv s \<Longrightarrow> inv (step s e)"
begin

lemma inv_fold: "inv s \<Longrightarrow> inv (foldl step s es)"
  by (induction es arbitrary: s) (auto intro: inv_step)

lemma inv_run: "init s \<Longrightarrow> inv (foldl step s es)"
  by (blast intro: inv_init inv_fold)

lemma monotone_run:
  assumes mono: "\<And>s e. inv s \<Longrightarrow> P s \<Longrightarrow> P (step s e)"
  shows "inv s \<Longrightarrow> P s \<Longrightarrow> P (foldl step s es)"
  by (induction es arbitrary: s) (auto intro: inv_step mono)

lemma constant_run:
  assumes const: "\<And>s e. inv s \<Longrightarrow> Q s \<Longrightarrow> Q (step s e) \<and> f (step s e) = f s"
  shows "inv s \<Longrightarrow> Q s \<Longrightarrow> f (foldl step s es) = f s"
proof (induction es arbitrary: s)
  case Nil
  then show ?case by simp
next
  case (Cons e es)
  then have "Q (step s e)" and "f (step s e) = f s" and "inv (step s e)"
    using const inv_step by blast+
  with Cons.IH show ?case by simp
qed

end

end
