(* ===== verification/Base64.thy ===== *)
theory Base64
  imports KB_Prelude
begin

text \<open>
  The platform functions \<open>btoa\<close> and \<open>atob\<close>, as the HTML standard defines them, on which
  \<open>static/crypto.js\<close> builds its text formats. \<open>btoa\<close> refuses a code unit above 255;
  \<open>atob\<close> is the forgiving decoder: it drops ASCII white space, up to two trailing \<open>=\<close>, and the
  bits of the last sextet that fill no byte. The same encoder is the standard encoding Go's
  \<open>encoding/pem\<close> writes.
\<close>

section \<open>The alphabet\<close>

definition b64_alphabet :: jsstring where
  "b64_alphabet = js ''ABCDEFGHIJKLMNOPQRSTUVWXYZabcdefghijklmnopqrstuvwxyz0123456789+/''"

definition b64_char :: "nat \<Rightarrow> code_unit" where
  "b64_char n = b64_alphabet ! (n mod 64)"

definition b64_value :: "code_unit \<Rightarrow> nat option" where
  "b64_value u =
     (let x = unat u in
      if 65 \<le> x \<and> x \<le> 90 then Some (x - 65)
      else if 97 \<le> x \<and> x \<le> 122 then Some (x - 71)
      else if 48 \<le> x \<and> x \<le> 57 then Some (x + 4)
      else if x = 43 then Some 62
      else if x = 47 then Some 63
      else None)"

text \<open>The padding character \<open>=\<close>.\<close>

definition pad_unit :: code_unit where
  "pad_unit = 61"

lemma b64_table: "list_all (\<lambda>n. b64_value (b64_char n) = Some n) [0..<64]"
  by code_simp

lemma b64_value_char [simp]: "n < 64 \<Longrightarrow> b64_value (b64_char n) = Some n"
  using b64_table by (simp add: list_all_iff)

lemma b64_value_pad [simp]: "b64_value pad_unit = None"
  by (simp add: b64_value_def pad_unit_def)

section \<open>btoa\<close>

fun b64_encode :: "bytes \<Rightarrow> jsstring" where
  "b64_encode [] = []"
| "b64_encode [a] =
     [b64_char (unat a div 4), b64_char (unat a mod 4 * 16), pad_unit, pad_unit]"
| "b64_encode [a, b] =
     [b64_char (unat a div 4), b64_char (unat a mod 4 * 16 + unat b div 16),
      b64_char (unat b mod 16 * 4), pad_unit]"
| "b64_encode (a # b # c # rest) =
     b64_char (unat a div 4) # b64_char (unat a mod 4 * 16 + unat b div 16) #
     b64_char (unat b mod 16 * 4 + unat c div 64) # b64_char (unat c mod 64) # b64_encode rest"

definition btoa :: "jsstring \<Rightarrow> jsstring result" where
  "btoa s = (if \<exists>u \<in> set s. 255 < u then Inl InvalidCharacterError
             else Inr (b64_encode (map ucast s)))"

section \<open>atob\<close>

definition is_ascii_space :: "code_unit \<Rightarrow> bool" where
  "is_ascii_space u \<longleftrightarrow> u = 9 \<or> u = 10 \<or> u = 12 \<or> u = 13 \<or> u = 32"

text \<open>Up to two trailing \<open>=\<close> go when the length is a multiple of four.\<close>

definition drop_padding :: "jsstring \<Rightarrow> jsstring" where
  "drop_padding s =
     (if length s mod 4 = 0 \<and> s \<noteq> [] \<and> last s = pad_unit
      then (let t = butlast s in if t \<noteq> [] \<and> last t = pad_unit then butlast t else t)
      else s)"

text \<open>Four sextets are three bytes; what is left of two or three sextets is one or two bytes.\<close>

fun b64_bytes :: "nat list \<Rightarrow> bytes" where
  "b64_bytes (p # q # r # s # rest) =
     of_nat (p * 4 + q div 16) # of_nat (q mod 16 * 16 + r div 4) # of_nat (r mod 4 * 64 + s) #
     b64_bytes rest"
| "b64_bytes [p, q, r] = [of_nat (p * 4 + q div 16), of_nat (q mod 16 * 16 + r div 4)]"
| "b64_bytes [p, q] = [of_nat (p * 4 + q div 16)]"
| "b64_bytes _ = []"

definition atob :: "jsstring \<Rightarrow> jsstring result" where
  "atob data =
     (let s = drop_padding (filter (\<lambda>u. \<not> is_ascii_space u) data)
      in if length s mod 4 = 1 \<or> (\<exists>u \<in> set s. b64_value u = None) then Inl InvalidCharacterError
         else Inr (map ucast (b64_bytes (map (\<lambda>u. the (b64_value u)) s))))"

section \<open>Decoding undoes encoding\<close>

text \<open>The sextets of a byte string, with no padding: what both directions have in common.\<close>

fun sextets :: "bytes \<Rightarrow> nat list" where
  "sextets [] = []"
| "sextets [a] = [unat a div 4, unat a mod 4 * 16]"
| "sextets [a, b] = [unat a div 4, unat a mod 4 * 16 + unat b div 16, unat b mod 16 * 4]"
| "sextets (a # b # c # rest) =
     unat a div 4 # (unat a mod 4 * 16 + unat b div 16) #
     (unat b mod 16 * 4 + unat c div 64) # unat c mod 64 # sextets rest"

definition padding :: "bytes \<Rightarrow> jsstring" where
  "padding bs = replicate ((3 - length bs mod 3) mod 3) pad_unit"

lemma unat_byte_bound [simp]: "unat (a :: 8 word) < 256"
  using unsigned_less [of a] by simp

lemma unat_byte_div4 [simp]: "unat (a :: 8 word) div 4 < 64"
  using unat_byte_bound [of a] by linarith

lemma unat_byte_div16 [simp]: "unat (a :: 8 word) div 16 < 16"
  using unat_byte_bound [of a] by linarith

lemma unat_byte_div64 [simp]: "unat (a :: 8 word) div 64 < 4"
  using unat_byte_bound [of a] by linarith

lemma sextet_bound_nat: "y < 16 \<Longrightarrow> (x::nat) mod 4 * 16 + y < 64"
  using mod_less_divisor [of 4 x] by linarith

lemma sextet_bound_nat': "y < 4 \<Longrightarrow> (x::nat) mod 16 * 4 + y < 64"
  using mod_less_divisor [of 16 x] by linarith

lemma sextet_bounds [simp]:
  "unat (a :: 8 word) mod 4 * 16 + unat (b :: 8 word) div 16 < 64"
  "unat b mod 16 * 4 + unat (c :: 8 word) div 64 < 64"
  "unat a mod 4 * 16 < 64"
  "unat b mod 16 * 4 < 64"
  using sextet_bound_nat [of _ "unat a"] sextet_bound_nat' [of _ "unat b"]
    sextet_bound_nat [of 0 "unat a"] sextet_bound_nat' [of 0 "unat b"]
  by simp_all

lemma padding_simps [simp]:
  "padding [] = []"
  "padding [a] = [pad_unit, pad_unit]"
  "padding [a, b] = [pad_unit]"
  "padding (a # b # c # rest) = padding rest"
proof -
  have "Suc (Suc (Suc n)) mod 3 = n mod 3" for n :: nat by presburger
  then show "padding (a # b # c # rest) = padding rest" by (simp add: padding_def)
qed (simp_all add: padding_def numeral_2_eq_2)

lemma b64_encode_sextets: "b64_encode bs = map b64_char (sextets bs) @ padding bs"
  by (induction bs rule: b64_encode.induct) simp_all

lemma sextets_bound: "n \<in> set (sextets bs) \<Longrightarrow> n < 64"
  by (induction bs rule: sextets.induct) auto

lemma byte_parts:
  "unat (a :: 8 word) div 4 * 4 + unat a mod 4 = unat a"
  "unat a div 16 * 16 + unat a mod 16 = unat a"
  "unat a div 64 * 64 + unat a mod 64 = unat a"
  by simp_all

lemma sextet_parts [simp]:
  "(unat (a :: 8 word) mod 4 * 16 + unat (b :: 8 word) div 16) div 16 = unat a mod 4"
  "(unat (a :: 8 word) mod 4 * 16 + unat (b :: 8 word) div 16) mod 16 = unat b div 16"
  "(unat b mod 16 * 4 + unat (c :: 8 word) div 64) div 4 = unat b mod 16"
  "(unat b mod 16 * 4 + unat (c :: 8 word) div 64) mod 4 = unat c div 64"
  using unat_byte_div16 [of b] unat_byte_div64 [of c] by simp_all

lemma b64_bytes_sextets: "b64_bytes (sextets bs) = bs"
  by (induction bs rule: sextets.induct)
     (simp_all add: byte_parts del: of_nat_add of_nat_mult)

text \<open>What the 64 characters are not: padding, white space, or a character of the URL variant.\<close>

lemma b64_value_char_mod [simp]: "b64_value (b64_char n) = Some (n mod 64)"
  using b64_value_char [of "n mod 64"] by (simp add: b64_char_def)

lemma space_no_value: "is_space u \<Longrightarrow> b64_value u = None"
  by (auto simp: is_space_def b64_value_def Let_def word_le_nat_alt)

lemma ascii_space_is_space: "is_ascii_space u \<Longrightarrow> is_space u"
  by (auto simp: is_ascii_space_def is_space_def)

lemma b64_char_not [simp]:
  "b64_char n \<noteq> pad_unit" "b64_char n \<noteq> 45" "b64_char n \<noteq> 95"
  "\<not> is_space (b64_char n)" "\<not> is_ascii_space (b64_char n)"
proof -
  have none: "b64_value u = None \<Longrightarrow> b64_char n \<noteq> u" for u
    by (metis b64_value_char_mod option.distinct(1))
  show "b64_char n \<noteq> pad_unit" "b64_char n \<noteq> 45" "b64_char n \<noteq> 95"
    by (rule none; simp add: b64_value_def pad_unit_def)+
  show "\<not> is_space (b64_char n)"
    using none space_no_value by blast
  then show "\<not> is_ascii_space (b64_char n)"
    using ascii_space_is_space by blast
qed

lemma pad_not_space [simp]: "\<not> is_space pad_unit" "\<not> is_ascii_space pad_unit"
  by (simp_all add: is_space_def is_ascii_space_def pad_unit_def)

lemma last_not_pad: "ns \<noteq> [] \<Longrightarrow> last (map b64_char ns) \<noteq> pad_unit"
  by (simp add: last_map)

lemma drop_padding_sextets:
  assumes "k \<le> 2" and "(length ns + k) mod 4 = 0"
  shows "drop_padding (map b64_char ns @ replicate k pad_unit) = map b64_char ns"
proof -
  consider "k = 0" | "k = 1" | "k = 2" using assms(1) by linarith
  then show ?thesis
  proof cases
    case 1
    then show ?thesis by (auto simp: drop_padding_def last_not_pad)
  next
    case 2
    with assms(2) have "ns \<noteq> []" by auto
    with 2 assms(2) show ?thesis by (simp add: drop_padding_def last_not_pad butlast_append)
  next
    case 3
    then have "replicate k pad_unit = [pad_unit, pad_unit]" by (simp add: numeral_2_eq_2)
    with 3 assms(2) show ?thesis by (simp add: drop_padding_def butlast_append)
  qed
qed

text \<open>
  Decoding any padded sequence of sextets, canonical or not: \<open>atob\<close> never checks that the bits it
  drops are zero.
\<close>

lemma atob_sextets:
  assumes "list_all (\<lambda>n. n < 64) ns" and "k \<le> 2" and "(length ns + k) mod 4 = 0"
  shows "atob (map b64_char ns @ replicate k pad_unit) = Inr (map ucast (b64_bytes ns))"
proof -
  have no_space: "filter (\<lambda>u. \<not> is_ascii_space u) (map b64_char ns @ replicate k pad_unit) =
      map b64_char ns @ replicate k pad_unit"
    by (rule filter_True) auto
  have "length ns mod 4 \<noteq> 1" using assms(2,3) by presburger
  moreover have "map (the \<circ> b64_value \<circ> b64_char) ns = ns"
    using assms(1) by (intro map_idI) (simp add: list_all_iff)
  moreover have "\<forall>u \<in> set (map b64_char ns). b64_value u \<noteq> None"
    using assms(1) by (auto simp: list_all_iff)
  ultimately show ?thesis
    using drop_padding_sextets [OF assms(2,3)] no_space
    by (auto simp: atob_def Let_def comp_assoc o_def)
qed

lemma length_sextets: "length (sextets bs) = (4 * length bs + 2) div 3"
  by (induction bs rule: sextets.induct) simp_all

lemma sextets_all: "list_all (\<lambda>n. n < 64) (sextets bs)"
  by (auto simp: list_all_iff intro: sextets_bound)

definition pad_count :: "nat \<Rightarrow> nat" where
  "pad_count n = (3 - n mod 3) mod 3"

lemma pad_count_le: "pad_count n \<le> 2"
  unfolding pad_count_def by linarith

lemma sextets_pad_mod: "(length (sextets bs) + pad_count (length bs)) mod 4 = 0"
  by (induction bs rule: sextets.induct) (simp_all add: pad_count_def numeral_2_eq_2)

lemma padding_count: "padding bs = replicate (pad_count (length bs)) pad_unit"
  by (simp add: padding_def pad_count_def)

lemma atob_b64_encode: "atob (b64_encode bs) = Inr (map ucast bs)"
  unfolding b64_encode_sextets padding_count
  by (subst atob_sextets [OF sextets_all pad_count_le sextets_pad_mod])
     (simp add: b64_bytes_sextets)

lemma b64_encode_eq_Nil [simp]: "b64_encode bs = [] \<longleftrightarrow> bs = []"
  by (cases bs rule: b64_encode.cases) auto

lemma unat_ucast_byte [simp]: "unat (ucast (b :: 8 word) :: code_unit) = unat b"
proof -
  have "unat b < 2 ^ 16" by (rule less_trans [OF unat_byte_bound]) simp
  then show ?thesis by (simp add: unsigned_ucast_eq take_bit_nat_eq_self)
qed

lemma ucast_byte_le [simp]: "\<not> 255 < (ucast (b :: 8 word) :: code_unit)"
  using unat_byte_bound [of b] by (simp add: word_less_nat_alt del: unat_byte_bound)

lemma ucast_byte_code_unit [simp]: "ucast (ucast (b :: 8 word) :: code_unit) = b"
  by (simp add: word_unat_eq_iff unsigned_ucast_eq take_bit_word_eq_self)

lemma map_ucast_code_units [simp]:
  "map (ucast :: code_unit \<Rightarrow> 8 word) (map ucast (bs :: bytes)) = bs"
  by (simp add: o_def)

text \<open>\<open>btoa\<close> is total on the binary strings it is given, and \<open>atob\<close> undoes it.\<close>

lemma btoa_binary: "btoa (map ucast (bs :: bytes)) = Inr (b64_encode bs)"
  by (auto simp: btoa_def o_def)

interpretation b64: codec b64_encode "\<lambda>s. bindR (atob s) (\<lambda>t. Inr (map ucast t :: bytes))" "\<lambda>_. True"
  by unfold_locales (simp add: atob_b64_encode o_def)

end
