(* ===== verification/Utf8.thy ===== *)
theory Utf8
  imports KB_Prelude
begin

text \<open>
  \<open>TextEncoder\<close> and \<open>TextDecoder\<close>, the platform objects with which \<open>static/crypto.js\<close> turns the
  note into bytes and back. A string is a list of UTF-16 code units and may hold lone surrogates:
  the encoder replaces them by U+FFFD. The decoder is the state machine of the Encoding standard,
  with its error mode \<open>replacement\<close>, and drops one byte order mark at the start. The same two
  conversions serve \<open>URLSearchParams\<close> and \<open>encodeURIComponent\<close> in \<open>LinkJs\<close>.
\<close>

section \<open>UTF-16\<close>

definition is_high :: "code_unit \<Rightarrow> bool" where
  "is_high u \<longleftrightarrow> 0xD800 \<le> u \<and> u \<le> 0xDBFF"

definition is_low :: "code_unit \<Rightarrow> bool" where
  "is_low u \<longleftrightarrow> 0xDC00 \<le> u \<and> u \<le> 0xDFFF"

text \<open>The code point of a surrogate pair.\<close>

definition pair_value :: "code_unit \<Rightarrow> code_unit \<Rightarrow> nat" where
  "pair_value u v = 0x10000 + (unat u - 0xD800) * 0x400 + (unat v - 0xDC00)"

text \<open>The scalar values of a string, a lone surrogate read as U+FFFD.\<close>

fun code_points :: "jsstring \<Rightarrow> nat list" where
  "code_points [] = []"
| "code_points [u] = [if is_high u \<or> is_low u then 0xFFFD else unat u]"
| "code_points (u # v # rest) =
     (if is_high u then
        (if is_low v then pair_value u v # code_points rest else 0xFFFD # code_points (v # rest))
      else if is_low u then 0xFFFD # code_points (v # rest)
      else unat u # code_points (v # rest))"

definition utf16_units :: "nat \<Rightarrow> jsstring" where
  "utf16_units c =
     (if c < 0x10000 then [of_nat c]
      else [of_nat (0xD800 + (c - 0x10000) div 0x400), of_nat (0xDC00 + (c - 0x10000) mod 0x400)])"

definition to_utf16 :: "nat list \<Rightarrow> jsstring" where
  "to_utf16 cs = concat (map utf16_units cs)"

text \<open>\<open>s.toWellFormed()\<close>: the string with its lone surrogates replaced.\<close>

fun to_well_formed :: "jsstring \<Rightarrow> jsstring" where
  "to_well_formed [] = []"
| "to_well_formed [u] = [if is_high u \<or> is_low u then 0xFFFD else u]"
| "to_well_formed (u # v # rest) =
     (if is_high u then
        (if is_low v then u # v # to_well_formed rest else 0xFFFD # to_well_formed (v # rest))
      else if is_low u then 0xFFFD # to_well_formed (v # rest)
      else u # to_well_formed (v # rest))"

definition well_formed :: "jsstring \<Rightarrow> bool" where
  "well_formed s \<longleftrightarrow> to_well_formed s = s"

definition scalar :: "nat \<Rightarrow> bool" where
  "scalar c \<longleftrightarrow> c < 0x110000 \<and> \<not> (0xD800 \<le> c \<and> c \<le> 0xDFFF)"

lemma unat_code_unit_bound: "unat (u :: code_unit) < 65536"
  using unsigned_less [of u] by simp

lemma unat_of_nat_unit: "n < 65536 \<Longrightarrow> unat (of_nat n :: code_unit) = n"
  by (simp add: unat_of_nat)

lemma unat_of_nat_byte: "n < 256 \<Longrightarrow> unat (of_nat n :: 8 word) = n"
  by (simp add: unat_of_nat)

lemma is_high_iff: "is_high u \<longleftrightarrow> 0xD800 \<le> unat u \<and> unat u \<le> 0xDBFF"
  by (simp add: is_high_def word_le_nat_alt)

lemma is_low_iff: "is_low u \<longleftrightarrow> 0xDC00 \<le> unat u \<and> unat u \<le> 0xDFFF"
  by (simp add: is_low_def word_le_nat_alt)

lemma utf16_unit [simp]: "utf16_units (unat u) = [u]"
  using unat_code_unit_bound [of u] by (simp add: utf16_units_def)

lemma utf16_replacement [simp]: "utf16_units 0xFFFD = [0xFFFD]"
  by (simp add: utf16_units_def)

lemma pair_value_bounds:
  assumes "is_high u" and "is_low v"
  shows "0x10000 \<le> pair_value u v" and "pair_value u v < 0x110000"
proof -
  from assms have "unat u - 0xD800 \<le> 0x3FF" and "unat v - 0xDC00 \<le> 0x3FF"
    by (auto simp: is_high_iff is_low_iff)
  then show "0x10000 \<le> pair_value u v" and "pair_value u v < 0x110000"
    unfolding pair_value_def by linarith+
qed

lemma utf16_pair [simp]:
  assumes "is_high u" and "is_low v"
  shows "utf16_units (pair_value u v) = [u, v]"
proof -
  have low: "unat v - 0xDC00 < 0x400" using assms(2) by (auto simp: is_low_iff)
  have off: "pair_value u v - 0x10000 = (unat u - 0xD800) * 0x400 + (unat v - 0xDC00)"
    by (simp add: pair_value_def)
  have "(pair_value u v - 0x10000) div 0x400 = unat u - 0xD800"
    and "(pair_value u v - 0x10000) mod 0x400 = unat v - 0xDC00"
    unfolding off using low by (simp_all del: diff_is_0_eq')
  then have "0xD800 + (pair_value u v - 0x10000) div 0x400 = unat u"
    and "0xDC00 + (pair_value u v - 0x10000) mod 0x400 = unat v"
    using assms by (simp_all add: is_high_iff is_low_iff)
  with pair_value_bounds (1) [OF assms] show ?thesis
    by (simp add: utf16_units_def del: of_nat_add)
qed

lemma to_utf16_simps [simp]:
  "to_utf16 [] = []"
  "to_utf16 (c # cs) = utf16_units c @ to_utf16 cs"
  by (simp_all add: to_utf16_def)

lemma to_utf16_code_points: "to_utf16 (code_points s) = to_well_formed s"
  by (induction s rule: code_points.induct) auto

lemma scalar_unit: "\<not> is_high u \<Longrightarrow> \<not> is_low u \<Longrightarrow> scalar (unat u)"
  using unat_code_unit_bound [of u] by (auto simp: scalar_def is_high_iff is_low_iff)

lemma code_points_scalar: "c \<in> set (code_points s) \<Longrightarrow> scalar c"
proof (induction s rule: code_points.induct)
  case (2 u)
  then show ?case using scalar_unit [of u] by (auto simp: scalar_def split: if_splits)
next
  case (3 u v rest)
  have "is_high u \<Longrightarrow> is_low v \<Longrightarrow> scalar (pair_value u v)"
    using pair_value_bounds [of u v] by (simp add: scalar_def)
  moreover have "scalar 0xFFFD" by (simp add: scalar_def)
  ultimately show ?case using 3 scalar_unit [of u] by (auto split: if_splits)
qed simp

section \<open>UTF-8\<close>

definition utf8_cp :: "nat \<Rightarrow> bytes" where
  "utf8_cp c =
     (if c < 0x80 then [of_nat c]
      else if c < 0x800 then [of_nat (0xC0 + c div 64), of_nat (0x80 + c mod 64)]
      else if c < 0x10000 then
        [of_nat (0xE0 + c div 4096), of_nat (0x80 + c div 64 mod 64), of_nat (0x80 + c mod 64)]
      else
        [of_nat (0xF0 + c div 262144), of_nat (0x80 + c div 4096 mod 64),
         of_nat (0x80 + c div 64 mod 64), of_nat (0x80 + c mod 64)])"

text \<open>\<open>encoder.encode(s)\<close>.\<close>

definition text_encode :: "jsstring \<Rightarrow> bytes" where
  "text_encode s = concat (map utf8_cp (code_points s))"

text \<open>
  The decoder: the code point so far, the number of bytes it still needs, and the bounds of the
  next continuation byte. A byte outside the bounds ends the sequence with U+FFFD and is read
  again as a first byte.
\<close>

function utf8_dec :: "nat \<Rightarrow> nat \<Rightarrow> nat \<Rightarrow> nat \<Rightarrow> bytes \<Rightarrow> nat list" where
  "utf8_dec cp needed lo hi [] = (if needed = 0 then [] else [0xFFFD])"
| "utf8_dec cp needed lo hi (b # bs) =
     (let x = unat b in
      if needed = 0 then
        (if x \<le> 0x7F then x # utf8_dec 0 0 0x80 0xBF bs
         else if 0xC2 \<le> x \<and> x \<le> 0xDF then utf8_dec (x - 0xC0) 1 0x80 0xBF bs
         else if 0xE0 \<le> x \<and> x \<le> 0xEF then
           utf8_dec (x - 0xE0) 2 (if x = 0xE0 then 0xA0 else 0x80)
             (if x = 0xED then 0x9F else 0xBF) bs
         else if 0xF0 \<le> x \<and> x \<le> 0xF4 then
           utf8_dec (x - 0xF0) 3 (if x = 0xF0 then 0x90 else 0x80)
             (if x = 0xF4 then 0x8F else 0xBF) bs
         else 0xFFFD # utf8_dec 0 0 0x80 0xBF bs)
      else if x < lo \<or> hi < x then 0xFFFD # utf8_dec 0 0 0x80 0xBF (b # bs)
      else if needed = 1 then (cp * 64 + (x - 0x80)) # utf8_dec 0 0 0x80 0xBF bs
      else utf8_dec (cp * 64 + (x - 0x80)) (needed - 1) 0x80 0xBF bs)"
  by pat_completeness auto
termination
  by (relation "measures [\<lambda>(cp, needed, lo, hi, bs). length bs, \<lambda>(cp, needed, lo, hi, bs). needed]")
     auto

definition utf8_code_points :: "bytes \<Rightarrow> nat list" where
  "utf8_code_points bs = utf8_dec 0 0 0x80 0xBF bs"

text \<open>UTF-8 decode without BOM, and \<open>decoder.decode(bs)\<close>, which drops one leading BOM.\<close>

definition utf8_decode_no_bom :: "bytes \<Rightarrow> jsstring" where
  "utf8_decode_no_bom bs = to_utf16 (utf8_code_points bs)"

definition drop_bom :: "'a list \<Rightarrow> 'a \<Rightarrow> 'a list" where
  "drop_bom xs bom = (case xs of [] \<Rightarrow> [] | x # rest \<Rightarrow> if x = bom then rest else xs)"

definition text_decode :: "bytes \<Rightarrow> jsstring" where
  "text_decode bs = to_utf16 (drop_bom (utf8_code_points bs) 0xFEFF)"

section \<open>Decoding undoes encoding\<close>

text \<open>The decoder's moves, one lemma per kind of byte.\<close>

lemma dec_ascii:
  "unat b \<le> 0x7F \<Longrightarrow> utf8_dec cp 0 lo hi (b # bs) = unat b # utf8_dec 0 0 0x80 0xBF bs"
  by simp

lemma dec_lead2:
  "0xC2 \<le> unat b \<Longrightarrow> unat b \<le> 0xDF \<Longrightarrow>
   utf8_dec cp 0 lo hi (b # bs) = utf8_dec (unat b - 0xC0) 1 0x80 0xBF bs"
  by simp

lemma dec_lead3:
  "0xE0 \<le> unat b \<Longrightarrow> unat b \<le> 0xEF \<Longrightarrow>
   utf8_dec cp 0 lo hi (b # bs) =
     utf8_dec (unat b - 0xE0) 2 (if unat b = 0xE0 then 0xA0 else 0x80)
       (if unat b = 0xED then 0x9F else 0xBF) bs"
  by simp

lemma dec_lead4:
  "0xF0 \<le> unat b \<Longrightarrow> unat b \<le> 0xF4 \<Longrightarrow>
   utf8_dec cp 0 lo hi (b # bs) =
     utf8_dec (unat b - 0xF0) 3 (if unat b = 0xF0 then 0x90 else 0x80)
       (if unat b = 0xF4 then 0x8F else 0xBF) bs"
  by simp

lemma dec_continue:
  "0 < needed \<Longrightarrow> needed \<noteq> 1 \<Longrightarrow> lo \<le> unat b \<Longrightarrow> unat b \<le> hi \<Longrightarrow>
   utf8_dec cp needed lo hi (b # bs) =
     utf8_dec (cp * 64 + (unat b - 0x80)) (needed - 1) 0x80 0xBF bs"
  by simp

lemma dec_last:
  "lo \<le> unat b \<Longrightarrow> unat b \<le> hi \<Longrightarrow>
   utf8_dec cp (Suc 0) lo hi (b # bs) = (cp * 64 + (unat b - 0x80)) # utf8_dec 0 0 0x80 0xBF bs"
  by simp

declare utf8_dec.simps(2) [simp del]

lemmas dec_moves = dec_ascii dec_lead2 dec_lead3 dec_lead4 dec_continue dec_last

lemma mod64_le: "(n::nat) mod 64 \<le> 63"
  using mod_less_divisor [of 64 n] by linarith

lemma dec_two:
  assumes "0x80 \<le> c" and "c < 0x800"
  shows "utf8_dec cp 0 lo hi (utf8_cp c @ rest) = c # utf8_dec 0 0 0x80 0xBF rest"
proof -
  have d: "2 \<le> c div 64" "c div 64 \<le> 31" using assms by linarith+
  then have u: "unat (of_nat (0xC0 + c div 64) :: 8 word) = 0xC0 + c div 64"
    "unat (of_nat (0x80 + c mod 64) :: 8 word) = 0x80 + c mod 64"
    using mod64_le [of c] by (intro unat_of_nat_byte; linarith)+
  from assms show ?thesis
    using d mod64_le [of c] by (simp add: utf8_cp_def dec_moves u del: of_nat_add)
qed

lemma dec_three:
  assumes "0x800 \<le> c" and "c < 0x10000" and "scalar c"
  shows "utf8_dec cp 0 lo hi (utf8_cp c @ rest) = c # utf8_dec 0 0 0x80 0xBF rest"
proof -
  let ?q = "c div 4096" and ?m = "c div 64 mod 64"
  have q: "?q \<le> 15" and qm: "?q * 64 + ?m = c div 64"
    using assms(2) div_mult_mod_eq [of "c div 64" 64] by (simp_all add: div_mult2_eq [symmetric])
  have low: "?q = 0 \<Longrightarrow> 32 \<le> ?m" using qm assms(1) by linarith
  have high: "?q = 13 \<Longrightarrow> ?m \<le> 31"
    using qm assms(3) div_mult_mod_eq [of c 64] mod64_le [of c] mod64_le [of "c div 64"]
    unfolding scalar_def by linarith
  have u: "unat (of_nat (0xE0 + ?q) :: 8 word) = 0xE0 + ?q"
    "unat (of_nat (0x80 + ?m) :: 8 word) = 0x80 + ?m"
    "unat (of_nat (0x80 + c mod 64) :: 8 word) = 0x80 + c mod 64"
    using q mod64_le [of c] mod64_le [of "c div 64"] by (intro unat_of_nat_byte; linarith)+
  from assms(1,2) show ?thesis
    using q low high mod64_le [of c] mod64_le [of "c div 64"]
    by (simp add: utf8_cp_def dec_moves u qm del: of_nat_add)
qed

lemma dec_four:
  assumes "0x10000 \<le> c" and "c < 0x110000"
  shows "utf8_dec cp 0 lo hi (utf8_cp c @ rest) = c # utf8_dec 0 0 0x80 0xBF rest"
proof -
  let ?q = "c div 262144" and ?m = "c div 4096 mod 64" and ?n = "c div 64 mod 64"
  have q: "?q \<le> 4" and qm: "?q * 64 + ?m = c div 4096" and mn: "c div 4096 * 64 + ?n = c div 64"
    using assms(2) div_mult_mod_eq [of "c div 4096" 64] div_mult_mod_eq [of "c div 64" 64]
    by (simp_all add: div_mult2_eq [symmetric])
  have low: "?q = 0 \<Longrightarrow> 16 \<le> ?m" using qm assms(1) by linarith
  have high: "?q = 4 \<Longrightarrow> ?m \<le> 15" using qm assms(2) by linarith
  have u: "unat (of_nat (0xF0 + ?q) :: 8 word) = 0xF0 + ?q"
    "unat (of_nat (0x80 + ?m) :: 8 word) = 0x80 + ?m"
    "unat (of_nat (0x80 + ?n) :: 8 word) = 0x80 + ?n"
    "unat (of_nat (0x80 + c mod 64) :: 8 word) = 0x80 + c mod 64"
    using q mod64_le [of c] mod64_le [of "c div 64"] mod64_le [of "c div 4096"]
    by (intro unat_of_nat_byte; linarith)+
  from assms show ?thesis
    using q low high mod64_le [of c] mod64_le [of "c div 64"] mod64_le [of "c div 4096"]
    by (simp add: utf8_cp_def dec_moves u qm mn del: of_nat_add)
qed

lemma dec_cp:
  assumes "scalar c"
  shows "utf8_dec cp 0 lo hi (utf8_cp c @ rest) = c # utf8_dec 0 0 0x80 0xBF rest"
proof -
  have "c < 0x80 \<Longrightarrow> ?thesis"
    by (simp add: utf8_cp_def dec_ascii unat_of_nat_byte)
  moreover have "c < 0x110000" using assms by (simp add: scalar_def)
  ultimately show ?thesis
    using dec_two dec_three [OF _ _ assms] dec_four by (meson not_le)
qed

lemma utf8_round_trip:
  "list_all scalar cs \<Longrightarrow> utf8_code_points (concat (map utf8_cp cs)) = cs"
  unfolding utf8_code_points_def
  by (induction cs) (simp_all add: dec_cp)

lemma code_points_all_scalar: "list_all scalar (code_points s)"
  by (auto simp: list_all_iff intro: code_points_scalar)

lemma utf8_code_points_encode [simp]: "utf8_code_points (text_encode s) = code_points s"
  unfolding text_encode_def by (rule utf8_round_trip [OF code_points_all_scalar])

lemma utf8_decode_no_bom_encode: "utf8_decode_no_bom (text_encode s) = to_well_formed s"
  by (simp add: utf8_decode_no_bom_def to_utf16_code_points)

text \<open>
  What \<open>decode\<close> after \<open>encode\<close> does to any string: lone surrogates become U+FFFD, and one leading
  byte order mark disappears.
\<close>

lemma utf16_units_hd:
  assumes "c < 0x110000" and "c \<noteq> 0xFEFF"
  shows "utf16_units c \<noteq> []" and "hd (utf16_units c) \<noteq> 0xFEFF"
proof -
  show "utf16_units c \<noteq> []" by (simp add: utf16_units_def)
  have "(c - 0x10000) div 0x400 \<le> 0x3FF" using assms(1) by linarith
  then have "unat (hd (utf16_units c)) \<noteq> 0xFEFF"
    using assms by (simp add: utf16_units_def unat_of_nat_unit del: of_nat_add)
  then show "hd (utf16_units c) \<noteq> 0xFEFF" by auto
qed

lemma drop_bom_to_utf16:
  assumes "list_all scalar cs"
  shows "to_utf16 (drop_bom cs 0xFEFF) = drop_bom (to_utf16 cs) 0xFEFF"
proof (cases cs)
  case (Cons c rest)
  show ?thesis
  proof (cases "c = 0xFEFF")
    case True
    with Cons show ?thesis by (simp add: drop_bom_def utf16_units_def)
  next
    case False
    moreover from Cons assms have "c < 0x110000" by (simp add: scalar_def)
    ultimately obtain u us where "utf16_units c = u # us" and "u \<noteq> 0xFEFF"
      using utf16_units_hd [of c] by (cases "utf16_units c") auto
    with Cons False show ?thesis by (simp add: drop_bom_def)
  qed
qed (simp add: drop_bom_def)

lemma text_decode_encode: "text_decode (text_encode s) = drop_bom (to_well_formed s) 0xFEFF"
  by (simp add: text_decode_def drop_bom_to_utf16 code_points_all_scalar to_utf16_code_points)

interpretation utf8: codec text_encode "\<lambda>bs. Inr (text_decode bs)"
  "\<lambda>s. well_formed s \<and> drop_bom s 0xFEFF = s"
  by unfold_locales (simp add: text_decode_encode well_formed_def)

section \<open>ASCII strings\<close>

definition ascii :: "jsstring \<Rightarrow> bool" where
  "ascii s \<longleftrightarrow> list_all (\<lambda>u. unat u < 128) s"

lemma ascii_simps [simp]:
  "ascii []"
  "ascii (u # s) \<longleftrightarrow> unat u < 128 \<and> ascii s"
  "ascii (s @ t) \<longleftrightarrow> ascii s \<and> ascii t"
  by (simp_all add: ascii_def)

lemma ascii_not_surrogate: "unat u < 128 \<Longrightarrow> \<not> is_high u \<and> \<not> is_low u"
  by (simp add: is_high_iff is_low_iff)

lemma code_points_ascii: "ascii s \<Longrightarrow> code_points s = map unat s"
  by (induction s rule: code_points.induct) (simp_all add: ascii_not_surrogate)

lemma text_encode_ascii: "ascii s \<Longrightarrow> text_encode s = map ucast s"
proof -
  assume s: "ascii s"
  then have "concat (map utf8_cp (map unat s)) = map ucast s"
    by (induction s) (simp_all add: utf8_cp_def)
  with s show ?thesis by (simp add: text_encode_def code_points_ascii)
qed

lemma to_well_formed_ascii: "ascii s \<Longrightarrow> to_well_formed s = s"
  by (induction s rule: to_well_formed.induct) (simp_all add: ascii_not_surrogate)

lemma utf8_decode_ascii: "ascii s \<Longrightarrow> utf8_decode_no_bom (map ucast s) = s"
  using utf8_decode_no_bom_encode [of s]
  by (simp add: text_encode_ascii to_well_formed_ascii)

section \<open>Properties\<close>

lemma length_to_well_formed: "length (to_well_formed s) = length s"
  by (induction s rule: to_well_formed.induct) simp_all

text \<open>C35: \<open>TextDecoder\<close> on what \<open>TextEncoder\<close> made of a string gives the string back when its surrogates are
  paired and it does not start with U+FEFF. That character is dropped at the start of a message, and an
  unpaired surrogate comes back as U+FFFD.\<close>
theorem text_survives:
  "text_decode (text_encode s) = drop_bom (to_well_formed s) 0xFEFF \<and>
   (text_decode (text_encode s) = s \<longleftrightarrow> well_formed s \<and> \<not> prefix [0xFEFF] s)"
proof -
  let ?t = "to_well_formed s"
  have "drop_bom ?t 0xFEFF = s \<longleftrightarrow> ?t = s \<and> \<not> prefix [0xFEFF] s"
    using length_to_well_formed [of s] by (cases ?t; cases s) (auto simp: drop_bom_def)
  with text_decode_encode show ?thesis by (simp add: well_formed_def)
qed

end
