(* ===== verification/CryptoJs.thy ===== *)
theory CryptoJs
  imports Base64 Utf8
begin

text \<open>
  \<open>static/crypto.js\<close>, the browser's encryption module: the chunked Base64URL serialisation, the
  PEM reader, and the two exported operations \<open>encryptMessage\<close> and \<open>decryptMessage\<close>.

  Web Crypto is not in the repository, so it is a parameter: a record of the operations the module
  calls. What the module relies on is stated by \<open>key_pair_ok\<close> (RSA-OAEP with a matching
  4096-bit pair) and \<open>aes_ok\<close> (AES-GCM with a 96-bit IV), both documented behaviour. The random
  values are an argument (\<open>randomness\<close>). The engine's bound on the number of arguments of a call,
  which the chunking exists for, is the parameter \<open>lim\<close> of \<open>fromCharCode\<close>.

  A call that may not return has an \<open>option\<close> result; \<open>None\<close> is "does not return". This concerns the
  serialisation loop only, which would not end for a chunk size of zero.
\<close>

section \<open>Base64URL text\<close>

definition chunkSizeForPlaintext :: "nat \<Rightarrow> nat" where
  "chunkSizeForPlaintext plaintextByteLength =
     (if plaintextByteLength \<le> 0x80 then 0x80
      else if plaintextByteLength \<le> 0x800 then 0x800
      else 0x8000)"

text \<open>\<open>String.fromCharCode(...chunk)\<close>: too many arguments are a \<open>RangeError\<close>.\<close>

definition fromCharCode :: "nat \<Rightarrow> bytes \<Rightarrow> jsstring result" where
  "fromCharCode lim chunk = (if lim < length chunk then Inl RangeError else Inr (map ucast chunk))"

text \<open>The loop of \<open>bytesToBase64\<close>: \<open>i\<close> is its counter, \<open>binary\<close> its accumulator.\<close>

partial_function (option) binary_loop ::
  "nat \<Rightarrow> nat \<Rightarrow> bytes \<Rightarrow> nat \<Rightarrow> jsstring \<Rightarrow> jsstring result option"
where
  "binary_loop lim chunkSize bytes i binary =
     (if i < length bytes then
        (case fromCharCode lim (slice i (i + chunkSize) bytes) of
           Inl e \<Rightarrow> Some (Inl e)
         | Inr piece \<Rightarrow> binary_loop lim chunkSize bytes (i + chunkSize) (binary @ piece))
      else Some (Inr binary))"

definition bytesToBase64 :: "nat \<Rightarrow> bytes \<Rightarrow> nat \<Rightarrow> jsstring result option" where
  "bytesToBase64 lim bytes chunkSize =
     map_option (\<lambda>r. bindR r btoa) (binary_loop lim chunkSize bytes 0 [])"

definition base64ToBytes :: "jsstring \<Rightarrow> bytes result" where
  "base64ToBytes base64 =
     (let normalized = replace_unit 95 47 (replace_unit 45 43 base64);
          padLength = (if length normalized mod 4 = 0 then 0 else 4 - length normalized mod 4)
      in bindR (atob (normalized @ replicate padLength pad_unit))
           (\<lambda>binary. Inr (map ucast binary)))"

text \<open>\<open>.replace(/=+$/g, "")\<close>.\<close>

definition strip_padding :: "jsstring \<Rightarrow> jsstring" where
  "strip_padding s = rev (dropWhile (\<lambda>u. u = pad_unit) (rev s))"

definition bytesToBase64URL :: "nat \<Rightarrow> bytes \<Rightarrow> nat \<Rightarrow> jsstring result option" where
  "bytesToBase64URL lim bytes chunkSize =
     map_option
       (\<lambda>r. bindR r (\<lambda>s. Inr (strip_padding (replace_unit 47 95 (replace_unit 43 45 s)))))
       (bytesToBase64 lim bytes chunkSize)"

text \<open>The pattern \<open>^[A-Za-z0-9_-]+$\<close>, which \<open>link.js\<close> declares a second time.\<close>

definition is_base64url_unit :: "code_unit \<Rightarrow> bool" where
  "is_base64url_unit u \<longleftrightarrow>
     (let x = unat u in (65 \<le> x \<and> x \<le> 90) \<or> (97 \<le> x \<and> x \<le> 122) \<or> (48 \<le> x \<and> x \<le> 57) \<or>
        x = 95 \<or> x = 45)"

definition base64URLPattern :: "jsstring \<Rightarrow> bool" where
  "base64URLPattern s \<longleftrightarrow> s \<noteq> [] \<and> list_all is_base64url_unit s"

definition base64URLToBytes :: "jsstring \<Rightarrow> bytes result" where
  "base64URLToBytes value =
     (if \<not> base64URLPattern value then Inl (JsError (js ''Invalid base64url data.''))
      else base64ToBytes value)"

subsection \<open>The serialisation loop\<close>

text \<open>The Base64URL text of a byte string, with no chunks: what the loop is compared with.\<close>

definition url_char :: "nat \<Rightarrow> code_unit" where
  "url_char n = (let u = b64_char n in if u = 43 then 45 else if u = 47 then 95 else u)"

definition b64url :: "bytes \<Rightarrow> jsstring" where
  "b64url bs = map url_char (sextets bs)"

lemma chunkSizeForPlaintext_bounds: "0x80 \<le> chunkSizeForPlaintext n \<and> chunkSizeForPlaintext n \<le> 0x8000"
  by (simp add: chunkSizeForPlaintext_def)

lemma binary_loop_result:
  assumes "0 < chunkSize" and "chunkSize \<le> lim"
  shows "binary_loop lim chunkSize bytes i binary = Some (Inr (binary @ map ucast (drop i bytes)))"
proof (induction "length bytes - i" arbitrary: i binary rule: less_induct)
  case less
  show ?case
  proof (cases "i < length bytes")
    case True
    have len: "\<not> lim < length (slice i (i + chunkSize) bytes)"
      using assms(2) by (simp add: slice_def)
    have "length bytes - (i + chunkSize) < length bytes - i" using True assms(1) by linarith
    then have "binary_loop lim chunkSize bytes (i + chunkSize)
        (binary @ map ucast (slice i (i + chunkSize) bytes)) =
        Some (Inr ((binary @ map ucast (slice i (i + chunkSize) bytes)) @
          map ucast (drop (i + chunkSize) bytes)))"
      by (rule less)
    moreover have "slice i (i + chunkSize) bytes @ drop (i + chunkSize) bytes = drop i bytes"
      by (simp add: slice_def) (metis add.commute append_take_drop_id drop_drop)
    ultimately show ?thesis
      using True len by (subst binary_loop.simps)
        (simp add: fromCharCode_def map_append [symmetric] del: map_append)
  next
    case False
    then show ?thesis by (subst binary_loop.simps) simp
  qed
qed

lemma bytesToBase64_result:
  "0 < chunkSize \<Longrightarrow> chunkSize \<le> lim \<Longrightarrow>
   bytesToBase64 lim bytes chunkSize = Some (Inr (b64_encode bytes))"
  by (simp add: bytesToBase64_def binary_loop_result btoa_binary)

lemma binary_loop_returns:
  assumes "0 < chunkSize"
  shows "\<exists>r. binary_loop lim chunkSize bytes i binary = Some r"
proof (induction "length bytes - i" arbitrary: i binary rule: less_induct)
  case less
  show ?case
  proof (cases "i < length bytes")
    case True
    then have "length bytes - (i + chunkSize) < length bytes - i" using assms by linarith
    then obtain r where "binary_loop lim chunkSize bytes (i + chunkSize)
        (binary @ map ucast (slice i (i + chunkSize) bytes)) = Some r"
      using less by blast
    with True show ?thesis
      by (subst binary_loop.simps) (simp add: fromCharCode_def)
  next
    case False
    then show ?thesis by (subst binary_loop.simps) simp
  qed
qed

lemma bytesToBase64URL_returns:
  "0 < chunkSize \<Longrightarrow> \<exists>r. bytesToBase64URL lim bytes chunkSize = Some r"
  using binary_loop_returns [of chunkSize lim bytes 0 "[]"]
  by (auto simp: bytesToBase64URL_def bytesToBase64_def)

text \<open>A chunk size of zero would never advance the counter.\<close>

lemma binary_loop_zero:
  assumes "binary_loop lim chunkSize bytes i binary = Some r"
  shows "chunkSize = 0 \<longrightarrow> length bytes \<le> i"
proof (rule binary_loop.raw_induct
    [where P = "\<lambda>lim chunkSize bytes i binary r. chunkSize = 0 \<longrightarrow> length bytes \<le> i", OF _ assms])
  fix loop lim chunkSize bytes i binary r
  assume IH: "\<And>lim chunkSize bytes i binary r. loop lim chunkSize bytes i binary = Some r \<Longrightarrow>
      chunkSize = 0 \<longrightarrow> length bytes \<le> i"
    and eq: "(if i < length bytes then
        (case fromCharCode lim (slice i (i + chunkSize) bytes) of
           Inl e \<Rightarrow> Some (Inl e)
         | Inr piece \<Rightarrow> loop lim chunkSize bytes (i + chunkSize) (binary @ piece))
      else Some (Inr binary)) = Some r"
  show "chunkSize = 0 \<longrightarrow> length bytes \<le> i"
  proof (intro impI)
    assume "chunkSize = 0"
    with eq IH [of lim 0 bytes i binary r] show "length bytes \<le> i"
      by (auto simp: fromCharCode_def slice_def split: if_splits)
  qed
qed

lemma bytesToBase64_zero_diverges: "bytes \<noteq> [] \<Longrightarrow> bytesToBase64 lim bytes 0 = None"
  using binary_loop_zero [of lim 0 bytes 0 "[]"]
  by (cases "binary_loop lim 0 bytes 0 []") (auto simp: bytesToBase64_def)

subsection \<open>Encoding and decoding\<close>

lemma dropWhile_absent: "x \<notin> set t \<Longrightarrow> dropWhile (\<lambda>u. u = x) t = t"
  by (cases t) auto

lemma strip_padding_replicate:
  "pad_unit \<notin> set s \<Longrightarrow> strip_padding (s @ replicate n pad_unit) = s"
proof -
  assume s: "pad_unit \<notin> set s"
  have "dropWhile (\<lambda>u. u = pad_unit) (replicate n pad_unit @ rev s) =
      dropWhile (\<lambda>u. u = pad_unit) (rev s)"
    by (induction n) simp_all
  also have "\<dots> = rev s"
    using s by (simp add: dropWhile_absent)
  finally show ?thesis by (simp add: strip_padding_def)
qed

lemma replace_pad [simp]: "replace_unit x y (replicate n pad_unit) =
    replicate n (if pad_unit = x then y else pad_unit)"
  by (simp add: replace_unit_def map_replicate)

lemma replace_append [simp]: "replace_unit x y (s @ t) = replace_unit x y s @ replace_unit x y t"
  by (simp add: replace_unit_def)

lemma url_char_replace:
  "replace_unit 47 95 (replace_unit 43 45 (map b64_char ns)) = map url_char ns"
  by (simp add: replace_unit_def url_char_def Let_def)

lemma url_char_normalized:
  "replace_unit 95 47 (replace_unit 45 43 (map url_char ns)) = map b64_char ns"
  by (simp add: replace_unit_def url_char_def Let_def)

lemma pad_unit_neq [simp]: "pad_unit \<noteq> 43" "pad_unit \<noteq> 47" "pad_unit \<noteq> 45" "pad_unit \<noteq> 95"
  by (simp_all add: pad_unit_def)

lemma url_char_not_pad [simp]: "url_char n \<noteq> pad_unit" "pad_unit \<noteq> url_char n"
proof -
  show "url_char n \<noteq> pad_unit"
    by (simp add: url_char_def Let_def pad_unit_neq [symmetric] del: pad_unit_neq)
  then show "pad_unit \<noteq> url_char n" by (rule not_sym)
qed

lemma bytesToBase64URL_result:
  assumes "0 < chunkSize" and "chunkSize \<le> lim"
  shows "bytesToBase64URL lim bytes chunkSize = Some (Inr (b64url bytes))"
proof -
  have "strip_padding (map url_char (sextets bytes) @ replicate (pad_count (length bytes)) pad_unit) =
      map url_char (sextets bytes)"
    by (rule strip_padding_replicate) auto
  then show ?thesis
    by (simp add: bytesToBase64URL_def bytesToBase64_result [OF assms] b64_encode_sextets
        padding_count url_char_replace b64url_def)
qed

text \<open>
  Decoding restores the padding. It accepts any sextets, so the bits of the last character that
  fill no byte are free: the text of a byte string is not unique.
\<close>

lemma base64ToBytes_sextets:
  assumes "list_all (\<lambda>n. n < 64) ns" and "length ns mod 4 \<noteq> 1"
  shows "base64ToBytes (map url_char ns) = Inr (b64_bytes ns)"
proof -
  define k where "k = (if length ns mod 4 = 0 then 0 else 4 - length ns mod 4)"
  have k: "k \<le> 2" "(length ns + k) mod 4 = 0"
    unfolding k_def using assms(2) by presburger+
  have "base64ToBytes (map url_char ns) =
      bindR (atob (map b64_char ns @ replicate k pad_unit)) (\<lambda>binary. Inr (map ucast binary))"
    unfolding base64ToBytes_def Let_def url_char_normalized k_def by simp
  with atob_sextets [OF assms(1) k] show ?thesis
    by (simp add: o_def)
qed

lemma length_sextets_mod: "length (sextets bs) mod 4 \<noteq> 1"
  by (induction bs rule: sextets.induct) simp_all

lemma base64ToBytes_b64url: "base64ToBytes (b64url bs) = Inr bs"
  unfolding b64url_def base64ToBytes_sextets [OF sextets_all length_sextets_mod]
  by (simp add: b64_bytes_sextets)

text \<open>The standard encoding, padding included, is accepted too: this is what a PEM body holds.\<close>

lemma base64ToBytes_b64_encode: "base64ToBytes (b64_encode bs) = Inr bs"
proof -
  have "replace_unit 95 47 (replace_unit 45 43 (b64_encode bs)) = b64_encode bs"
    by (auto simp: b64_encode_sextets padding_def intro!: replace_unit_id)
       (simp add: replace_unit_def)
  moreover have "length (b64_encode bs) mod 4 = 0"
    using sextets_pad_mod [of bs] by (simp add: b64_encode_sextets padding_count)
  ultimately show ?thesis
    by (simp add: base64ToBytes_def Let_def atob_b64_encode o_def)
qed

lemma base64url_unit_value: "b64_value u = Some v \<Longrightarrow> u \<noteq> 43 \<Longrightarrow> u \<noteq> 47 \<Longrightarrow> is_base64url_unit u"
  by (auto simp: b64_value_def is_base64url_unit_def Let_def word_unat_eq_iff split: if_splits)

lemma url_char_unit [simp]: "is_base64url_unit (url_char n)"
  using base64url_unit_value [OF b64_value_char_mod [of n]]
  by (simp add: url_char_def Let_def is_base64url_unit_def)

lemma sextets_eq_Nil [simp]: "sextets bs = [] \<longleftrightarrow> bs = []"
  by (cases bs rule: sextets.cases) auto

lemma base64URLPattern_b64url [simp]: "base64URLPattern (b64url bs) \<longleftrightarrow> bs \<noteq> []"
  by (simp add: base64URLPattern_def b64url_def list_all_iff)

lemma base64URLToBytes_b64url: "bs \<noteq> [] \<Longrightarrow> base64URLToBytes (b64url bs) = Inr bs"
  by (simp add: base64URLToBytes_def base64ToBytes_b64url)

interpretation b64u: codec b64url base64URLToBytes "\<lambda>bs. bs \<noteq> []"
  by unfold_locales (rule base64URLToBytes_b64url)

lemma length_b64url: "length (b64url bs) = (4 * length bs + 2) div 3"
  by (simp add: b64url_def length_sextets)

section \<open>PEM blocks\<close>

definition begin_marker :: "jsstring \<Rightarrow> jsstring" where
  "begin_marker label = js ''-----BEGIN '' @ label @ js ''-----''"

definition end_marker :: "jsstring \<Rightarrow> jsstring" where
  "end_marker label = js ''-----END '' @ label @ js ''-----''"

text \<open>The two \<open>throw\<close>s and the result of \<open>pemToBytes\<close>; \<open>None\<close> is \<open>indexOf\<close>'s \<open>-1\<close>.\<close>

definition pemToBytes :: "jsstring \<Rightarrow> jsstring \<Rightarrow> bytes result" where
  "pemToBytes pem label =
     (case (index_of (begin_marker label) pem, index_of (end_marker label) pem) of
        (Some beginIndex, Some endIndex) \<Rightarrow>
          if endIndex \<le> beginIndex then Inl (JsError (js ''Missing '' @ label @ js '' PEM block.''))
          else
            (let body = remove_spaces
                   (slice (beginIndex + length (begin_marker label)) endIndex pem)
             in if body = [] then Inl (JsError (js ''Empty '' @ label @ js '' PEM block.''))
                else base64ToBytes body)
      | _ \<Rightarrow> Inl (JsError (js ''Missing '' @ label @ js '' PEM block.'')))"

section \<open>Web Crypto\<close>

text \<open>
  The operations of \<open>crypto.subtle\<close> the module calls, each of which may reject. \<open>'pub\<close>, \<open>'priv\<close>
  and \<open>'aes\<close> are the opaque key objects; the argument of \<open>generate_aes\<close> is the key drawn, the second one of
  \<open>rsa_encrypt\<close> the OAEP seed.
\<close>

record ('pub, 'priv, 'aes) webcrypto =
  generate_aes :: "'aes \<Rightarrow> 'aes result"
  import_spki :: "bytes \<Rightarrow> 'pub result"
  import_pkcs8 :: "bytes \<Rightarrow> 'priv result"
  rsa_encrypt :: "'pub \<Rightarrow> bytes \<Rightarrow> bytes \<Rightarrow> bytes result"
  rsa_decrypt :: "'priv \<Rightarrow> bytes \<Rightarrow> bytes result"
  export_raw :: "'aes \<Rightarrow> bytes result"
  import_raw :: "bytes \<Rightarrow> 'aes result"
  gcm_encrypt :: "'aes \<Rightarrow> bytes \<Rightarrow> bytes \<Rightarrow> bytes result"
  gcm_decrypt :: "'aes \<Rightarrow> bytes \<Rightarrow> bytes \<Rightarrow> bytes result"

text \<open>What \<open>generateKey\<close>, \<open>getRandomValues\<close> and the OAEP padding draw for one message.\<close>

record 'aes randomness =
  fresh_aes :: 'aes
  fresh_iv :: bytes
  oaep_seed :: bytes

record encrypted =
  wrapped :: jsstring
  iv :: jsstring
  ct :: jsstring

definition importRsaPublicKey :: "('pub, 'priv, 'aes) webcrypto \<Rightarrow> jsstring \<Rightarrow> 'pub result" where
  "importRsaPublicKey wc pem = bindR (pemToBytes pem (js ''PUBLIC KEY'')) (import_spki wc)"

definition importRsaPrivateKey :: "('pub, 'priv, 'aes) webcrypto \<Rightarrow> jsstring \<Rightarrow> 'priv result" where
  "importRsaPrivateKey wc pem = bindR (pemToBytes pem (js ''PRIVATE KEY'')) (import_pkcs8 wc)"

definition generateAesKey :: "('pub, 'priv, 'aes) webcrypto \<Rightarrow> 'aes randomness \<Rightarrow> 'aes result" where
  "generateAesKey wc rnd = generate_aes wc (fresh_aes rnd)"

text \<open>Sequencing of computations that may throw or not return.\<close>

definition bindO :: "'a result option \<Rightarrow> ('a \<Rightarrow> 'b result option) \<Rightarrow> 'b result option" where
  "bindO m f = (case m of None \<Rightarrow> None | Some (Inl e) \<Rightarrow> Some (Inl e) | Some (Inr a) \<Rightarrow> f a)"

lemma bindO_simps [simp, result_simps]:
  "bindO None f = None"
  "bindO (Some (Inl e)) f = Some (Inl e)"
  "bindO (Some (Inr a)) f = f a"
  by (simp_all add: bindO_def)

definition encryptMessage ::
  "nat \<Rightarrow> ('pub, 'priv, 'aes) webcrypto \<Rightarrow> 'aes randomness \<Rightarrow> jsstring \<Rightarrow> jsstring \<Rightarrow>
   encrypted result option"
where
  "encryptMessage lim wc rnd pubPem plaintext =
     bindO (Some (importRsaPublicKey wc pubPem)) (\<lambda>publicKey.
     bindO (Some (generateAesKey wc rnd)) (\<lambda>aesKey.
     (let iv = fresh_iv rnd;
          plaintextBytes = text_encode plaintext;
          chunkSize = chunkSizeForPlaintext (length plaintextBytes)
      in bindO (Some (gcm_encrypt wc aesKey iv plaintextBytes)) (\<lambda>ciphertext.
         bindO (Some (export_raw wc aesKey)) (\<lambda>rawKey.
         bindO (Some (rsa_encrypt wc publicKey (oaep_seed rnd) rawKey)) (\<lambda>wrapped.
         bindO (bytesToBase64URL lim wrapped chunkSize) (\<lambda>w.
         bindO (bytesToBase64URL lim iv chunkSize) (\<lambda>i.
         bindO (bytesToBase64URL lim ciphertext chunkSize) (\<lambda>c.
           Some (Inr \<lparr>wrapped = w, iv = i, ct = c\<rparr>))))))))))"

definition decryptMessage ::
  "('pub, 'priv, 'aes) webcrypto \<Rightarrow> jsstring \<Rightarrow> jsstring \<Rightarrow> jsstring \<Rightarrow> jsstring \<Rightarrow> jsstring result"
where
  "decryptMessage wc privPem wrappedText ivText ctText =
     bindR (importRsaPrivateKey wc privPem) (\<lambda>privateKey.
     bindR (base64URLToBytes wrappedText) (\<lambda>wrappedBytes.
     bindR (rsa_decrypt wc privateKey wrappedBytes) (\<lambda>rawKey.
     bindR (import_raw wc rawKey) (\<lambda>aesKey.
     bindR (base64URLToBytes ivText) (\<lambda>ivBytes.
     bindR (base64URLToBytes ctText) (\<lambda>ctBytes.
     bindR (gcm_decrypt wc aesKey ivBytes ctBytes) (\<lambda>plaintext.
       Inr (text_decode plaintext))))))))"

lemma bindO_returns:
  "m = Some r \<Longrightarrow> (\<And>a. \<exists>q. f a = Some q) \<Longrightarrow> \<exists>q. bindO m f = Some q"
  by (cases r) auto

text \<open>Whatever Web Crypto answers, \<open>encryptMessage\<close> settles.\<close>

lemma encryptMessage_settles: "\<exists>r. encryptMessage lim wc rnd pubPem plaintext = Some r"
proof -
  have chunk: "0 < chunkSizeForPlaintext n" for n
    using chunkSizeForPlaintext_bounds [of n] by linarith
  have ser: "\<exists>q. bindO (bytesToBase64URL lim bs (chunkSizeForPlaintext n)) f = Some q"
    if "\<And>a. \<exists>q. f a = Some q" for bs n and f :: "jsstring \<Rightarrow> encrypted result option"
    using bytesToBase64URL_returns [OF chunk] bindO_returns that by metis
  show ?thesis
    unfolding encryptMessage_def Let_def
    by (intro bindO_returns [OF refl] ser) blast
qed

subsection \<open>What the module relies on\<close>

text \<open>
  \<open>key_pair_ok\<close>: the two DER encodings import as a matching RSA pair with a 4096-bit modulus;
  RSA-OAEP with SHA-256 then encrypts up to 446 bytes into 512 and decrypts what it encrypted.
  \<open>aes_ok\<close>: an AES-256 key is generated, exports as 32 bytes and imports again, and GCM with a 12-byte
  IV appends a 16-byte tag and decrypts what it encrypted.
\<close>

definition key_pair_ok ::
  "('pub, 'priv, 'aes) webcrypto \<Rightarrow> bytes \<Rightarrow> bytes \<Rightarrow> bool"
where
  "key_pair_ok wc pubDer privDer \<longleftrightarrow>
     (\<exists>pub priv. import_spki wc pubDer = Inr pub \<and> import_pkcs8 wc privDer = Inr priv \<and>
        (\<forall>seed m. length m \<le> 446 \<longrightarrow>
           (\<exists>c. rsa_encrypt wc pub seed m = Inr c \<and> length c = 512 \<and> rsa_decrypt wc priv c = Inr m)))"

definition aes_ok :: "('pub, 'priv, 'aes) webcrypto \<Rightarrow> bool" where
  "aes_ok wc \<longleftrightarrow>
     (\<forall>key. generate_aes wc key = Inr key \<and> (\<exists>raw. export_raw wc key = Inr raw \<and> length raw = 32 \<and> import_raw wc raw = Inr key) \<and>
        (\<forall>iv p. length iv = 12 \<longrightarrow>
           (\<exists>c. gcm_encrypt wc key iv p = Inr c \<and> length c = length p + 16 \<and>
                gcm_decrypt wc key iv c = Inr p)))"

text \<open>The message as the recipient reads it.\<close>

definition received_text :: "jsstring \<Rightarrow> jsstring" where
  "received_text s = drop_bom (to_well_formed s) 0xFEFF"

lemma encrypt_decrypt:
  assumes keys: "key_pair_ok wc pubDer privDer" and aes: "aes_ok wc"
    and lim: "0x8000 \<le> lim" and iv12: "length (fresh_iv rnd) = 12"
    and pub: "pemToBytes pubPem (js ''PUBLIC KEY'') = Inr pubDer"
    and priv: "pemToBytes privPem (js ''PRIVATE KEY'') = Inr privDer"
  obtains w c where
    "encryptMessage lim wc rnd pubPem plaintext =
       Some (Inr \<lparr>wrapped = b64url w, iv = b64url (fresh_iv rnd), ct = b64url c\<rparr>)"
    and "length w = 512" and "length c = length (text_encode plaintext) + 16"
    and "decryptMessage wc privPem (b64url w) (b64url (fresh_iv rnd)) (b64url c) =
       Inr (received_text plaintext)"
proof -
  let ?p = "text_encode plaintext" and ?key = "fresh_aes rnd"
  from keys obtain publicKey privateKey where
    pubKey: "import_spki wc pubDer = Inr publicKey" and
    privKey: "import_pkcs8 wc privDer = Inr privateKey" and
    rsa: "\<And>m. length m \<le> 446 \<Longrightarrow> \<exists>c. rsa_encrypt wc publicKey (oaep_seed rnd) m = Inr c \<and>
      length c = 512 \<and> rsa_decrypt wc privateKey c = Inr m"
    unfolding key_pair_ok_def by blast
  from aes obtain raw c where
    gen: "generate_aes wc ?key = Inr ?key" and raw: "export_raw wc ?key = Inr raw" "length raw = 32" "import_raw wc raw = Inr ?key" and
    gcm: "gcm_encrypt wc ?key (fresh_iv rnd) ?p = Inr c" "length c = length ?p + 16"
      "gcm_decrypt wc ?key (fresh_iv rnd) c = Inr ?p"
    using iv12 unfolding aes_ok_def by meson
  obtain w where w: "rsa_encrypt wc publicKey (oaep_seed rnd) raw = Inr w" "length w = 512"
      "rsa_decrypt wc privateKey w = Inr raw"
    using rsa [of raw] raw(2) by auto
  have chunk: "0 < chunkSizeForPlaintext n" "chunkSizeForPlaintext n \<le> lim" for n
    using chunkSizeForPlaintext_bounds [of n] lim by linarith+
  have nonempty: "w \<noteq> []" "fresh_iv rnd \<noteq> []" "c \<noteq> []"
    using w(2) iv12 gcm(2) by auto
  show thesis
  proof (rule that)
    show "encryptMessage lim wc rnd pubPem plaintext =
       Some (Inr \<lparr>wrapped = b64url w, iv = b64url (fresh_iv rnd), ct = b64url c\<rparr>)"
      by (simp add: encryptMessage_def importRsaPublicKey_def generateAesKey_def Let_def pub pubKey
          gen gcm raw w bytesToBase64URL_result chunk)
    show "length w = 512" "length c = length ?p + 16" by (fact w(2), fact gcm(2))
    show "decryptMessage wc privPem (b64url w) (b64url (fresh_iv rnd)) (b64url c) =
       Inr (received_text plaintext)"
      using nonempty
      by (simp add: decryptMessage_def importRsaPrivateKey_def priv privKey base64URLToBytes_b64url
          w raw gcm text_decode_encode received_text_def)
  qed
qed

text \<open>
  The two contracts can be met: keys with one value, a ciphertext that is the length and the padded
  message (RSA), and a tag of zeros (GCM). This instance hides nothing; it shows consistency only.
\<close>

definition plain_crypto :: "(unit, unit, unit) webcrypto" where
  "plain_crypto =
     \<lparr>generate_aes = Inr, import_spki = (\<lambda>_. Inr ()), import_pkcs8 = (\<lambda>_. Inr ()),
      rsa_encrypt = (\<lambda>_ seed m. Inr (of_nat (length m mod 256) # of_nat (length m div 256) #
        m @ replicate (510 - length m) 0)),
      rsa_decrypt = (\<lambda>_ c. Inr (take (unat (c ! 0) + 256 * unat (c ! 1)) (drop 2 c))),
      export_raw = (\<lambda>_. Inr (replicate 32 0)), import_raw = (\<lambda>_. Inr ()),
      gcm_encrypt = (\<lambda>_ iv p. Inr (p @ replicate 16 0)),
      gcm_decrypt = (\<lambda>_ iv c. Inr (take (length c - 16) c))\<rparr>"

lemma plain_crypto_ok: "key_pair_ok plain_crypto pubDer privDer" "aes_ok plain_crypto"
proof -
  have "unat (of_nat (n mod 256) :: 8 word) + 256 * unat (of_nat (n div 256) :: 8 word) = n"
    if "n \<le> 446" for n
  proof -
    have "n mod 256 < 256" "n div 256 < 256" using that by simp_all
    then show ?thesis by (simp add: unat_of_nat take_bit_nat_eq_self)
  qed
  then show "key_pair_ok plain_crypto pubDer privDer"
    by (simp add: key_pair_ok_def plain_crypto_def)
  show "aes_ok plain_crypto"
    by (simp add: aes_ok_def plain_crypto_def)
qed

section \<open>Properties\<close>

text \<open>C26: \<open>bytesToBase64URL\<close> computes the same text for every chunk size between 1 and the engine's argument
  limit: the unpadded Base64URL encoding, which \<open>base64URLToBytes\<close> decodes to the bytes again.\<close>
theorem serialise_any_chunk:
  assumes "0 < chunkSize" and "chunkSize \<le> lim" and "bs \<noteq> []"
  shows "bytesToBase64URL lim bs chunkSize = Some (Inr (b64url bs)) \<and> base64URLToBytes (b64url bs) = Inr bs"
  using bytesToBase64URL_result [OF assms(1,2)] base64URLToBytes_b64url [OF assms(3)] by blast

theorem serialise_any_chunk_witness:
  "bytesToBase64URL 2 [255, 255, 1] 2 = Some (Inr (b64url [255, 255, 1])) \<and>
   base64URLToBytes (b64url [255, 255, 1]) = Inr [255, 255, 1]"
  by (rule serialise_any_chunk) simp_all

text \<open>The edges of the chunk size: a chunk larger than the engine's limit, on data that fills it, throws
  a \<open>RangeError\<close>, and a chunk size of zero never returns.\<close>
theorem serialise_bad_chunk:
  assumes "bs \<noteq> []"
  shows "(lim < chunkSize \<and> lim < length bs \<longrightarrow> bytesToBase64URL lim bs chunkSize = Some (Inl RangeError)) \<and>
     bytesToBase64URL lim bs 0 = None"
proof (intro conjI impI)
  have "bytesToBase64 lim bs 0 = None" by (rule bytesToBase64_zero_diverges [OF assms])
  then show "bytesToBase64URL lim bs 0 = None" by (simp add: bytesToBase64URL_def)
  assume "lim < chunkSize \<and> lim < length bs"
  then have "fromCharCode lim (slice 0 (0 + chunkSize) bs) = Inl RangeError" "0 < length bs"
    by (auto simp: fromCharCode_def slice_def)
  then have "binary_loop lim chunkSize bs 0 [] = Some (Inl RangeError)"
    by (subst binary_loop.simps) simp
  then show "bytesToBase64URL lim bs chunkSize = Some (Inl RangeError)"
    by (simp add: bytesToBase64URL_def bytesToBase64_def)
qed

theorem serialise_bad_chunk_witness:
  "bytesToBase64URL 2 [1, 2, 3] 3 = Some (Inl RangeError) \<and> bytesToBase64URL 2 [1, 2, 3] 0 = None"
  using serialise_bad_chunk [where bs = "[1, 2, 3]" and lim = 2 and chunkSize = 3] by simp

text \<open>C29: \<open>encryptMessage\<close> always settles: whatever key text it gets and whatever Web Crypto answers, it
  returns or throws, for messages of any length.\<close>
theorem encryptMessage_returns:
  "\<exists>r. encryptMessage lim wc rnd pubPem plaintext = Some r"
  by (rule encryptMessage_settles)

lemma sextets_last:
  "length bs mod 3 = 1 \<Longrightarrow> k < 16 \<Longrightarrow>
   \<exists>ns a. sextets bs = ns @ [a, last (sextets bs)] \<and>
     last (sextets bs) + k < 64 \<and> b64_bytes (ns @ [a, last (sextets bs) + k]) = bs"
proof (induction bs rule: sextets.induct)
  case (2 b)
  have "(unat b mod 4 * 16 + k) div 16 = unat b mod 4" using 2(2) by simp
  moreover have "unat b div 4 * 4 + unat b mod 4 = unat b" by simp
  moreover have "unat b mod 4 * 16 + k < 64" using 2(2) by simp
  ultimately show ?case
    by (intro exI [of _ "[]"] exI [of _ "unat b div 4"]) (simp del: div_mult_mod_eq)
next
  case (4 a b c rest)
  then obtain ns x where IH: "sextets rest = ns @ [x, last (sextets rest)]"
    "last (sextets rest) + k < 64" "b64_bytes (ns @ [x, last (sextets rest) + k]) = rest"
    by auto
  have ne: "sextets rest \<noteq> []" using IH(1) by auto
  have first: "b64_bytes (take 4 (sextets (a # b # c # rest)) @ zs) = a # b # c # b64_bytes zs" for zs
    using b64_bytes_sextets [of "[a, b, c]"] by simp
  have "sextets (a # b # c # rest) = (take 4 (sextets (a # b # c # rest)) @ ns) @ [x, last (sextets rest)]"
    using IH(1) by simp
  moreover have "last (sextets (a # b # c # rest)) = last (sextets rest)" using ne by simp
  moreover have "b64_bytes ((take 4 (sextets (a # b # c # rest)) @ ns) @ [x, last (sextets rest) + k]) =
      a # b # c # rest"
    using first [of "ns @ [x, last (sextets rest) + k]"] IH(3) by simp
  ultimately show ?case using IH(2) by metis
qed simp_all

text \<open>The text of a byte string is not unique. When the length is 1 more than a multiple of 3, the last
  character carries only two bits: changing it by anything below 16 gives a text that decodes to the same
  bytes, so changing the last character of a ciphertext need not change the ciphertext.\<close>
theorem base64url_malleable:
  assumes "length bs mod 3 = 1" and "k < 16"
  shows "base64URLToBytes (butlast (b64url bs) @ [url_char (last (sextets bs) + k)]) = Inr bs"
proof -
  obtain ns a where s: "sextets bs = ns @ [a, last (sextets bs)]" "last (sextets bs) + k < 64"
    "b64_bytes (ns @ [a, last (sextets bs) + k]) = bs"
    using sextets_last [OF assms] by blast
  let ?l = "last (sextets bs)"
  have edited: "butlast (b64url bs) @ [url_char (?l + k)] = map url_char (ns @ [a, ?l + k])"
    unfolding b64url_def by (subst s(1)) (simp add: butlast_append)
  have "list_all (\<lambda>n. n < 64) (ns @ [a, ?l])" and "length (ns @ [a, ?l]) mod 4 \<noteq> 1"
    using sextets_all [of bs] length_sextets_mod [of bs] unfolding s(1) [symmetric] by blast+
  with s(2) have "list_all (\<lambda>n. n < 64) (ns @ [a, ?l + k])" "length (ns @ [a, ?l + k]) mod 4 \<noteq> 1"
    by simp_all
  then have "base64ToBytes (map url_char (ns @ [a, ?l + k])) = Inr bs"
    using base64ToBytes_sextets [of "ns @ [a, ?l + k]"] s(3) by (simp only: not_False_eq_True)
  then show ?thesis
    unfolding edited by (simp add: base64URLToBytes_def base64URLPattern_def list_all_iff)
qed

theorem base64url_malleable_witness:
  "base64URLToBytes (butlast (b64url [7]) @ [url_char (last (sextets [7]) + 1)]) = Inr [7]"
  by (rule base64url_malleable) simp_all

end
