(* ===== verification/LinkJs.thy ===== *)
theory LinkJs
  imports CryptoJs
begin

text \<open>
  \<open>static/link.js\<close>, the share-link format, over the platform's URL functions: \<open>encodeURIComponent\<close>,
  \<open>URLSearchParams\<close> (its serializer and parser, as the URL standard defines
  \<open>application/x-www-form-urlencoded\<close>) and the parts of a URL. \<open>window.location.origin\<close> is an
  argument. URLs are taken in the serialized form in which the page has them (\<open>location.href\<close>,
  or a link built by \<open>buildShareURL\<close>): an http or https scheme, a host, a path, an optional query
  and fragment, no credentials.
\<close>

section \<open>Percent-encoding\<close>

definition is_alnum :: "nat \<Rightarrow> bool" where
  "is_alnum x \<longleftrightarrow> (65 \<le> x \<and> x \<le> 90) \<or> (97 \<le> x \<and> x \<le> 122) \<or> (48 \<le> x \<and> x \<le> 57)"

definition hex_digit :: "nat \<Rightarrow> code_unit" where
  "hex_digit n = of_nat (if n < 10 then 48 + n else 55 + n)"

definition percent_byte :: "8 word \<Rightarrow> jsstring" where
  "percent_byte b = [37, hex_digit (unat b div 16), hex_digit (unat b mod 16)]"

text \<open>\<open>encodeURIComponent\<close>: everything but \<open>A-Za-z0-9-_.!~*'()\<close> as the bytes of its UTF-8 form.\<close>

definition uri_unreserved :: "nat \<Rightarrow> bool" where
  "uri_unreserved x \<longleftrightarrow> is_alnum x \<or> x \<in> {45, 95, 46, 33, 126, 42, 39, 40, 41}"

definition encodeURIComponent :: "jsstring \<Rightarrow> jsstring result" where
  "encodeURIComponent s =
     (if well_formed s then
        Inr (concat (map (\<lambda>c. if uri_unreserved c then [of_nat c]
                              else concat (map percent_byte (utf8_cp c))) (code_points s)))
      else Inl URIError)"

text \<open>The serializer of \<open>URLSearchParams\<close>.\<close>

definition form_byte :: "8 word \<Rightarrow> jsstring" where
  "form_byte b =
     (let x = unat b in
      if is_alnum x \<or> x \<in> {42, 45, 46, 95} then [ucast b]
      else if x = 32 then [43]
      else percent_byte b)"

definition form_encode :: "jsstring \<Rightarrow> jsstring" where
  "form_encode s = concat (map form_byte (text_encode s))"

fun params_to_string :: "(jsstring \<times> jsstring) list \<Rightarrow> jsstring" where
  "params_to_string [] = []"
| "params_to_string [(n, v)] = form_encode n @ [61] @ form_encode v"
| "params_to_string ((n, v) # p # ps) =
     form_encode n @ [61] @ form_encode v @ [38] @ params_to_string (p # ps)"

text \<open>The parser of \<open>URLSearchParams\<close>, on the UTF-8 bytes of its argument.\<close>

fun split_on :: "'a \<Rightarrow> 'a list \<Rightarrow> 'a list list" where
  "split_on d [] = [[]]"
| "split_on d (x # xs) =
     (if x = d then [] # split_on d xs
      else (case split_on d xs of [] \<Rightarrow> [[x]] | g # gs \<Rightarrow> (x # g) # gs))"

definition hex_value :: "8 word \<Rightarrow> nat option" where
  "hex_value b =
     (let x = unat b in
      if 48 \<le> x \<and> x \<le> 57 then Some (x - 48)
      else if 65 \<le> x \<and> x \<le> 70 then Some (x - 55)
      else if 97 \<le> x \<and> x \<le> 102 then Some (x - 87)
      else None)"

fun percent_decode :: "bytes \<Rightarrow> bytes" where
  "percent_decode (b # x # y # rest) =
     (if b = 37 \<and> hex_value x \<noteq> None \<and> hex_value y \<noteq> None
      then of_nat (16 * the (hex_value x) + the (hex_value y)) # percent_decode rest
      else b # percent_decode (x # y # rest))"
| "percent_decode bs = bs"

definition form_decode :: "bytes \<Rightarrow> jsstring" where
  "form_decode bs = utf8_decode_no_bom (percent_decode (map (\<lambda>b. if b = 43 then 32 else b) bs))"

definition params_of_string :: "jsstring \<Rightarrow> (jsstring \<times> jsstring) list" where
  "params_of_string s =
     (let s' = (case s of [] \<Rightarrow> [] | u # rest \<Rightarrow> if u = 63 then rest else s);
          sequences = filter (\<lambda>q. q \<noteq> []) (split_on 38 (text_encode s'))
      in map (\<lambda>q. let name = takeWhile (\<lambda>b. b \<noteq> 61) q
                  in (form_decode name, form_decode (drop (Suc (length name)) q))) sequences)"

text \<open>\<open>params.get(name)\<close>: the first pair of that name, \<open>None\<close> for \<open>null\<close>.\<close>

definition params_get :: "(jsstring \<times> jsstring) list \<Rightarrow> jsstring \<Rightarrow> jsstring option" where
  "params_get ps name = map_of ps name"

section \<open>The link\<close>

definition qrCapacity :: nat where "qrCapacity = 2331"
definition idLength :: nat where "idLength = 32"
definition wrappedKeyLength :: nat where "wrappedKeyLength = 683"
definition ivLength :: nat where "ivLength = 16"
definition gcmTagBytes :: nat where "gcmTagBytes = 16"

text \<open>\<open>Math.ceil((bytes * 4) / 3)\<close>.\<close>

definition base64URLLength :: "nat \<Rightarrow> nat" where
  "base64URLLength bytes = (bytes * 4 + 2) div 3"

definition buildShareURL :: "jsstring \<Rightarrow> jsstring \<Rightarrow> encrypted \<Rightarrow> jsstring result" where
  "buildShareURL origin keyId enc =
     (let fragment = params_to_string
            [(js ''v'', js ''1''), (js ''w'', wrapped enc), (js ''i'', iv enc), (js ''c'', ct enc)]
      in bindR (encodeURIComponent keyId)
           (\<lambda>eid. Inr (origin @ js ''/share/'' @ eid @ js ''#'' @ fragment)))"

definition estimateLinkLength :: "jsstring \<Rightarrow> nat \<Rightarrow> nat" where
  "estimateLinkLength origin plaintextBytes =
     length (origin @ js ''/share/'') + idLength
     + length (js ''#v=1&w='') + wrappedKeyLength
     + length (js ''&i='') + ivLength
     + length (js ''&c='') + base64URLLength (plaintextBytes + gcmTagBytes)"

record url =
  url_origin :: jsstring
  url_pathname :: jsstring
  url_search :: jsstring
  url_hash :: jsstring

text \<open>
  \<open>new URL(href)\<close> on a serialized http(s) URL: each part runs up to the next delimiter, and an
  empty query or fragment reads as the empty string.
\<close>

definition parse_authority :: "jsstring \<Rightarrow> jsstring \<Rightarrow> url" where
  "parse_authority scheme rest =
     (let host = takeWhile (\<lambda>u. u \<notin> {47, 63, 35}) rest;
          r1 = drop (length host) rest;
          path = takeWhile (\<lambda>u. u \<notin> {63, 35}) r1;
          r2 = drop (length path) r1;
          query = (if r2 \<noteq> [] \<and> hd r2 = 63 then takeWhile (\<lambda>u. u \<noteq> 35) r2 else []);
          fragment = drop (length query) r2
      in \<lparr>url_origin = scheme @ host, url_pathname = path,
          url_search = (if length query \<le> 1 then [] else query),
          url_hash = (if length fragment \<le> 1 then [] else fragment)\<rparr>)"

definition parse_url :: "jsstring \<Rightarrow> url result" where
  "parse_url href =
     (if prefix (js ''https://'') href then Inr (parse_authority (js ''https://'') (drop 8 href))
      else if prefix (js ''http://'') href then Inr (parse_authority (js ''http://'') (drop 7 href))
      else Inl TypeError)"

record split_link =
  sent :: jsstring
  kept :: jsstring

definition splitShareURL :: "jsstring \<Rightarrow> split_link result" where
  "splitShareURL href =
     bindR (parse_url href)
       (\<lambda>u. Inr \<lparr>sent = url_origin u @ url_pathname u, kept = url_hash u\<rparr>)"

text \<open>
  \<open>parseFragment\<close>: the leading \<open>#\<close>, the version, the three values, and the loop that tests each
  value, in its order.
\<close>

definition missing_fragment :: js_error where
  "missing_fragment = JsError (js ''This share link is missing its encrypted fragment. Ask the sender for the complete link.'')"

definition unsupported_version :: js_error where
  "unsupported_version = JsError (js ''This share link uses an unsupported fragment version.'')"

definition missing_data :: js_error where
  "missing_data = JsError (js ''This share link is missing encrypted data. Ask the sender for the complete link.'')"

definition malformed :: "jsstring \<Rightarrow> js_error" where
  "malformed name = JsError (js ''The '' @ name @ js '' in this share link is malformed.'')"

fun check_patterns :: "(jsstring \<times> jsstring) list \<Rightarrow> unit result" where
  "check_patterns [] = Inr ()"
| "check_patterns ((name, value) # rest) =
     (if \<not> base64URLPattern value then Inl (malformed name) else check_patterns rest)"

text \<open>\<open>!value\<close>: \<open>null\<close> and the empty string.\<close>

definition falsy :: "jsstring option \<Rightarrow> bool" where
  "falsy v \<longleftrightarrow> v = None \<or> v = Some []"

definition parseFragment :: "jsstring \<Rightarrow> encrypted result" where
  "parseFragment hash =
     (let raw = (if prefix (js ''#'') hash then drop 1 hash else hash) in
      if raw = [] then Inl missing_fragment
      else
        (let params = params_of_string raw in
         if params_get params (js ''v'') \<noteq> Some (js ''1'') then Inl unsupported_version
         else
           (let w = params_get params (js ''w'');
                i = params_get params (js ''i'');
                c = params_get params (js ''c'')
            in if falsy w \<or> falsy i \<or> falsy c then Inl missing_data
               else bindR (check_patterns [(js ''wrapped key'', the w), (js ''IV'', the i),
                                           (js ''ciphertext'', the c)])
                 (\<lambda>_. Inr \<lparr>wrapped = the w, iv = the i, ct = the c\<rparr>))))"

section \<open>Base64URL text needs no escaping\<close>

lemma base64url_unit_ascii: "is_base64url_unit u \<Longrightarrow> unat u < 128"
  by (auto simp: is_base64url_unit_def Let_def)

lemma base64url_ascii: "list_all is_base64url_unit s \<Longrightarrow> ascii s"
  by (induction s) (auto simp: base64url_unit_ascii)

lemma unat_ucast_low: "unat (u :: code_unit) < 128 \<Longrightarrow> unat (ucast u :: 8 word) = unat u"
  by (simp add: unsigned_ucast_eq take_bit_nat_eq_self)

lemma ucast_ucast_low: "unat (u :: code_unit) < 128 \<Longrightarrow> ucast (ucast u :: 8 word) = u"
  by (simp add: word_unat_eq_iff unat_ucast_low)

lemma form_byte_base64url: "is_base64url_unit u \<Longrightarrow> form_byte (ucast u) = [u]"
  using base64url_unit_ascii [of u]
  by (auto simp: form_byte_def is_alnum_def is_base64url_unit_def Let_def unat_ucast_low ucast_ucast_low)

lemma form_encode_base64url: "list_all is_base64url_unit s \<Longrightarrow> form_encode s = s"
proof -
  assume s: "list_all is_base64url_unit s"
  then have "concat (map form_byte (map ucast s)) = s"
    by (induction s) (auto simp: form_byte_base64url)
  with s show ?thesis
    by (simp add: form_encode_def text_encode_ascii base64url_ascii)
qed

text \<open>The bytes of such text contain no delimiter of the query syntax.\<close>

lemma base64url_byte_not:
  assumes "is_base64url_unit u"
  shows "(ucast u :: 8 word) \<noteq> 37" "(ucast u :: 8 word) \<noteq> 38" "(ucast u :: 8 word) \<noteq> 43"
    "(ucast u :: 8 word) \<noteq> 61"
proof -
  have u: "unat (ucast u :: 8 word) = unat u"
    by (rule unat_ucast_low [OF base64url_unit_ascii [OF assms]])
  have "unat u \<noteq> 37" "unat u \<noteq> 38" "unat u \<noteq> 43" "unat u \<noteq> 61"
    using assms by (auto simp: is_base64url_unit_def Let_def)
  then show "(ucast u :: 8 word) \<noteq> 37" "(ucast u :: 8 word) \<noteq> 38" "(ucast u :: 8 word) \<noteq> 43"
    "(ucast u :: 8 word) \<noteq> 61"
    by (auto simp: word_unat_eq_iff u)
qed

lemma split_on_none: "d \<notin> set xs \<Longrightarrow> split_on d xs = [xs]"
  by (induction xs) auto

lemma split_on_append: "d \<notin> set xs \<Longrightarrow> split_on d (xs @ d # ys) = xs # split_on d ys"
  by (induction xs) auto

lemma percent_decode_id: "37 \<notin> set bs \<Longrightarrow> percent_decode bs = bs"
  by (induction bs rule: percent_decode.induct) auto

definition safe :: "jsstring \<Rightarrow> bool" where
  "safe s \<longleftrightarrow> list_all is_base64url_unit s"

lemma safe_bytes:
  assumes "safe s" and "b \<in> set (map ucast s :: bytes)"
  shows "b \<noteq> 37" "b \<noteq> 38" "b \<noteq> 43" "b \<noteq> 61"
  using assms base64url_byte_not unfolding safe_def list_all_iff by auto

lemma form_decode_safe:
  assumes "safe s"
  shows "form_decode (map ucast s) = s"
proof -
  have "map (\<lambda>b. if b = 43 then 32 else b) (map ucast s) = (map ucast s :: bytes)"
    using safe_bytes [OF assms] by (intro map_idI) auto
  moreover have "percent_decode (map ucast s) = map ucast s"
    using safe_bytes [OF assms] by (intro percent_decode_id) blast
  moreover have "utf8_decode_no_bom (map ucast s) = s"
    using assms unfolding safe_def by (intro utf8_decode_ascii base64url_ascii)
  ultimately show ?thesis unfolding form_decode_def by (simp only:)
qed

lemma form_encode_safe: "safe s \<Longrightarrow> form_encode s = s"
  by (simp add: form_encode_base64url safe_def)

lemma safe_ascii: "safe s \<Longrightarrow> ascii s"
  by (simp add: base64url_ascii safe_def)

definition safe_pairs :: "(jsstring \<times> jsstring) list \<Rightarrow> bool" where
  "safe_pairs ps \<longleftrightarrow> list_all (\<lambda>(n, v). safe n \<and> safe v) ps"

lemma params_to_string_ascii: "safe_pairs ps \<Longrightarrow> ascii (params_to_string ps)"
  by (induction ps rule: params_to_string.induct)
     (simp_all add: safe_pairs_def form_encode_safe safe_ascii)

definition pair_bytes :: "jsstring \<times> jsstring \<Rightarrow> bytes" where
  "pair_bytes p = map ucast (fst p) @ 61 # map ucast (snd p)"

lemma pair_bytes_no_amp: "safe n \<Longrightarrow> safe v \<Longrightarrow> 38 \<notin> set (pair_bytes (n, v))"
  using safe_bytes unfolding pair_bytes_def by auto

lemma split_params:
  "safe_pairs ps \<Longrightarrow> ps \<noteq> [] \<Longrightarrow>
   split_on 38 (map ucast (params_to_string ps)) = map pair_bytes ps"
proof (induction ps rule: params_to_string.induct)
  case (2 n v)
  then have "safe n" "safe v" by (simp_all add: safe_pairs_def)
  then show ?case
    using split_on_none [OF pair_bytes_no_amp [of n v]]
    by (simp add: form_encode_safe pair_bytes_def)
next
  case (3 n v p ps)
  then have nv: "safe n" "safe v" and rest: "safe_pairs (p # ps)" by (simp_all add: safe_pairs_def)
  have bytes: "map ucast (params_to_string ((n, v) # p # ps)) =
      pair_bytes (n, v) @ 38 # map ucast (params_to_string (p # ps))"
    using nv by (simp add: form_encode_safe pair_bytes_def)
  have "split_on 38 (map ucast (params_to_string (p # ps))) = map pair_bytes (p # ps)"
    by (rule "3.IH" [OF rest]) simp
  then show ?case
    unfolding bytes by (simp only: split_on_append [OF pair_bytes_no_amp [OF nv]] list.map)
qed simp

lemma pair_bytes_parts:
  assumes "safe n" and "safe v"
  shows "takeWhile (\<lambda>b. b \<noteq> 61) (pair_bytes (n, v)) = map ucast n"
    and "drop (Suc (length n)) (pair_bytes (n, v)) = map ucast v"
proof -
  have "takeWhile (\<lambda>b. b \<noteq> 61) (map ucast n @ 61 # map ucast v) = (map ucast n :: bytes)"
    using safe_bytes(4) [OF assms(1)] by (subst takeWhile_append2) auto
  then show "takeWhile (\<lambda>b. b \<noteq> 61) (pair_bytes (n, v)) = map ucast n"
    by (simp add: pair_bytes_def)
qed (simp add: pair_bytes_def)

lemma question_not_safe: "safe (u # s) \<Longrightarrow> u \<noteq> 63"
  by (auto simp: safe_def is_base64url_unit_def Let_def)

text \<open>Parsing undoes serializing on names and values in the Base64URL alphabet.\<close>

lemma params_round_trip:
  assumes safe: "safe_pairs ps" and name: "ps = (u # n, v) # rest"
  shows "params_of_string (params_to_string ps) = ps"
proof -
  have "safe (u # n)" using safe name by (simp add: safe_pairs_def)
  then have "u \<noteq> 63" and "form_encode (u # n) = u # n"
    using question_not_safe form_encode_safe by blast+
  then have no_mark: "(case params_to_string ps of [] \<Rightarrow> [] | u # rest \<Rightarrow>
      if u = 63 then rest else params_to_string ps) = params_to_string ps"
    using name by (cases rest) (auto simp: split: list.split)
  have "map (\<lambda>q. let name = takeWhile (\<lambda>b. b \<noteq> 61) q
                  in (form_decode name, form_decode (drop (Suc (length name)) q))) (map pair_bytes ps) = ps"
    using safe unfolding map_map
    by (intro map_idI) (auto simp: safe_pairs_def list_all_iff pair_bytes_parts form_decode_safe Let_def)
  moreover have "filter (\<lambda>q. q \<noteq> []) (map pair_bytes ps) = map pair_bytes ps"
    by (auto simp: pair_bytes_def intro!: filter_True)
  ultimately show ?thesis
    unfolding params_of_string_def no_mark Let_def
    using split_params [OF safe] name text_encode_ascii [OF params_to_string_ascii [OF safe]]
    by (simp add: Let_def)
qed

section \<open>Links are read back\<close>

text \<open>The three values of a link: nonempty and in the Base64URL alphabet.\<close>

definition link_values :: "encrypted \<Rightarrow> bool" where
  "link_values e \<longleftrightarrow> base64URLPattern (wrapped e) \<and> base64URLPattern (iv e) \<and> base64URLPattern (ct e)"

definition link_params :: "encrypted \<Rightarrow> (jsstring \<times> jsstring) list" where
  "link_params e = [(js ''v'', js ''1''), (js ''w'', wrapped e), (js ''i'', iv e), (js ''c'', ct e)]"

lemma safe_link_params: "link_values e \<Longrightarrow> safe_pairs (link_params e)"
  by (simp add: link_values_def link_params_def safe_pairs_def base64URLPattern_def safe_def
      js_simps is_base64url_unit_def)

lemma params_link_params:
  "link_values e \<Longrightarrow> params_of_string (params_to_string (link_params e)) = link_params e"
  by (rule params_round_trip [OF safe_link_params]) (auto simp: link_params_def js_simps)

definition link_fragment :: "encrypted \<Rightarrow> jsstring" where
  "link_fragment e = params_to_string (link_params e)"

lemma link_fragment_text:
  "link_values e \<Longrightarrow>
   link_fragment e = js ''v=1&w='' @ wrapped e @ js ''&i='' @ iv e @ js ''&c='' @ ct e"
  by (simp add: link_fragment_def link_params_def link_values_def base64URLPattern_def
      form_encode_base64url js_simps is_base64url_unit_def)

lemma falsy_simps [simp]: "falsy None" "falsy (Some s) \<longleftrightarrow> s = []"
  by (simp_all add: falsy_def)

lemma parseFragment_link_fragment:
  assumes "link_values e"
  shows "parseFragment (35 # link_fragment e) = Inr e"
proof -
  have "prefix (js ''#'') (35 # link_fragment e)" by (simp add: js_simps)
  moreover have "link_fragment e \<noteq> []" using link_fragment_text [OF assms] by (simp add: js_simps)
  ultimately show ?thesis
    using params_link_params [OF assms] assms
    by (simp add: parseFragment_def Let_def link_fragment_def params_get_def link_params_def
        link_values_def base64URLPattern_def js_simps)
qed

interpretation fragment: codec "\<lambda>e. 35 # link_fragment e" parseFragment link_values
  by unfold_locales (rule parseFragment_link_fragment)

text \<open>Conversely, whatever \<open>parseFragment\<close> accepts has three values of that shape.\<close>

lemma parseFragment_link_values: "parseFragment hash = Inr e \<Longrightarrow> link_values e"
  by (auto simp: parseFragment_def Let_def link_values_def result_simps split: if_splits)

text \<open>The key ID: 32 lowercase hexadecimal digits, as \<open>randomID\<close> makes them.\<close>

definition hex_id :: "jsstring \<Rightarrow> bool" where
  "hex_id s \<longleftrightarrow> length s = 32 \<and>
     list_all (\<lambda>u. (48 \<le> unat u \<and> unat u \<le> 57) \<or> (97 \<le> unat u \<and> unat u \<le> 102)) s"

lemma encodeURIComponent_plain:
  assumes "list_all (\<lambda>u. is_alnum (unat u)) s"
  shows "encodeURIComponent s = Inr s"
proof -
  have a: "ascii s" using assms by (auto simp: ascii_def list_all_iff is_alnum_def)
  have "concat (map (\<lambda>c. if uri_unreserved c then [of_nat c] else concat (map percent_byte (utf8_cp c)))
      (map unat s)) = s"
    using assms by (induction s) (simp_all add: uri_unreserved_def)
  with a show ?thesis
    by (simp add: encodeURIComponent_def code_points_ascii well_formed_def to_well_formed_ascii)
qed

lemma hex_id_alnum: "hex_id s \<Longrightarrow> list_all (\<lambda>u. is_alnum (unat u)) s"
  by (auto simp: hex_id_def list_all_iff is_alnum_def)

lemma buildShareURL_result:
  "hex_id keyId \<Longrightarrow>
   buildShareURL origin keyId e = Inr (origin @ js ''/share/'' @ keyId @ js ''#'' @ link_fragment e)"
  by (simp add: buildShareURL_def encodeURIComponent_plain hex_id_alnum link_fragment_def
      link_params_def Let_def)

text \<open>The length of a link is the predicted one.\<close>

lemma link_length:
  assumes "length w = 512" and "length i = 12" and "length c = n + 16" and "hex_id keyId"
    and "buildShareURL origin keyId \<lparr>wrapped = b64url w, iv = b64url i, ct = b64url c\<rparr> = Inr link"
  shows "length link = estimateLinkLength origin n"
proof -
  let ?e = "\<lparr>wrapped = b64url w, iv = b64url i, ct = b64url c\<rparr>"
  have "link_values ?e"
    using assms(1-3) by (auto simp: link_values_def)
  then have "link = origin @ js ''/share/'' @ keyId @ js ''#v=1&w='' @ b64url w @ js ''&i='' @
      b64url i @ js ''&c='' @ b64url c"
    using assms(4,5) by (simp add: buildShareURL_result link_fragment_text js_simps)
  then show ?thesis
    using assms(1-4)
    by (simp add: length_b64url estimateLinkLength_def idLength_def wrappedKeyLength_def ivLength_def
        gcmTagBytes_def base64URLLength_def hex_id_def algebra_simps)
qed

section \<open>Splitting a link\<close>

text \<open>An origin: an http or https scheme and a nonempty host.\<close>

definition origin_ok :: "jsstring \<Rightarrow> bool" where
  "origin_ok origin \<longleftrightarrow>
     (\<exists>host. (origin = js ''https://'' @ host \<or> origin = js ''http://'' @ host) \<and> host \<noteq> [] \<and>
        list_all (\<lambda>u. u \<notin> {47, 63, 35}) host)"

lemma parse_authority_link:
  assumes host: "list_all (\<lambda>u. u \<notin> {47, 63, 35}) host"
    and path: "list_all (\<lambda>u. u \<notin> {63, 35}) path" and frag: "fragment \<noteq> []"
  shows "parse_authority scheme (host @ (47 # path) @ 35 # fragment) =
     \<lparr>url_origin = scheme @ host, url_pathname = 47 # path, url_search = [], url_hash = 35 # fragment\<rparr>"
proof -
  have "takeWhile (\<lambda>u. u \<notin> {47, 63, 35}) (host @ (47 # path) @ 35 # fragment) = host"
    using host by (subst takeWhile_append2) (auto simp: list_all_iff)
  moreover have "takeWhile (\<lambda>u. u \<notin> {63, 35}) ((47 # path) @ 35 # fragment) = 47 # path"
    using path by (subst takeWhile_append2) (auto simp: list_all_iff)
  ultimately show ?thesis
    using frag by (simp add: parse_authority_def Let_def)
qed

lemma parse_url_link:
  assumes "origin_ok origin" and "list_all (\<lambda>u. u \<notin> {63, 35}) path" and "fragment \<noteq> []"
  shows "parse_url (origin @ (47 # path) @ 35 # fragment) =
     Inr \<lparr>url_origin = origin, url_pathname = 47 # path, url_search = [], url_hash = 35 # fragment\<rparr>"
  using assms parse_authority_link [OF _ assms(2,3)]
  by (auto simp: parse_url_def origin_ok_def js_simps)

lemma splitShareURL_link:
  assumes "origin_ok origin" and "list_all (\<lambda>u. u \<notin> {63, 35}) path" and "fragment \<noteq> []"
  shows "splitShareURL (origin @ (47 # path) @ 35 # fragment) =
     Inr \<lparr>sent = origin @ 47 # path, kept = 35 # fragment\<rparr>"
  unfolding splitShareURL_def parse_url_link [OF assms] by simp

text \<open>A key ID has none of the delimiters.\<close>

lemma hex_id_path: "hex_id keyId \<Longrightarrow> list_all (\<lambda>u. u \<notin> {63, 35}) (js ''share/'' @ keyId)"
  by (auto simp: hex_id_def list_all_iff js_simps)

lemma hex_id_plain: "hex_id k \<Longrightarrow> k \<noteq> [] \<and> 0 \<notin> set k \<and> 13 \<notin> set k"
  by (auto simp: hex_id_def list_all_iff)

lemma share_path_segments: "hex_id k \<Longrightarrow> split_on 47 (js ''/share/'' @ k) = [[], js ''share'', k]"
  by (auto simp: js_simps hex_id_def list_all_iff intro!: split_on_none)

lemma link_fragment_nonempty: "link_values e \<Longrightarrow> link_fragment e \<noteq> []"
  by (simp add: link_fragment_text js_simps)

text \<open>The whole link, as the recipient's browser takes it apart.\<close>

lemma built_link_parts:
  assumes "origin_ok origin" and "hex_id keyId" and "link_values e"
  shows "\<exists>link. buildShareURL origin keyId e = Inr link \<and>
     parse_url link = Inr \<lparr>url_origin = origin, url_pathname = js ''/share/'' @ keyId, url_search = [],
       url_hash = 35 # link_fragment e\<rparr>"
proof -
  have path: "js ''/share/'' @ keyId = 47 # js ''share/'' @ keyId" by (simp add: js_simps)
  have "js ''#'' = [35]" by (simp add: js_simps)
  then have "buildShareURL origin keyId e =
      Inr (origin @ (47 # js ''share/'' @ keyId) @ 35 # link_fragment e)"
    using buildShareURL_result [OF assms(2)] by (simp add: path [symmetric])
  with parse_url_link [OF assms(1) hex_id_path [OF assms(2)] link_fragment_nonempty [OF assms(3)]]
  show ?thesis by (simp add: path)
qed

section \<open>Properties\<close>

text \<open>C24: A link is read back: for an origin, a key ID as the server makes it, and three Base64URL values,
  \<open>buildShareURL\<close> gives a URL whose path names the key, whose query is empty and whose fragment
  \<open>parseFragment\<close> turns into the same three values; \<open>splitShareURL\<close> shows exactly the part before the
  fragment as sent.\<close>
theorem link_read_back:
  assumes "origin_ok origin" and "hex_id keyId" and "link_values e"
  shows "\<exists>link u. buildShareURL origin keyId e = Inr link \<and> parse_url link = Inr u \<and>
     url_pathname u = js ''/share/'' @ keyId \<and> url_search u = [] \<and> parseFragment (url_hash u) = Inr e \<and>
     splitShareURL link = Inr \<lparr>sent = origin @ js ''/share/'' @ keyId, kept = url_hash u\<rparr>"
  using built_link_parts [OF assms] parseFragment_link_fragment [OF assms(3)]
  by (auto simp: splitShareURL_def)

theorem link_read_back_witness:
  "\<exists>link u. buildShareURL (js ''https://kb.example'') (js ''00112233445566778899aabbccddeeff'')
       \<lparr>wrapped = js ''Ab'', iv = js ''-_'', ct = js ''09''\<rparr> = Inr link \<and> parse_url link = Inr u \<and>
     url_pathname u = js ''/share/'' @ js ''00112233445566778899aabbccddeeff'' \<and> url_search u = [] \<and>
     parseFragment (url_hash u) = Inr \<lparr>wrapped = js ''Ab'', iv = js ''-_'', ct = js ''09''\<rparr> \<and>
     splitShareURL link = Inr \<lparr>sent = js ''https://kb.example'' @ js ''/share/'' @
       js ''00112233445566778899aabbccddeeff'', kept = url_hash u\<rparr>"
proof (rule link_read_back)
  show "origin_ok (js ''https://kb.example'')"
    unfolding origin_ok_def by (intro exI [of _ "js ''kb.example''"]) (simp add: js_simps)
qed (simp_all add: hex_id_def link_values_def base64URLPattern_def is_base64url_unit_def js_simps)

text \<open>C25: Whatever \<open>parseFragment\<close> accepts, in any spelling (percent escapes, extra or reordered parameters),
  is three nonempty Base64URL values, and the canonical link of these values is accepted with the same
  result.\<close>
theorem accepted_fragments:
  assumes "parseFragment hash = Inr e"
  shows "base64URLPattern (wrapped e) \<and> base64URLPattern (iv e) \<and> base64URLPattern (ct e) \<and>
     parseFragment (js ''#v=1&w='' @ wrapped e @ js ''&i='' @ iv e @ js ''&c='' @ ct e) = Inr e"
proof -
  have e: "link_values e" by (rule parseFragment_link_values [OF assms])
  have "js ''#v=1&w='' = 35 # js ''v=1&w=''" by (simp add: js_simps)
  with parseFragment_link_fragment [OF e] link_fragment_text [OF e] e show ?thesis
    by (simp add: link_values_def)
qed

theorem accepted_fragments_witness:
  "base64URLPattern (js ''Ab'') \<and> base64URLPattern (js ''-_'') \<and> base64URLPattern (js ''09'') \<and>
   parseFragment (js ''#v=1&w='' @ js ''Ab'' @ js ''&i='' @ js ''-_'' @ js ''&c='' @ js ''09'') =
     Inr \<lparr>wrapped = js ''Ab'', iv = js ''-_'', ct = js ''09''\<rparr>"
proof -
  let ?e = "\<lparr>wrapped = js ''Ab'', iv = js ''-_'', ct = js ''09''\<rparr>"
  have "link_values ?e"
    by (simp add: link_values_def base64URLPattern_def is_base64url_unit_def js_simps)
  from accepted_fragments [OF parseFragment_link_fragment [OF this]] show ?thesis by simp
qed

end
