(* ===== verification/UiJs.thy ===== *)
theory UiJs
  imports LinkJs
begin

text \<open>
  \<open>static/ui.js\<close>: the status line, the text helpers, the copy buttons and the link anatomy figure.
  \<open>count.toLocaleString()\<close> depends on the reader's locale, so it is a parameter \<open>loc\<close>.
\<close>

section \<open>Status line and text\<close>

datatype status_kind = Idle | Working | Success | Failure

record status_line =
  status_text :: jsstring
  status_kind :: status_kind

definition setStatus :: "jsstring \<Rightarrow> status_kind \<Rightarrow> status_line" where
  "setStatus message state = \<lparr>status_text = message, status_kind = state\<rparr>"

definition plural :: "(nat \<Rightarrow> jsstring) \<Rightarrow> nat \<Rightarrow> jsstring \<Rightarrow> jsstring" where
  "plural loc count unit = loc count @ js '' '' @ unit @ (if count = 1 then [] else js ''s'')"

text \<open>The \<open>for\<close> loop of \<open>formatDuration\<close> over its table of units.\<close>

definition duration_units :: "(jsstring \<times> nat) list" where
  "duration_units = [(js ''day'', 86400), (js ''hour'', 3600), (js ''minute'', 60)]"

fun duration_loop :: "(nat \<Rightarrow> jsstring) \<Rightarrow> (jsstring \<times> nat) list \<Rightarrow> nat \<Rightarrow> jsstring" where
  "duration_loop loc [] seconds = plural loc seconds (js ''second'')"
| "duration_loop loc ((unitName, unitSize) # rest) seconds =
     (if seconds mod unitSize = 0 then plural loc (seconds div unitSize) unitName
      else duration_loop loc rest seconds)"

definition formatDuration :: "(nat \<Rightarrow> jsstring) \<Rightarrow> nat \<Rightarrow> jsstring" where
  "formatDuration loc seconds = duration_loop loc duration_units seconds"

text \<open>The amount and unit a duration is shown in: the first unit of the table that divides it.\<close>

definition duration_parts :: "nat \<Rightarrow> nat \<times> jsstring \<times> nat" where
  "duration_parts seconds =
     (if 86400 dvd seconds then (seconds div 86400, js ''day'', 86400)
      else if 3600 dvd seconds then (seconds div 3600, js ''hour'', 3600)
      else if 60 dvd seconds then (seconds div 60, js ''minute'', 60)
      else (seconds, js ''second'', 1))"

lemma formatDuration_parts:
  "formatDuration loc seconds =
     (case duration_parts seconds of (amount, unitName, unitSize) \<Rightarrow> plural loc amount unitName)"
  by (simp add: formatDuration_def duration_units_def duration_parts_def dvd_eq_mod_eq_0)

lemma duration_parts_exact:
  "duration_parts seconds = (amount, unitName, unitSize) \<Longrightarrow> amount * unitSize = seconds"
  by (auto simp: duration_parts_def split: if_splits)

section \<open>Copy buttons\<close>

text \<open>
  The part of a button \<open>copyText\<close> works on: the text of its label, the \<open>data-copied\<close> attribute, and
  the pending two-second timers. Each timer holds the label its call had read; all have the same
  delay, so they fire in the order they were set.
\<close>

record copy_button =
  label :: jsstring
  copied :: bool
  timers :: "jsstring list"

text \<open>What \<open>navigator.clipboard?.writeText\<close> does: missing, writes, or rejects.\<close>

datatype clipboard = NoClipboard | Writes | Rejects

definition copied_label :: jsstring where
  "copied_label = js ''Copied''"

definition copyText :: "clipboard \<Rightarrow> copy_button \<Rightarrow> copy_button \<times> bool result" where
  "copyText cb b =
     (case cb of
        NoClipboard \<Rightarrow> (b, Inr False)
      | Rejects \<Rightarrow> (b, Inl NotAllowedError)
      | Writes \<Rightarrow>
          (b\<lparr>label := copied_label, copied := True, timers := timers b @ [label b]\<rparr>, Inr True))"

text \<open>The callback of \<open>setTimeout\<close>, for the oldest timer.\<close>

definition restore_label :: "copy_button \<Rightarrow> copy_button" where
  "restore_label b =
     (case timers b of
        [] \<Rightarrow> b
      | original # rest \<Rightarrow> b\<lparr>label := original, copied := False, timers := rest\<rparr>)"

datatype copy_event = CopyClick clipboard | CopyTimeout

definition copy_step :: "copy_button \<Rightarrow> copy_event \<Rightarrow> copy_button" where
  "copy_step b e = (case e of CopyClick cb \<Rightarrow> fst (copyText cb b) | CopyTimeout \<Rightarrow> restore_label b)"

text \<open>
  What holds of every run: the attribute is set only while a timer is pending, and the label is
  always the original one or \<open>Copied\<close>.
\<close>

definition copy_init :: "jsstring \<Rightarrow> copy_button \<Rightarrow> bool" where
  "copy_init original b \<longleftrightarrow> b = \<lparr>label = original, copied = False, timers = []\<rparr>"

definition copy_inv :: "jsstring \<Rightarrow> copy_button \<Rightarrow> bool" where
  "copy_inv original b \<longleftrightarrow>
     (timers b = [] \<longrightarrow> \<not> copied b) \<and> label b \<in> {original, copied_label} \<and>
     set (timers b) \<subseteq> {original, copied_label}"

interpretation copy_machine: machine copy_step "copy_init original" "copy_inv original"
  for original
  by unfold_locales
     (auto simp: copy_init_def copy_inv_def copy_step_def copyText_def restore_label_def
       split: copy_event.splits clipboard.splits list.splits)

section \<open>Link anatomy\<close>

record anatomy =
  anatomy_path :: jsstring
  anatomy_fragment :: jsstring
  anatomy_size :: jsstring

definition renderAnatomy :: "(nat \<Rightarrow> jsstring) \<Rightarrow> jsstring \<Rightarrow> anatomy result" where
  "renderAnatomy loc href =
     bindR (splitShareURL href) (\<lambda>l. Inr
       \<lparr>anatomy_path = sent l,
        anatomy_fragment = (if kept l = [] then js ''# (missing)'' else kept l),
        anatomy_size = (if kept l = [] then []
          else js '', '' @ plural loc (length (kept l)) (js ''character''))\<rparr>)"

section \<open>Properties\<close>

text \<open>\<open>formatDuration\<close> is exact: the amount shown times its unit is the duration, and no larger unit
  divides it.\<close>
theorem formatDuration_exact:
  "\<exists>amount unitName unitSize. formatDuration loc seconds = plural loc amount unitName \<and>
     amount * unitSize = seconds \<and>
     (unitName, unitSize) \<in> set (duration_units @ [(js ''second'', 1)]) \<and>
     (\<forall>(largerName, largerSize) \<in> set duration_units. unitSize < largerSize \<longrightarrow> \<not> largerSize dvd seconds)"
proof -
  obtain a u n where p: "duration_parts seconds = (a, u, n)" by (metis prod_cases3)
  have "formatDuration loc seconds = plural loc a u \<and> a * n = seconds \<and>
      (u, n) \<in> set (duration_units @ [(js ''second'', 1)]) \<and>
      (\<forall>(largerName, largerSize) \<in> set duration_units. n < largerSize \<longrightarrow> \<not> largerSize dvd seconds)"
    using formatDuration_parts [of loc seconds] duration_parts_exact [OF p] p
    by (auto simp: duration_parts_def duration_units_def split: if_splits)
  then show ?thesis by blast
qed

theorem formatDuration_exact_witness:
  "\<exists>amount unitName unitSize. formatDuration decimal 5400 = plural decimal amount unitName \<and>
     amount * unitSize = 5400 \<and>
     (unitName, unitSize) \<in> set (duration_units @ [(js ''second'', 1)]) \<and>
     (\<forall>(largerName, largerSize) \<in> set duration_units. unitSize < largerSize \<longrightarrow> \<not> largerSize dvd (5400 :: nat))"
  by (rule formatDuration_exact)

text \<open>C36: A copy button clicked once shows \<open>Copied\<close> and gets its own label back when the timer fires.
  Clicked again before that, it reads \<open>Copied\<close> as its own label, and after both timers it shows
  \<open>Copied\<close> with no timer left to change that.\<close>
theorem copy_button_label:
  assumes "copy_init original b"
  shows "label (foldl copy_step b [CopyClick Writes]) = copied_label \<and>
     foldl copy_step b [CopyClick Writes, CopyTimeout] = b \<and>
     foldl copy_step b [CopyClick Writes, CopyClick Writes, CopyTimeout, CopyTimeout] =
       \<lparr>label = copied_label, copied = False, timers = []\<rparr>"
  using assms by (simp add: copy_init_def copy_step_def copyText_def restore_label_def)

theorem copy_button_label_witness:
  "label (foldl copy_step \<lparr>label = js ''Copy link'', copied = False, timers = []\<rparr>
     [CopyClick Writes, CopyClick Writes, CopyTimeout, CopyTimeout]) = js ''Copied''"
  using copy_button_label [of "js ''Copy link''" "\<lparr>label = js ''Copy link'', copied = False, timers = []\<rparr>"]
  by (simp add: copy_init_def copied_label_def)

text \<open>In every run of a copy button its label is its own or \<open>Copied\<close>, and it is marked as copied only
  while a timer is pending.\<close>
theorem copy_button_states:
  assumes "copy_init original b" and "q = foldl copy_step b es"
  shows "label q \<in> {original, copied_label} \<and> (copied q \<longrightarrow> timers q \<noteq> [])"
  using copy_machine.inv_run [OF assms(1), of es] unfolding assms(2) [symmetric] copy_inv_def by blast

theorem copy_button_states_witness:
  "label (foldl copy_step \<lparr>label = js ''Copy'', copied = False, timers = []\<rparr> [CopyClick Rejects, CopyTimeout])
     \<in> {js ''Copy'', copied_label}"
proof -
  have "copy_init (js ''Copy'') \<lparr>label = js ''Copy'', copied = False, timers = []\<rparr>" by (simp add: copy_init_def)
  from copy_button_states [OF this refl] show ?thesis by (rule conjunct1)
qed

end
