(* ===== verification/ApiJs.thy ===== *)
theory ApiJs
  imports UiJs
begin

text \<open>
  \<open>static/api.js\<close>, the only module that talks to the server, and the request \<open>static/app.js\<close> writes
  down first. The state \<open>page_net\<close> holds what the page shows of its requests (the ledger) and what
  really went out (the wire); the reply to a \<open>fetch\<close> is an argument.
\<close>

section \<open>Requests, replies and the ledger\<close>

record request =
  r_method :: jsstring
  r_path :: jsstring
  r_headers :: "(jsstring \<times> jsstring) list"
  r_body :: "jsstring option"

record key_reply =
  reply_id :: jsstring
  reply_pub :: jsstring

text \<open>
  A response whose head has arrived, and what reading its body gives: \<open>response.text()\<close> rejects when the rest of
  the body does not arrive, \<open>response.json()\<close> also when it is not JSON. The head and the body come in one step.
  JSON of another shape than the server's \<open>CreateKeyResponse\<close> acts as one of these: without a text \<open>pub_pem\<close> as a
  \<open>TypeError\<close>, which the destructuring or \<open>pemToBytes\<close> throws in the same \<open>try\<close>; without an \<open>id\<close> as the ID
  \<open>undefined\<close>, which is what \<open>encodeURIComponent\<close> writes into the link.
\<close>

record response =
  status :: nat
  body_text :: "jsstring result"
  body_json :: "key_reply result"

text \<open>\<open>None\<close> is a \<open>fetch\<close> that rejects: no response arrived.\<close>

type_synonym fetch_outcome = "response option"

definition response_ok :: "response \<Rightarrow> bool" where
  "response_ok r \<longleftrightarrow> 200 \<le> status r \<and> status r \<le> 299"

record ledger_entry =
  e_method :: jsstring
  e_path :: jsstring
  e_sent :: jsstring
  e_literal :: bool
  e_received :: jsstring

record page_net =
  has_ledger :: bool
  entries :: "ledger_entry list"
  wire :: "request list"

definition default_note :: jsstring where
  "default_note = js ''Nothing but the address''"

definition waiting_text :: jsstring where
  "waiting_text = js ''Waiting'' @ [0x2026]"

text \<open>
  \<open>ledger.record\<close>: without the list or the template nothing is shown and the callback does nothing;
  otherwise the callback fills in the entry just appended, here named by its index.
\<close>

definition ledger_record ::
  "jsstring \<Rightarrow> jsstring \<Rightarrow> jsstring option \<Rightarrow> jsstring option \<Rightarrow> page_net \<Rightarrow> page_net \<times> nat option"
where
  "ledger_record method path body note net =
     (if \<not> has_ledger net then (net, None)
      else
        (net\<lparr>entries := entries net @
           [\<lparr>e_method = method, e_path = path,
             e_sent = (case body of Some b \<Rightarrow> b
                       | None \<Rightarrow> (case note of Some n \<Rightarrow> n | None \<Rightarrow> default_note)),
             e_literal = (body \<noteq> None), e_received = waiting_text\<rparr>]\<rparr>,
         Some (length (entries net))))"

definition settle :: "nat option \<Rightarrow> jsstring \<Rightarrow> page_net \<Rightarrow> page_net" where
  "settle entry reply net =
     (case entry of
        None \<Rightarrow> net
      | Some k \<Rightarrow> net\<lparr>entries := (entries net)[k := (entries net ! k)\<lparr>e_received := reply\<rparr>]\<rparr>)"

definition status_reply :: "nat \<Rightarrow> jsstring \<Rightarrow> jsstring" where
  "status_reply code description = decimal code @ js '' '' @ [0xB7] @ js '' '' @ description"

definition unreachable :: js_error where
  "unreachable = JsError (js ''Could not reach KeyBank. Check your connection and try again.'')"

text \<open>
  \<open>send\<close> in two parts: what runs when it is called (the ledger entry and the request), and what
  runs when \<open>fetch\<close> settles.
\<close>

definition send_start ::
  "jsstring \<Rightarrow> jsstring \<Rightarrow> (jsstring \<times> jsstring) list \<Rightarrow> jsstring option \<Rightarrow> page_net \<Rightarrow>
   page_net \<times> nat option"
where
  "send_start method path headers body net =
     (let (net1, entry) = ledger_record method path body None net
      in (net1\<lparr>wire := wire net1 @
            [\<lparr>r_method = method, r_path = path, r_headers = headers, r_body = body\<rparr>]\<rparr>, entry))"

definition send_finish ::
  "(nat \<Rightarrow> jsstring) \<Rightarrow> nat option \<Rightarrow> fetch_outcome \<Rightarrow> page_net \<Rightarrow> page_net \<times> response result"
where
  "send_finish describe entry outcome net =
     (case outcome of
        None \<Rightarrow> (settle entry (js ''No response'') net, Inl unreachable)
      | Some resp \<Rightarrow>
          (settle entry (status_reply (status resp) (describe (status resp))) net, Inr resp))"

section \<open>The two calls\<close>

definition failureMessages :: "nat \<Rightarrow> jsstring option" where
  "failureMessages code =
     (if code = 400 then Some (js ''KeyBank rejected that expiry. Pick another and try again.'')
      else if code = 413 then Some (js ''The request was too large.'')
      else if code = 429 then Some (js ''Too many requests. Wait a moment and try again.'')
      else None)"

definition failure :: "nat \<Rightarrow> jsstring \<Rightarrow> js_error" where
  "failure code fallback =
     JsError (case failureMessages code of Some m \<Rightarrow> m | None \<Rightarrow> fallback)"

text \<open>\<open>JSON.stringify({ ttl })\<close>.\<close>

definition ttl_body :: "nat \<Rightarrow> jsstring" where
  "ttl_body ttl = js ''{\"ttl\":'' @ decimal ttl @ js ''}''"

definition createKey_start :: "nat \<Rightarrow> page_net \<Rightarrow> page_net \<times> nat option" where
  "createKey_start ttl =
     send_start (js ''POST'') (js ''/api/keys'')
       [(js ''Content-Type'', js ''application/json'')] (Some (ttl_body ttl))"

definition createKey_finish ::
  "nat option \<Rightarrow> fetch_outcome \<Rightarrow> page_net \<Rightarrow> page_net \<times> key_reply result"
where
  "createKey_finish entry outcome net =
     (let (net1, r) = send_finish
            (\<lambda>code. if code = 201 then js ''a key ID and a public key'' else js ''an error, no key'')
            entry outcome net
      in (net1, bindR r (\<lambda>resp.
            if \<not> response_ok resp
            then Inl (failure (status resp) (js ''KeyBank could not create a key. Try again shortly.''))
            else body_json resp)))"

definition describe_fetch :: "nat \<Rightarrow> jsstring" where
  "describe_fetch code =
     (if code = 200 then js ''the private key, now deleted from KeyBank''
      else if code = 404 then js ''nothing: already opened or expired''
      else js ''an error'')"

text \<open>
  \<open>fetchKey\<close>: the path is built first, so an ID that cannot be encoded throws before anything is
  recorded. \<open>None\<close> is the result \<open>null\<close>: the key was fetched before or has expired.
\<close>

definition fetchKey_start :: "jsstring \<Rightarrow> page_net \<Rightarrow> page_net \<times> nat option" where
  "fetchKey_start eid = send_start (js ''GET'') (js ''/api/keys/'' @ eid) [] None"

definition fetchKey_finish ::
  "nat option \<Rightarrow> fetch_outcome \<Rightarrow> page_net \<Rightarrow> page_net \<times> jsstring option result"
where
  "fetchKey_finish entry outcome net =
     (let (net1, r) = send_finish describe_fetch entry outcome net
      in (net1, bindR r (\<lambda>resp.
            if status resp = 404 then Inr None
            else if \<not> response_ok resp
            then Inl (failure (status resp) (js ''Fetching the private key failed.''))
            else bindR (body_text resp) (\<lambda>privPem. Inr (Some privPem)))))"

definition fetchKey_begin :: "jsstring \<Rightarrow> page_net \<Rightarrow> (page_net \<times> nat option) result" where
  "fetchKey_begin keyId net =
     bindR (encodeURIComponent keyId) (\<lambda>eid. Inr (fetchKey_start eid net))"

section \<open>The ledger shows what was sent\<close>

definition entry_shows :: "ledger_entry \<Rightarrow> request \<Rightarrow> bool" where
  "entry_shows e r \<longleftrightarrow> e_method e = r_method r \<and> e_path e = r_path r \<and>
     (case r_body r of Some b \<Rightarrow> e_literal e \<and> e_sent e = b | None \<Rightarrow> \<not> e_literal e)"

definition ledger_ok :: "page_net \<Rightarrow> bool" where
  "ledger_ok net \<longleftrightarrow> (if has_ledger net then list_all2 entry_shows (entries net) (wire net) else entries net = [])"

lemma entry_shows_received: "entry_shows (e\<lparr>e_received := reply\<rparr>) r \<longleftrightarrow> entry_shows e r"
  by (simp add: entry_shows_def split: option.split)

lemma settle_fields [simp]:
  "wire (settle k reply net) = wire net" "has_ledger (settle k reply net) = has_ledger net"
  by (auto simp: settle_def split: option.split)

lemma settle_ledger_ok:
  assumes "ledger_ok net"
  shows "ledger_ok (settle k reply net)"
proof (cases k)
  case (Some i)
  show ?thesis
  proof (cases "has_ledger net \<and> i < length (entries net)")
    case True
    with assms have l: "list_all2 entry_shows (entries net) (wire net)" by (simp add: ledger_ok_def)
    then have "entry_shows (entries net ! i) (wire net ! i)" using True by (simp add: list_all2_nthD)
    then have "list_all2 entry_shows ((entries net)[i := (entries net ! i)\<lparr>e_received := reply\<rparr>])
        ((wire net)[i := wire net ! i])"
      using l by (intro list_all2_update_cong) (simp_all add: entry_shows_received)
    with True Some show ?thesis by (simp add: ledger_ok_def settle_def)
  next
    case False
    with assms Some show ?thesis by (auto simp: ledger_ok_def settle_def list_update_beyond)
  qed
qed (use assms in \<open>simp add: settle_def\<close>)

lemma send_start_wire:
  "wire (fst (send_start method path headers body net)) =
     wire net @ [\<lparr>r_method = method, r_path = path, r_headers = headers, r_body = body\<rparr>]"
  by (simp add: send_start_def ledger_record_def Let_def)

lemma send_start_ledger_ok:
  "ledger_ok net \<Longrightarrow> ledger_ok (fst (send_start method path headers body net))"
  by (auto simp: send_start_def ledger_record_def ledger_ok_def entry_shows_def Let_def
      split: option.split intro!: list_all2_appendI)

lemma send_finish_wire: "wire (fst (send_finish describe entry outcome net)) = wire net"
  by (simp add: send_finish_def split: option.split)

lemma send_finish_ledger_ok:
  "ledger_ok net \<Longrightarrow> ledger_ok (fst (send_finish describe entry outcome net))"
  by (simp add: send_finish_def settle_ledger_ok split: option.split)

text \<open>
  The contract the pages rely on: starting a call sends exactly one request, known in advance,
  finishing it sends none, and both keep the ledger true.
\<close>

locale api_call =
  fixes start :: "page_net \<Rightarrow> page_net \<times> nat option"
    and finish :: "nat option \<Rightarrow> fetch_outcome \<Rightarrow> page_net \<Rightarrow> page_net \<times> 'r result"
    and req :: request
  assumes start_wire: "wire (fst (start net)) = wire net @ [req]"
    and start_ok: "ledger_ok net \<Longrightarrow> ledger_ok (fst (start net))"
    and finish_wire: "wire (fst (finish entry outcome net)) = wire net"
    and finish_ok: "ledger_ok net \<Longrightarrow> ledger_ok (fst (finish entry outcome net))"
begin

lemma whole_call_wire:
  "wire (fst (finish (snd (start net)) outcome (fst (start net)))) = wire net @ [req]"
  by (simp add: start_wire finish_wire)

lemma whole_call_ok:
  "ledger_ok net \<Longrightarrow> ledger_ok (fst (finish (snd (start net)) outcome (fst (start net))))"
  by (simp add: start_ok finish_ok)

end

definition create_request :: "nat \<Rightarrow> request" where
  "create_request ttl =
     \<lparr>r_method = js ''POST'', r_path = js ''/api/keys'',
      r_headers = [(js ''Content-Type'', js ''application/json'')], r_body = Some (ttl_body ttl)\<rparr>"

definition fetch_request :: "jsstring \<Rightarrow> request" where
  "fetch_request eid =
     \<lparr>r_method = js ''GET'', r_path = js ''/api/keys/'' @ eid, r_headers = [], r_body = None\<rparr>"

interpretation create_call: api_call "createKey_start ttl" createKey_finish "create_request ttl"
  for ttl
  by unfold_locales
     (simp_all add: createKey_start_def createKey_finish_def split_beta Let_def send_start_wire
       send_start_ledger_ok send_finish_wire send_finish_ledger_ok create_request_def)

interpretation fetch_call: api_call "fetchKey_start eid" fetchKey_finish "fetch_request eid"
  for eid
  by unfold_locales
     (simp_all add: fetchKey_start_def fetchKey_finish_def split_beta Let_def send_start_wire
       send_start_ledger_ok send_finish_wire send_finish_ledger_ok fetch_request_def)

section \<open>app.js: the page's own request\<close>

text \<open>
  \<open>app.js\<close> starts a page: the request that loaded it is the first entry of the ledger, with a note
  on the fragment, and the warning banner is shown on plain HTTP. \<open>pages\<close> has two members; the
  error page has no initialiser and nothing runs on it.
\<close>

datatype page_kind = CreatePageKind | SharePageKind | OtherPage

definition fragment_note :: jsstring where
  "fragment_note = js ''Nothing but the address. The #fragment stayed in this browser.''"

definition page_request :: "jsstring \<Rightarrow> request" where
  "page_request pathname =
     \<lparr>r_method = js ''GET'', r_path = pathname, r_headers = [], r_body = None\<rparr>"

text \<open>The network state when the scripts start: the browser has fetched the page.\<close>

definition loaded_net :: "bool \<Rightarrow> jsstring \<Rightarrow> page_net" where
  "loaded_net hasLedger pathname =
     \<lparr>has_ledger = hasLedger, entries = [], wire = [page_request pathname]\<rparr>"

definition start_app :: "page_kind \<Rightarrow> url \<Rightarrow> page_net \<Rightarrow> page_net" where
  "start_app kind location net =
     (if kind = OtherPage then net
      else
        (let note = (if url_hash location \<noteq> [] then Some fragment_note else None);
             (net1, entry) = ledger_record (js ''GET'') (url_pathname location) None note net
         in settle entry (js ''200 '' @ [0xB7] @ js '' this page'') net1))"

definition http_warning_hidden :: "url \<Rightarrow> bool" where
  "http_warning_hidden location \<longleftrightarrow> \<not> prefix (js ''http://'') (url_origin location)"

lemma start_app_ledger_ok:
  "kind \<noteq> OtherPage \<Longrightarrow>
   ledger_ok (start_app kind location (loaded_net hasLedger (url_pathname location)))"
  by (simp add: start_app_def loaded_net_def ledger_record_def settle_def ledger_ok_def
      page_request_def entry_shows_def)

lemma start_app_wire [simp]: "wire (start_app kind location net) = wire net"
  by (simp add: start_app_def ledger_record_def Let_def)

section \<open>Properties\<close>

text \<open>What \<open>createKey\<close> gives on every branch: an error naming the connection when no response arrives;
  for an error status the message of that status (400, 413, 429) or the general one; otherwise the JSON
  body. It sends exactly the one request with the expiry.\<close>
theorem createKey_results:
  assumes "createKey_start ttl net = (net1, entry)" and "createKey_finish entry outcome net1 = (net2, r)"
  shows "wire net2 = wire net @ [create_request ttl] \<and>
     r = (case outcome of
            None \<Rightarrow> Inl (JsError (js ''Could not reach KeyBank. Check your connection and try again.''))
          | Some resp \<Rightarrow>
              if 200 \<le> status resp \<and> status resp \<le> 299 then body_json resp
              else Inl (JsError (
                if status resp = 400 then js ''KeyBank rejected that expiry. Pick another and try again.''
                else if status resp = 413 then js ''The request was too large.''
                else if status resp = 429 then js ''Too many requests. Wait a moment and try again.''
                else js ''KeyBank could not create a key. Try again shortly.'')))"
proof -
  have "wire net2 = wire net @ [create_request ttl]"
    using create_call.whole_call_wire [where ttl = ttl and outcome = outcome and net = net] assms by simp
  moreover have "r = snd (createKey_finish entry outcome net1)" using assms(2) by simp
  ultimately show ?thesis
    by (auto simp: createKey_finish_def send_finish_def split_beta Let_def unreachable_def response_ok_def
        failure_def failureMessages_def split: option.split)
qed

theorem createKey_results_witness:
  "snd (createKey_finish (snd (createKey_start 60 (loaded_net True (js ''/''))))
     (Some \<lparr>status = 429, body_text = Inr [], body_json = Inl SyntaxError\<rparr>)
     (fst (createKey_start 60 (loaded_net True (js ''/''))))) =
   Inl (JsError (js ''Too many requests. Wait a moment and try again.''))"
proof -
  let ?net = "loaded_net True (js ''/'')"
  let ?reply = "Some \<lparr>status = 429, body_text = Inr [], body_json = Inl SyntaxError\<rparr>"
  obtain net1 entry where a: "createKey_start 60 ?net = (net1, entry)" by fastforce
  obtain net2 r where b: "createKey_finish entry ?reply net1 = (net2, r)" by fastforce
  from createKey_results [OF a b] show ?thesis by (simp add: a b)
qed

text \<open>When a page starts, its ledger already tells the truth: it lists the request that loaded the page
  and nothing else was sent.\<close>
theorem page_starts_truthful:
  assumes "kind \<noteq> OtherPage" and "parse_url href = Inr location"
    and "net = start_app kind location (loaded_net hasLedger (url_pathname location))"
  shows "ledger_ok net \<and> wire net = [page_request (url_pathname location)]"
  using start_app_ledger_ok [OF assms(1)] by (simp add: assms(3) loaded_net_def)

theorem page_starts_truthful_witness:
  "ledger_ok (start_app SharePageKind \<lparr>url_origin = js ''http://h'', url_pathname = js ''/share/1'',
       url_search = [], url_hash = js ''#x''\<rparr> (loaded_net True (js ''/share/1'')))"
proof -
  have "parse_url (js ''http://h'' @ (47 # js ''share/1'') @ 35 # js ''x'') =
      Inr \<lparr>url_origin = js ''http://h'', url_pathname = 47 # js ''share/1'', url_search = [],
        url_hash = 35 # js ''x''\<rparr>"
    by (rule parse_url_link) (auto simp: origin_ok_def js_simps)
  from page_starts_truthful [OF _ this refl, of SharePageKind True] show ?thesis
    by (simp add: js_simps)
qed

end
