(* ===== verification/CreatePage.thy ===== *)
theory CreatePage
  imports Complex_Main ApiJs
begin

text \<open>
  \<open>static/create.js\<close>, the page that writes a note: the expiry controls, the message description, the
  size warning, and the submit handler with everything it changes on the page.

  The document is a record: the radio buttons of the expiry choice in document order, the custom
  input, the status line, the result section, the dialog, and the page's requests (\<open>page_net\<close>).
  The handlers are functions on it. What the user, the server and the platform contribute is an
  argument: the events, the reply to \<open>fetch\<close>, the random values, the clipboard, the QR library.
  The submit handler is two steps, because other events can happen while it waits for the server;
  the wait for the modal dialog is one step, since a modal dialog blocks the page.
\<close>

section \<open>Numbers read from controls\<close>

text \<open>What \<open>Number(value)\<close> can be; a fractional double is kept apart from a whole one.\<close>

datatype js_number = NaN | PosInf | Whole int | Fractional rat

definition num_gt :: "js_number \<Rightarrow> nat \<Rightarrow> bool" where
  "num_gt n k = (case n of NaN \<Rightarrow> False | PosInf \<Rightarrow> True | Whole i \<Rightarrow> int k < i
                 | Fractional q \<Rightarrow> of_nat k < q)"

section \<open>The expiry controls\<close>

definition defaultTTLSeconds :: nat where "defaultTTLSeconds = 24 * 60 * 60"
definition maxTTLSeconds :: nat where "maxTTLSeconds = 7 * 24 * 60 * 60"
definition softPlaintextLimitBytes :: nat where "softPlaintextLimitBytes = 100 * 1024"

text \<open>The \<open>value\<close> of a radio button: empty, \<open>custom\<close>, or a number of seconds.\<close>

datatype preset_value = BlankValue | CustomValue | SecondsValue nat

record preset =
  p_value :: preset_value
  p_default :: bool
  p_checked :: bool
  p_disabled :: bool

record expiry_form =
  presets :: "preset list"
  custom_value :: js_number
  custom_max :: nat
  custom_disabled :: bool
  custom_hidden :: bool

text \<open>
  \<open>maxTTL\<close> of \<open>initCreatePage\<close>. The attribute is printed by the server from an integer; \<open>None\<close> is
  anything that is not a finite number.
\<close>

definition page_max_ttl :: "int option \<Rightarrow> nat" where
  "page_max_ttl configuredMaxTTL =
     (case configuredMaxTTL of
        Some n \<Rightarrow> if 60 \<le> n then min (nat n) maxTTLSeconds else maxTTLSeconds
      | None \<Rightarrow> maxTTLSeconds)"

definition isCustomSelected :: "expiry_form \<Rightarrow> bool" where
  "isCustomSelected f \<longleftrightarrow> list_ex (\<lambda>p. p_checked p \<and> p_value p = CustomValue) (presets f)"

definition exceeds_limit :: js_error where
  "exceeds_limit = JsError (js ''That expiry exceeds this server's configured limit.'')"

definition whole_minutes :: js_error where
  "whole_minutes = JsError (js ''Enter a custom expiry in whole minutes (at least 1).'')"

definition custom_exceeds :: "(nat \<Rightarrow> jsstring) \<Rightarrow> nat \<Rightarrow> js_error" where
  "custom_exceeds loc maxTTL =
     JsError (js ''Custom expiry exceeds this server's limit of '' @ formatDuration loc maxTTL @ js ''.'')"

text \<open>\<open>querySelector(':checked')\<close> is the first checked radio button in document order.\<close>

definition selectedTTL :: "(nat \<Rightarrow> jsstring) \<Rightarrow> expiry_form \<Rightarrow> nat \<Rightarrow> nat result" where
  "selectedTTL loc f maxTTL =
     (case find p_checked (presets f) of
        None \<Rightarrow> Inr (min defaultTTLSeconds maxTTL)
      | Some selected \<Rightarrow>
          (case p_value selected of
             BlankValue \<Rightarrow> Inr (min defaultTTLSeconds maxTTL)
           | SecondsValue ttl \<Rightarrow> if maxTTL < ttl then Inl exceeds_limit else Inr ttl
           | CustomValue \<Rightarrow>
               (case custom_value f of
                  Whole minutes \<Rightarrow>
                    if minutes < 1 then Inl whole_minutes
                    else if maxTTL < nat minutes * 60 then Inl (custom_exceeds loc maxTTL)
                    else Inr (nat minutes * 60)
                | _ \<Rightarrow> Inl whole_minutes)))"

text \<open>The first loop of \<open>configureExpiryOptions\<close>: \<open>Number("")\<close> is 0.\<close>

definition disable_preset :: "nat \<Rightarrow> preset \<Rightarrow> preset" where
  "disable_preset maxTTL p =
     (case p_value p of
        CustomValue \<Rightarrow> p
      | BlankValue \<Rightarrow> p\<lparr>p_disabled := False\<rparr>
      | SecondsValue n \<Rightarrow>
          if maxTTL < n then p\<lparr>p_disabled := True, p_checked := False\<rparr> else p\<lparr>p_disabled := False\<rparr>)"

definition indices :: "('a \<Rightarrow> bool) \<Rightarrow> 'a list \<Rightarrow> nat list" where
  "indices P xs = filter (\<lambda>i. P (xs ! i)) [0..<length xs]"

text \<open>Checking a radio button unchecks the others of its group.\<close>

definition check_radio :: "nat \<Rightarrow> preset list \<Rightarrow> preset list" where
  "check_radio k ps = map (\<lambda>(i, p). p\<lparr>p_checked := (i = k)\<rparr>) (enumerate 0 ps)"

definition longest_or_custom :: "preset list \<Rightarrow> nat option" where
  "longest_or_custom ps =
     (case indices (\<lambda>p. p_value p \<noteq> CustomValue \<and> \<not> p_disabled p) ps of
        [] \<Rightarrow> (case indices (\<lambda>p. p_value p = CustomValue) ps of [] \<Rightarrow> None | k # _ \<Rightarrow> Some k)
      | k # ks \<Rightarrow> Some (last (k # ks)))"

definition configureExpiryOptions :: "nat \<Rightarrow> expiry_form \<Rightarrow> expiry_form result" where
  "configureExpiryOptions maxTTL f =
     (let ps = map (disable_preset maxTTL) (presets f);
          maxMinutes = max 1 (maxTTL div 60);
          f1 = f\<lparr>presets := ps, custom_max := maxMinutes,
                 custom_value := (if num_gt (custom_value f) maxMinutes then Whole (int maxMinutes)
                                  else custom_value f)\<rparr>
      in if list_ex (\<lambda>p. p_checked p \<and> \<not> p_disabled p) ps then Inr f1
         else (case longest_or_custom ps of
                 None \<Rightarrow> Inl TypeError
               | Some k \<Rightarrow> Inr (f1\<lparr>presets := check_radio k ps\<rparr>)))"

definition syncCustomInput :: "expiry_form \<Rightarrow> expiry_form" where
  "syncCustomInput f =
     f\<lparr>custom_disabled := \<not> isCustomSelected f, custom_hidden := \<not> isCustomSelected f\<rparr>"

text \<open>\<open>form.reset()\<close> on these controls: the defaults of the document, not the \<open>disabled\<close> flags.\<close>

definition reset_expiry :: "expiry_form \<Rightarrow> expiry_form" where
  "reset_expiry f =
     f\<lparr>presets := map (\<lambda>p. p\<lparr>p_checked := p_default p\<rparr>) (presets f), custom_value := Whole 60\<rparr>"

section \<open>Message description, size warning, QR code\<close>

definition byteLength :: "jsstring \<Rightarrow> nat" where
  "byteLength s = length (text_encode s)"

definition describeMessage :: "(nat \<Rightarrow> jsstring) \<Rightarrow> jsstring \<Rightarrow> jsstring \<Rightarrow> jsstring" where
  "describeMessage loc origin plaintext =
     (if plaintext = [] then js ''Short notes make short links.''
      else
        (let bytes = byteLength plaintext;
             linkLength = estimateLinkLength origin bytes;
             qr = (if linkLength \<le> qrCapacity then js ''fits in a QR code''
                   else js ''too long for a QR code'')
         in plural loc bytes (js ''byte'') @ [32, 0xB7, 32] @ js ''link '' @ [0x2248, 32]
              @ plural loc linkLength (js ''character'') @ [32, 0xB7, 32] @ qr))"

text \<open>
  The dialog element. Closing it with one of its buttons sets \<open>returnValue\<close> to the button's value;
  dismissing it (the Escape key) closes it and leaves \<open>returnValue\<close> as it was.
\<close>

record dialog =
  show_modal :: bool
  return_value :: jsstring
  warning_text :: jsstring

datatype dialog_close = ClosedWith jsstring | Dismissed

definition close_dialog :: "dialog_close \<Rightarrow> dialog \<Rightarrow> dialog" where
  "close_dialog c d = (case c of ClosedWith v \<Rightarrow> d\<lparr>return_value := v\<rparr> | Dismissed \<Rightarrow> d)"

definition confirmLargeMessage ::
  "(nat \<Rightarrow> jsstring) \<Rightarrow> bool \<Rightarrow> dialog_close \<Rightarrow> nat \<Rightarrow> dialog \<Rightarrow> dialog \<times> bool"
where
  "confirmLargeMessage loc windowConfirm close bytes d =
     (if \<not> show_modal d then (d, windowConfirm)
      else
        (let d1 = close_dialog close
               (d\<lparr>warning_text := js ''This note is '' @ plural loc bytes (js ''byte'')
                    @ js '' once encoded as UTF-8.''\<rparr>)
         in (d1, return_value d1 = js ''confirm'')))"

datatype qr_library = QRMissing | QRThrows | QRDraws
datatype qr_view = QREmpty | QRText jsstring | QRImage jsstring

definition renderQRCode :: "qr_library \<Rightarrow> jsstring \<Rightarrow> qr_view \<times> bool" where
  "renderQRCode lib value =
     (case lib of
        QRMissing \<Rightarrow> (QRText (js ''QR code unavailable. Copy the share URL instead.''), False)
      | QRDraws \<Rightarrow> (QRImage value, True)
      | QRThrows \<Rightarrow>
          (QRText (js ''This link is too long for a QR code. Copy the share URL instead.''), False))"

section \<open>The page and its handlers\<close>

record create_page =
  form :: expiry_form
  message :: jsstring
  message_meta :: jsstring
  page_status :: status_line
  result_hidden :: bool
  share_url :: jsstring
  open_href :: jsstring
  result_expiry :: jsstring
  result_anatomy :: "anatomy option"
  qr_code :: qr_view
  submit_disabled :: bool
  size_warning :: dialog
  copy_link :: copy_button
  native_share_hidden :: bool
  net :: page_net
  max_ttl :: nat
  in_flight :: "(jsstring \<times> nat \<times> nat option) option"

text \<open>
  The surroundings that do not change: locale, origin, argument limit of the engine, Web Crypto,
  the text of the platform's own exceptions, and the QR library. \<open>in_flight\<close> holds what the
  submit handler keeps while it waits: the plaintext, the expiry, and the ledger entry to settle.
\<close>

record ('pub, 'priv, 'aes) platform =
  locale_number :: "nat \<Rightarrow> jsstring"
  page_origin :: jsstring
  arg_limit :: nat
  crypto :: "('pub, 'priv, 'aes) webcrypto"
  platform_message :: "js_error \<Rightarrow> jsstring"
  qr_library :: "jsstring \<Rightarrow> qr_library"

definition error_message :: "('pub, 'priv, 'aes) platform \<Rightarrow> js_error \<Rightarrow> jsstring" where
  "error_message pf e = (case e of JsError m \<Rightarrow> m | _ \<Rightarrow> platform_message pf e)"

definition set_page_status :: "jsstring \<Rightarrow> status_kind \<Rightarrow> create_page \<Rightarrow> create_page" where
  "set_page_status m k p = p\<lparr>page_status := setStatus m k\<rparr>"

text \<open>
  The submit handler up to its first wait: the blank test, the expiry, the size warning; then the
  result is hidden, the button disabled, and the request is on its way.
\<close>

definition submit_start ::
  "('pub, 'priv, 'aes) platform \<Rightarrow> bool \<Rightarrow> dialog_close \<Rightarrow> create_page \<Rightarrow> create_page"
where
  "submit_start pf windowConfirm close p =
     (let plaintext = message p in
      if trim plaintext = [] then
        set_page_status (js ''Enter a message before generating a link.'') Failure p
      else
        (case selectedTTL (locale_number pf) (form p) (max_ttl p) of
           Inl e \<Rightarrow> set_page_status (error_message pf e) Failure p
         | Inr ttl \<Rightarrow>
             (let bytes = byteLength plaintext;
                  large = softPlaintextLimitBytes < bytes;
                  (dialog, ok) = (if large
                    then confirmLargeMessage (locale_number pf) windowConfirm close bytes (size_warning p)
                    else (size_warning p, True));
                  p1 = p\<lparr>size_warning := dialog\<rparr>
              in if \<not> ok then set_page_status (js ''Link generation cancelled.'') Idle p1
                 else set_page_status
                   (js ''Requesting a one-time keypair and encrypting locally'' @ [0x2026]) Working
                   (let (net1, entry) = createKey_start ttl (net p1)
                    in p1\<lparr>result_hidden := True, submit_disabled := True, net := net1,
                          in_flight := Some (plaintext, ttl, entry)\<rparr>))))"

definition success_message :: "bool \<Rightarrow> jsstring" where
  "success_message qrRendered =
     (if qrRendered
      then js ''Link generated. Your message never left this browser; it is encrypted inside the link.''
      else js ''Link generated. This link is too long for a QR code, so copy the share URL instead.'')"

text \<open>The part of the \<open>try\<close> block after the link is built; \<open>renderAnatomy\<close> may throw in it.\<close>

definition show_link ::
  "('pub, 'priv, 'aes) platform \<Rightarrow> nat \<Rightarrow> jsstring \<Rightarrow> create_page \<Rightarrow> create_page"
where
  "show_link pf ttl link p =
     (let p1 = p\<lparr>share_url := link, open_href := link,
                 result_expiry := js ''It opens once, and expires in ''
                   @ formatDuration (locale_number pf) ttl @ js '' if nobody opens it.''\<rparr>
      in case renderAnatomy (locale_number pf) link of
           Inl e \<Rightarrow> set_page_status (error_message pf e) Failure p1
         | Inr a \<Rightarrow>
             (let (view, qrRendered) = renderQRCode (qr_library pf link) link
              in set_page_status (success_message qrRendered) Success
                   (p1\<lparr>result_anatomy := Some a, result_hidden := False, qr_code := view\<rparr>)))"

text \<open>
  The rest of the submit handler, from the reply to \<open>finally\<close>. A step with no submit in flight
  changes nothing; an encryption that does not return leaves the handler waiting.
\<close>

definition submit_finish ::
  "('pub, 'priv, 'aes) platform \<Rightarrow> fetch_outcome \<Rightarrow> 'aes randomness \<Rightarrow> create_page \<Rightarrow> create_page"
where
  "submit_finish pf outcome rnd p =
     (case in_flight p of
        None \<Rightarrow> p
      | Some (plaintext, ttl, entry) \<Rightarrow>
          (let (net1, reply) = createKey_finish entry outcome (net p);
               p1 = p\<lparr>net := net1\<rparr>;
               linked = bindO (Some reply) (\<lambda>key.
                 bindO (encryptMessage (arg_limit pf) (crypto pf) rnd (reply_pub key) plaintext) (\<lambda>enc.
                   Some (buildShareURL (page_origin pf) (reply_id key) enc)))
           in case linked of
                None \<Rightarrow> p1
              | Some (Inl e) \<Rightarrow>
                  (set_page_status (error_message pf e) Failure p1)
                    \<lparr>submit_disabled := False, in_flight := None\<rparr>
              | Some (Inr link) \<Rightarrow>
                  (show_link pf ttl link p1)\<lparr>submit_disabled := False, in_flight := None\<rparr>))"

definition type_message ::
  "('pub, 'priv, 'aes) platform \<Rightarrow> jsstring \<Rightarrow> create_page \<Rightarrow> create_page"
where
  "type_message pf text p =
     p\<lparr>message := text, message_meta := describeMessage (locale_number pf) (page_origin pf) text\<rparr>"

text \<open>A click on an enabled radio button and its \<open>change\<close> handler.\<close>

definition choose_preset :: "nat \<Rightarrow> create_page \<Rightarrow> create_page" where
  "choose_preset k p =
     (let ps = presets (form p) in
      if k < length ps \<and> \<not> p_disabled (ps ! k)
      then p\<lparr>form := syncCustomInput ((form p)\<lparr>presets := check_radio k ps\<rparr>)\<rparr>
      else p)"

definition type_custom :: "js_number \<Rightarrow> create_page \<Rightarrow> create_page" where
  "type_custom n p =
     (if custom_disabled (form p) then p else p\<lparr>form := (form p)\<lparr>custom_value := n\<rparr>\<rparr>)"

text \<open>The \<open>New note\<close> button; it is inside the result section, so it acts only while that shows.\<close>

definition new_note ::
  "('pub, 'priv, 'aes) platform \<Rightarrow> create_page \<Rightarrow> create_page"
where
  "new_note pf p =
     (if result_hidden p then p
      else
        (let p1 = p\<lparr>form := reset_expiry (form p), message := []\<rparr>
         in case configureExpiryOptions (max_ttl p) (form p1) of
              Inl e \<Rightarrow> p1
            | Inr f \<Rightarrow>
                set_page_status (js ''Ready for a new note.'') Idle
                  (p1\<lparr>form := syncCustomInput f,
                      message_meta := describeMessage (locale_number pf) (page_origin pf) [],
                      result_hidden := True, share_url := [], qr_code := QREmpty\<rparr>)))"

definition copy_share_url :: "clipboard \<Rightarrow> create_page \<Rightarrow> create_page" where
  "copy_share_url cb p =
     (if result_hidden p then p
      else
        (let (b, r) = copyText cb (copy_link p); p1 = p\<lparr>copy_link := b\<rparr>
         in case r of
              Inl e \<Rightarrow>
                set_page_status (js ''Copy failed. Select the share URL and copy it manually.'') Failure p1
            | Inr written \<Rightarrow>
                set_page_status
                  (if written then js ''Share URL copied to your clipboard.''
                   else js ''Copy the share URL manually from the box above.'') Success p1))"

text \<open>
  \<open>initCreatePage\<close> up to the first event; \<open>canShare\<close> says whether \<open>navigator.share\<close> is a function.
\<close>

definition init_create_page :: "int option \<Rightarrow> bool \<Rightarrow> create_page \<Rightarrow> create_page result" where
  "init_create_page configuredMaxTTL canShare p =
     (let maxTTL = page_max_ttl configuredMaxTTL
      in bindR (configureExpiryOptions maxTTL (form p))
           (\<lambda>f. Inr (p\<lparr>form := syncCustomInput f, max_ttl := maxTTL,
                        native_share_hidden := \<not> canShare\<rparr>)))"

datatype 'aes create_event =
    TypeMessage jsstring
  | ChoosePreset nat
  | TypeCustom js_number
  | Submit bool dialog_close
  | Reply fetch_outcome "'aes randomness"
  | NewNote
  | CopyLink clipboard
  | CopyTimer

definition create_step ::
  "('pub, 'priv, 'aes) platform \<Rightarrow> create_page \<Rightarrow> 'aes create_event \<Rightarrow> create_page"
where
  "create_step pf p e =
     (case e of
        TypeMessage text \<Rightarrow> type_message pf text p
      | ChoosePreset k \<Rightarrow> choose_preset k p
      | TypeCustom n \<Rightarrow> type_custom n p
      | Submit windowConfirm close \<Rightarrow>
          if submit_disabled p then p else submit_start pf windowConfirm close p
      | Reply outcome rnd \<Rightarrow> submit_finish pf outcome rnd p
      | NewNote \<Rightarrow> new_note pf p
      | CopyLink cb \<Rightarrow> copy_share_url cb p
      | CopyTimer \<Rightarrow> p\<lparr>copy_link := restore_label (copy_link p)\<rparr>)"

section \<open>The expiry controls are consistent\<close>

text \<open>
  What the document fixes: a custom choice exists and is never disabled, every preset is at least
  a minute, and one choice is the default.
\<close>

definition only_index :: "('a \<Rightarrow> bool) \<Rightarrow> 'a list \<Rightarrow> nat \<Rightarrow> bool" where
  "only_index P xs k \<longleftrightarrow> k < length xs \<and> (\<forall>i < length xs. P (xs ! i) \<longleftrightarrow> i = k)"

definition document_ok :: "preset list \<Rightarrow> bool" where
  "document_ok ps \<longleftrightarrow>
     (\<exists>p \<in> set ps. p_value p = CustomValue) \<and>
     (\<forall>p \<in> set ps. p_value p = CustomValue \<longrightarrow> \<not> p_disabled p) \<and>
     (\<forall>p \<in> set ps. \<forall>n. p_value p = SecondsValue n \<longrightarrow> 60 \<le> n) \<and>
     (\<exists>k. only_index p_default ps k)"

text \<open>What the handlers keep: one choice is checked, it is enabled, and enabled presets are in range.\<close>

definition choices_ok :: "nat \<Rightarrow> preset list \<Rightarrow> bool" where
  "choices_ok maxTTL ps \<longleftrightarrow>
     (\<exists>k. only_index p_checked ps k \<and> \<not> p_disabled (ps ! k)) \<and>
     (\<forall>p \<in> set ps. \<forall>n. p_value p = SecondsValue n \<longrightarrow> p_disabled p = (maxTTL < n))"

lemma length_check_radio [simp]: "length (check_radio k ps) = length ps"
  by (simp add: check_radio_def)

lemma nth_check_radio [simp]:
  "i < length ps \<Longrightarrow> check_radio k ps ! i = (ps ! i)\<lparr>p_checked := (i = k)\<rparr>"
  by (simp add: check_radio_def nth_enumerate_eq)

lemma set_conv: "(\<forall>p \<in> set ps. P p) \<longleftrightarrow> (\<forall>i < length ps. P (ps ! i))"
  by (metis in_set_conv_nth)

lemma set_conv_ex: "(\<exists>p \<in> set ps. P p) \<longleftrightarrow> (\<exists>i < length ps. P (ps ! i))"
  by (metis in_set_conv_nth)

lemma document_ok_check_radio [simp]: "document_ok (check_radio k ps) \<longleftrightarrow> document_ok ps"
  unfolding document_ok_def set_conv set_conv_ex only_index_def by auto

lemma only_index_check_radio: "k < length ps \<Longrightarrow> only_index p_checked (check_radio k ps) k"
  by (simp add: only_index_def)

lemma choices_ok_check_radio:
  assumes "k < length ps" and "\<not> p_disabled (ps ! k)"
    and "\<forall>p \<in> set ps. \<forall>n. p_value p = SecondsValue n \<longrightarrow> p_disabled p = (maxTTL < n)"
  shows "choices_ok maxTTL (check_radio k ps)"
  using assms only_index_check_radio [of k ps]
  unfolding choices_ok_def set_conv by (auto intro!: exI [of _ k])

lemma disable_preset_fields [simp]:
  "p_value (disable_preset maxTTL p) = p_value p" "p_default (disable_preset maxTTL p) = p_default p"
  by (auto simp: disable_preset_def split: preset_value.split)

lemma disable_preset_cases:
  "p_value p = SecondsValue n \<Longrightarrow> p_disabled (disable_preset maxTTL p) = (maxTTL < n)"
  "p_value p = CustomValue \<Longrightarrow> p_disabled (disable_preset maxTTL p) = p_disabled p"
  "p_checked (disable_preset maxTTL p) \<Longrightarrow> p_checked p"
  by (auto simp: disable_preset_def split: preset_value.splits if_splits)

lemma document_ok_disable:
  "document_ok ps \<Longrightarrow> document_ok (map (disable_preset maxTTL) ps)"
  by (auto simp: document_ok_def only_index_def disable_preset_cases)

lemma indices_in: "i \<in> set (indices P xs) \<Longrightarrow> i < length xs \<and> P (xs ! i)"
  by (simp add: indices_def)

lemma indices_Nil: "indices P xs = [] \<longleftrightarrow> (\<forall>x \<in> set xs. \<not> P x)"
  unfolding indices_def set_conv by (auto simp: filter_empty_conv)

lemma longest_or_custom_enabled:
  assumes "document_ok ps"
  obtains k where "longest_or_custom ps = Some k" and "k < length ps" and "\<not> p_disabled (ps ! k)"
proof (cases "indices (\<lambda>p. p_value p \<noteq> CustomValue \<and> \<not> p_disabled p) ps")
  case Nil
  have "indices (\<lambda>p. p_value p = CustomValue) ps \<noteq> []"
    using assms unfolding indices_Nil document_ok_def by blast
  then obtain k ks where k: "indices (\<lambda>p. p_value p = CustomValue) ps = k # ks"
    by (cases "indices (\<lambda>p. p_value p = CustomValue) ps") auto
  then have "k < length ps \<and> p_value (ps ! k) = CustomValue"
    using indices_in [of k "\<lambda>p. p_value p = CustomValue" ps] by simp
  moreover from this have "\<not> p_disabled (ps ! k)"
    using assms unfolding document_ok_def by auto
  ultimately show thesis using Nil k that by (simp add: longest_or_custom_def)
next
  case (Cons k ks)
  then have "last (k # ks) \<in> set (indices (\<lambda>p. p_value p \<noteq> CustomValue \<and> \<not> p_disabled p) ps)"
    by (metis last_in_set list.distinct(1))
  then show thesis using indices_in Cons that by (fastforce simp: longest_or_custom_def)
qed

text \<open>
  After \<open>configureExpiryOptions\<close> the controls are consistent, whatever was checked before, as long
  as the radio group had at most one checked button.
\<close>

definition at_most_one_checked :: "preset list \<Rightarrow> bool" where
  "at_most_one_checked ps \<longleftrightarrow>
     (\<forall>i < length ps. \<forall>j < length ps. p_checked (ps ! i) \<longrightarrow> p_checked (ps ! j) \<longrightarrow> i = j)"

lemma configure_ok:
  assumes doc: "document_ok (presets f)" and one: "at_most_one_checked (presets f)"
  obtains f' where "configureExpiryOptions maxTTL f = Inr f'"
    and "document_ok (presets f')" and "choices_ok maxTTL (presets f')"
proof -
  let ?ps = "map (disable_preset maxTTL) (presets f)"
  have doc': "document_ok ?ps" by (rule document_ok_disable [OF doc])
  have range: "\<forall>p \<in> set ?ps. \<forall>n. p_value p = SecondsValue n \<longrightarrow> p_disabled p = (maxTTL < n)"
    by (auto simp: disable_preset_cases)
  show thesis
  proof (cases "list_ex (\<lambda>p. p_checked p \<and> \<not> p_disabled p) ?ps")
    case True
    then obtain k where k: "k < length ?ps" "p_checked (?ps ! k)" "\<not> p_disabled (?ps ! k)"
      unfolding list_ex_iff set_conv_ex by blast
    have "only_index p_checked ?ps k"
      using k(1,2) one disable_preset_cases(3)
      unfolding only_index_def at_most_one_checked_def by fastforce
    with k(3) range have "choices_ok maxTTL ?ps" unfolding choices_ok_def by blast
    with True doc' that show thesis by (auto simp: configureExpiryOptions_def Let_def)
  next
    case False
    obtain k where k: "longest_or_custom ?ps = Some k" "k < length ?ps" "\<not> p_disabled (?ps ! k)"
      using longest_or_custom_enabled [OF doc'] by blast
    have "choices_ok maxTTL (check_radio k ?ps)"
      by (rule choices_ok_check_radio [OF k(2,3) range])
    with False k(1) doc' that show thesis by (auto simp: configureExpiryOptions_def Let_def)
  qed
qed

lemma find_only_index: "only_index P xs k \<Longrightarrow> find P xs = Some (xs ! k)"
  unfolding only_index_def find_Some_iff by auto

text \<open>The expiry the page sends is one the server's range check accepts.\<close>

lemma selectedTTL_range:
  assumes "selectedTTL loc f maxTTL = Inr ttl" and "60 \<le> maxTTL" and "document_ok (presets f)"
  shows "60 \<le> ttl \<and> ttl \<le> maxTTL"
proof -
  have "\<And>p n. find p_checked (presets f) = Some p \<Longrightarrow> p_value p = SecondsValue n \<Longrightarrow> 60 \<le> n"
    using assms(3) unfolding document_ok_def by (metis find_Some_iff nth_mem)
  with assms(1,2) show ?thesis
    by (auto simp: selectedTTL_def defaultTTLSeconds_def min_def
        split: option.splits preset_value.splits js_number.splits if_splits)
qed

text \<open>With consistent controls, only a bad custom input can make \<open>selectedTTL\<close> throw.\<close>

lemma selectedTTL_preset:
  assumes "choices_ok maxTTL (presets f)" and "\<not> isCustomSelected f"
  shows "\<not> throws (selectedTTL loc f maxTTL)"
proof -
  obtain k where k: "only_index p_checked (presets f) k" "\<not> p_disabled (presets f ! k)"
    using assms(1) unfolding choices_ok_def by blast
  then have mem: "presets f ! k \<in> set (presets f)" and chk: "p_checked (presets f ! k)"
    by (auto simp: only_index_def)
  have "p_value (presets f ! k) \<noteq> CustomValue"
    using assms(2) mem chk by (auto simp: isCustomSelected_def list_ex_iff)
  moreover have "p_value (presets f ! k) = SecondsValue n \<Longrightarrow> \<not> maxTTL < n" for n
    using assms(1) k(2) mem unfolding choices_ok_def by blast
  ultimately show ?thesis
    using find_only_index [OF k(1)] by (auto simp: selectedTTL_def split: preset_value.split)
qed

lemma page_max_ttl_range: "60 \<le> page_max_ttl n \<and> page_max_ttl n \<le> maxTTLSeconds"
  by (auto simp: page_max_ttl_def maxTTLSeconds_def split: option.split)

section \<open>Every run of the page\<close>

text \<open>
  The invariant: consistent controls, a true ledger, the submit button disabled exactly while a
  request is under way, and on the wire nothing but what was there at the start (\<open>ws\<close>) followed by
  key requests whose only content is an expiry in the server's range.
\<close>

definition create_requests :: "request list \<Rightarrow> create_page \<Rightarrow> bool" where
  "create_requests ws p \<longleftrightarrow>
     (\<exists>ttls. wire (net p) = ws @ map create_request ttls \<and>
        (\<forall>t \<in> set ttls. 60 \<le> t \<and> t \<le> max_ttl p))"

definition flight_ok :: "create_page \<Rightarrow> bool" where
  "flight_ok p \<longleftrightarrow> (submit_disabled p \<longleftrightarrow> in_flight p \<noteq> None) \<and>
     (\<forall>m t k. in_flight p = Some (m, t, k) \<longrightarrow> 60 \<le> t \<and> t \<le> max_ttl p)"

definition create_inv :: "request list \<Rightarrow> create_page \<Rightarrow> bool" where
  "create_inv ws p \<longleftrightarrow>
     document_ok (presets (form p)) \<and> choices_ok (max_ttl p) (presets (form p)) \<and>
     60 \<le> max_ttl p \<and> ledger_ok (net p) \<and> create_requests ws p \<and> flight_ok p"

definition create_init :: "request list \<Rightarrow> create_page \<Rightarrow> bool" where
  "create_init ws p \<longleftrightarrow>
     (\<exists>attr canShare doc. init_create_page attr canShare doc = Inr p \<and>
        document_ok (presets (form doc)) \<and> at_most_one_checked (presets (form doc)) \<and>
        ledger_ok (net doc) \<and> wire (net doc) = ws \<and> \<not> submit_disabled doc \<and> in_flight doc = None)"

lemma sync_presets [simp]: "presets (syncCustomInput f) = presets f"
  by (simp add: syncCustomInput_def)

lemma create_init_inv:
  assumes "create_init ws p"
  shows "create_inv ws p"
proof -
  obtain attr canShare doc where init: "init_create_page attr canShare doc = Inr p"
    and doc: "document_ok (presets (form doc))" "at_most_one_checked (presets (form doc))"
    and net: "ledger_ok (net doc)" "wire (net doc) = ws" "\<not> submit_disabled doc" "in_flight doc = None"
    using assms unfolding create_init_def by blast
  obtain f where f: "configureExpiryOptions (page_max_ttl attr) (form doc) = Inr f"
    "document_ok (presets f)" "choices_ok (page_max_ttl attr) (presets f)"
    by (rule configure_ok [OF doc])
  have p: "p = doc\<lparr>form := syncCustomInput f, max_ttl := page_max_ttl attr,
      native_share_hidden := \<not> canShare\<rparr>"
    using init f(1) by (simp add: init_create_page_def)
  show ?thesis
    using f(2,3) net page_max_ttl_range [of attr]
    by (simp add: p create_inv_def create_requests_def flight_ok_def)
qed

text \<open>The fields the invariant reads; a handler that writes none of them keeps it.\<close>

lemma create_inv_cong:
  assumes "create_inv ws p" and "presets (form q) = presets (form p)" and "max_ttl q = max_ttl p"
    and "net q = net p" and "submit_disabled q = submit_disabled p" and "in_flight q = in_flight p"
  shows "create_inv ws q"
  using assms by (simp add: create_inv_def create_requests_def flight_ok_def)

lemma create_requests_snoc:
  assumes "create_requests ws p" and "60 \<le> ttl \<and> ttl \<le> max_ttl p"
    and "wire (net q) = wire (net p) @ [create_request ttl]" and "max_ttl q = max_ttl p"
  shows "create_requests ws q"
proof -
  obtain ttls where "wire (net p) = ws @ map create_request ttls"
    and "\<forall>t \<in> set ttls. 60 \<le> t \<and> t \<le> max_ttl p"
    using assms(1) unfolding create_requests_def by blast
  then have "wire (net q) = ws @ map create_request (ttls @ [ttl])"
    and "\<forall>t \<in> set (ttls @ [ttl]). 60 \<le> t \<and> t \<le> max_ttl q"
    using assms(2,3,4) by auto
  then show ?thesis unfolding create_requests_def by blast
qed

text \<open>The submit handler either stops with the request state unchanged, or sends one request.\<close>

lemma submit_start_cases:
  obtains (stopped) "net (submit_start pf windowConfirm close p) = net p"
      "submit_disabled (submit_start pf windowConfirm close p) = submit_disabled p"
      "in_flight (submit_start pf windowConfirm close p) = in_flight p"
      "form (submit_start pf windowConfirm close p) = form p"
      "max_ttl (submit_start pf windowConfirm close p) = max_ttl p"
  | (sent) ttl where "selectedTTL (locale_number pf) (form p) (max_ttl p) = Inr ttl"
      "net (submit_start pf windowConfirm close p) = fst (createKey_start ttl (net p))"
      "submit_disabled (submit_start pf windowConfirm close p)"
      "in_flight (submit_start pf windowConfirm close p) =
         Some (message p, ttl, snd (createKey_start ttl (net p)))"
      "form (submit_start pf windowConfirm close p) = form p"
      "max_ttl (submit_start pf windowConfirm close p) = max_ttl p"
proof (cases "selectedTTL (locale_number pf) (form p) (max_ttl p)")
  case (Inl e)
  then show thesis
    by (intro stopped) (simp_all add: submit_start_def set_page_status_def Let_def)
next
  case (Inr ttl)
  let ?ok = "trim (message p) \<noteq> [] \<and> (softPlaintextLimitBytes < byteLength (message p) \<longrightarrow>
    snd (confirmLargeMessage (locale_number pf) windowConfirm close (byteLength (message p))
      (size_warning p)))"
  show thesis
  proof (cases ?ok)
    case True
    with Inr show thesis
      by (intro sent [of ttl])
         (auto simp: submit_start_def set_page_status_def Let_def split_beta)
  next
    case False
    with Inr show thesis
      by (intro stopped) (auto simp: submit_start_def set_page_status_def Let_def split_beta)
  qed
qed

lemma submit_start_inv:
  assumes inv: "create_inv ws p"
  shows "create_inv ws (submit_start pf windowConfirm close p)"
proof (cases rule: submit_start_cases [of pf windowConfirm close p])
  case stopped
  with create_inv_cong [OF inv] show ?thesis by simp
next
  case (sent ttl)
  let ?q = "submit_start pf windowConfirm close p"
  have range: "60 \<le> ttl \<and> ttl \<le> max_ttl p"
    using inv selectedTTL_range [OF sent(1)] by (simp add: create_inv_def)
  have "wire (net ?q) = wire (net p) @ [create_request ttl]"
    by (simp only: sent(2) create_call.start_wire)
  then have "create_requests ws ?q"
    using inv range sent(6) create_requests_snoc unfolding create_inv_def by blast
  moreover have "ledger_ok (net ?q)"
    using inv by (simp add: sent(2) create_call.start_ok create_inv_def)
  ultimately show ?thesis
    using inv range sent(3-6) by (simp add: create_inv_def flight_ok_def)
qed

lemma show_link_fields:
  "presets (form (show_link pf ttl link p)) = presets (form p)"
  "max_ttl (show_link pf ttl link p) = max_ttl p" "net (show_link pf ttl link p) = net p"
  by (simp_all add: show_link_def set_page_status_def Let_def split_beta split: sum.split)

lemma submit_finish_fields:
  assumes flight: "in_flight p = Some (plaintext, ttl, entry)"
  shows "presets (form (submit_finish pf outcome rnd p)) = presets (form p)"
    and "max_ttl (submit_finish pf outcome rnd p) = max_ttl p"
    and "net (submit_finish pf outcome rnd p) = fst (createKey_finish entry outcome (net p))"
    and "\<not> submit_disabled (submit_finish pf outcome rnd p)"
    and "in_flight (submit_finish pf outcome rnd p) = None"
proof -
  have settles: "\<exists>r. bindO (Some reply) (\<lambda>key.
      bindO (encryptMessage (arg_limit pf) (crypto pf) rnd (reply_pub key) plaintext) (\<lambda>enc.
        Some (buildShareURL (page_origin pf) (reply_id key) enc))) = Some r"
    for reply :: "key_reply result"
    by (intro bindO_returns [OF refl])
       (metis bindO_returns encryptMessage_settles)
  obtain r where r: "bindO (Some (snd (createKey_finish entry outcome (net p)))) (\<lambda>key.
      bindO (encryptMessage (arg_limit pf) (crypto pf) rnd (reply_pub key) plaintext) (\<lambda>enc.
        Some (buildShareURL (page_origin pf) (reply_id key) enc))) = Some r"
    using settles by blast
  show "presets (form (submit_finish pf outcome rnd p)) = presets (form p)"
    "max_ttl (submit_finish pf outcome rnd p) = max_ttl p"
    "net (submit_finish pf outcome rnd p) = fst (createKey_finish entry outcome (net p))"
    "\<not> submit_disabled (submit_finish pf outcome rnd p)"
    "in_flight (submit_finish pf outcome rnd p) = None"
    by (cases r; simp add: submit_finish_def flight Let_def split_beta r set_page_status_def
        show_link_fields)+
qed

lemma submit_finish_inv:
  assumes inv: "create_inv ws p"
  shows "create_inv ws (submit_finish pf outcome rnd p)"
proof (cases "in_flight p")
  case None
  with inv show ?thesis by (simp add: submit_finish_def)
next
  case (Some mt)
  obtain plaintext ttl entry where flight: "in_flight p = Some (plaintext, ttl, entry)"
    using Some by (cases mt) auto
  note fields = submit_finish_fields [OF flight, of pf outcome rnd]
  have "create_requests ws (submit_finish pf outcome rnd p)"
    using inv fields(2)
    by (simp add: create_inv_def create_requests_def fields(3) create_call.finish_wire)
  moreover have "ledger_ok (net (submit_finish pf outcome rnd p))"
    using inv by (simp add: fields(3) create_call.finish_ok create_inv_def)
  ultimately show ?thesis
    using inv fields(1,2,4,5) by (simp add: create_inv_def flight_ok_def)
qed

lemma reset_document_ok: "document_ok (presets (reset_expiry f)) \<longleftrightarrow> document_ok (presets f)"
  unfolding document_ok_def reset_expiry_def only_index_def by (simp add: set_conv_ex)

lemma reset_at_most_one:
  "document_ok (presets f) \<Longrightarrow> at_most_one_checked (presets (reset_expiry f))"
  by (auto simp: document_ok_def reset_expiry_def only_index_def at_most_one_checked_def)

lemma new_note_inv:
  assumes inv: "create_inv ws p"
  shows "create_inv ws (new_note pf p)"
proof (cases "result_hidden p")
  case False
  have doc: "document_ok (presets (form p))" using inv by (simp add: create_inv_def)
  obtain f where f: "configureExpiryOptions (max_ttl p) (reset_expiry (form p)) = Inr f"
    "document_ok (presets f)" "choices_ok (max_ttl p) (presets f)"
    using configure_ok [of "reset_expiry (form p)"] reset_document_ok reset_at_most_one doc by blast
  with inv False show ?thesis
    by (simp add: new_note_def set_page_status_def create_inv_def create_requests_def flight_ok_def)
qed (use inv in \<open>simp add: new_note_def\<close>)

lemma choose_preset_inv:
  assumes inv: "create_inv ws p"
  shows "create_inv ws (choose_preset k p)"
proof (cases "k < length (presets (form p)) \<and> \<not> p_disabled (presets (form p) ! k)")
  case True
  with inv choices_ok_check_radio [of k "presets (form p)" "max_ttl p"] show ?thesis
    by (simp add: choose_preset_def create_inv_def create_requests_def flight_ok_def choices_ok_def)
qed (use inv in \<open>auto simp: choose_preset_def\<close>)

lemma create_step_inv:
  assumes inv: "create_inv ws p"
  shows "create_inv ws (create_step pf p e)"
proof (cases e)
  case (TypeMessage m)
  with inv show ?thesis by (auto simp: create_step_def type_message_def intro: create_inv_cong)
next
  case (TypeCustom n)
  with inv show ?thesis by (auto simp: create_step_def type_custom_def intro: create_inv_cong)
next
  case (CopyLink cb)
  have "presets (form (copy_share_url cb p)) = presets (form p)" "net (copy_share_url cb p) = net p"
    "max_ttl (copy_share_url cb p) = max_ttl p" "in_flight (copy_share_url cb p) = in_flight p"
    "submit_disabled (copy_share_url cb p) = submit_disabled p"
    by (simp_all add: copy_share_url_def set_page_status_def Let_def split_beta split: sum.split)
  with CopyLink inv show ?thesis by (auto simp: create_step_def intro: create_inv_cong)
next
  case CopyTimer
  with inv show ?thesis by (auto simp: create_step_def intro: create_inv_cong)
qed (use inv in \<open>simp_all add: create_step_def choose_preset_inv submit_start_inv submit_finish_inv
      new_note_inv\<close>)

interpretation create_machine: machine "create_step pf" "create_init ws" "create_inv ws"
  for pf ws
  by unfold_locales (blast intro: create_init_inv create_step_inv)+

end
