(* ===== verification/KeyGen.thy ===== *)
theory KeyGen
  imports CryptoJs
begin

text \<open>
  \<open>generateKey\<close> of \<open>handlers/handlers.go\<close> and the PEM writer of Go's \<open>encoding/pem\<close> it calls. RSA key
  generation and the two DER marshallers are the platform's: their results are arguments. The
  last section proves that the browser's PEM reader undoes Go's writer for both block types the
  program uses.
\<close>

section \<open>The PEM writer\<close>

text \<open>Lines of 64 characters, each ended by a newline.\<close>

function break64 :: "jsstring \<Rightarrow> jsstring" where
  "break64 s = (if s = [] then [] else take 64 s @ [10] @ break64 (drop 64 s))"
  by pat_completeness auto
termination
  by (relation "measure length") auto

declare break64.simps [simp del]

definition pem_encode :: "jsstring \<Rightarrow> bytes \<Rightarrow> jsstring" where
  "pem_encode label der =
     begin_marker label @ [10] @ break64 (b64_encode der) @ end_marker label @ [10]"

text \<open>
  The arguments are what \<open>rsa.GenerateKey\<close>, \<open>x509.MarshalPKCS8PrivateKey\<close> and
  \<open>x509.MarshalPKIXPublicKey\<close> return; \<open>None\<close> is an error. The result is (public, private).
\<close>

definition generateKey ::
  "'key option \<Rightarrow> ('key \<Rightarrow> bytes option) \<Rightarrow> ('key \<Rightarrow> bytes option) \<Rightarrow> (jsstring \<times> jsstring) option"
where
  "generateKey key marshalPKCS8 marshalPKIX =
     (case key of
        None \<Rightarrow> None
      | Some k \<Rightarrow>
          (case marshalPKCS8 k of
             None \<Rightarrow> None
           | Some privBytes \<Rightarrow>
               (case marshalPKIX k of
                  None \<Rightarrow> None
                | Some pubBytes \<Rightarrow>
                    Some (pem_encode (js ''PUBLIC KEY'') pubBytes,
                          pem_encode (js ''PRIVATE KEY'') privBytes))))"

section \<open>The browser reads what the server writes\<close>

lemma break64_chars: "set (break64 s) \<subseteq> insert 10 (set s)"
proof (induction s rule: break64.induct)
  case (1 s)
  show ?case
    by (subst break64.simps) (use 1 set_take_subset [of 64 s] set_drop_subset [of 64 s] in auto)
qed

lemma break64_remove_spaces:
  "list_all (\<lambda>u. \<not> is_space u) s \<Longrightarrow> remove_spaces (break64 s) = s"
proof (induction s rule: break64.induct)
  case (1 s)
  have "remove_spaces (take 64 s) = take 64 s"
    using "1.prems" by (auto simp: remove_spaces_def list_all_iff dest: in_set_takeD intro!: filter_True)
  moreover have "s \<noteq> [] \<Longrightarrow> remove_spaces (break64 (drop 64 s)) = drop 64 s"
    using 1 by (auto simp: list_all_iff dest: in_set_dropD)
  ultimately show ?case
    by (subst break64.simps) (simp add: remove_spaces_def is_space_def)
qed

lemma b64_encode_chars: "u \<in> set (b64_encode bs) \<Longrightarrow> u \<noteq> 45 \<and> \<not> is_space u"
  by (auto simp: b64_encode_sextets padding_def)

lemma body_no_dash: "(45 :: code_unit) \<notin> set (10 # break64 (b64_encode der))"
  using break64_chars [of "b64_encode der"] b64_encode_chars by fastforce

text \<open>
  The end marker is not found before the body's end: not inside the begin marker (checked on its
  letters) and not in the body, which has no dash.
\<close>

lemma index_of_end_marker:
  assumes skip: "index_of (end_marker label) (begin_marker label @ 10 # t) =
      map_option ((+) (length (begin_marker label))) (index_of (end_marker label) (10 # t))"
    and dash: "(45 :: code_unit) \<notin> set (10 # body)" and t: "t = body @ end_marker label @ rest"
  shows "index_of (end_marker label) (begin_marker label @ 10 # t) =
      Some (length (begin_marker label) + Suc (length body))"
proof -
  have hd: "hd (end_marker label) = 45" and ne: "end_marker label \<noteq> []"
    by (simp_all add: end_marker_def js_simps)
  have "index_of (end_marker label) ((10 # body) @ end_marker label @ rest) =
      Some (length (10 # body))"
    using dash index_of_prefix [of "end_marker label" "end_marker label @ rest"]
    by (subst index_of_skip) (simp_all add: hd ne)
  with skip t show ?thesis by simp
qed

lemma pemToBytes_pem_encode:
  assumes skip: "\<And>t. index_of (end_marker label) (begin_marker label @ 10 # t) =
      map_option ((+) (length (begin_marker label))) (index_of (end_marker label) (10 # t))"
    and der: "der \<noteq> []"
  shows "pemToBytes (pem_encode label der) label = Inr der"
proof -
  let ?b = "begin_marker label" and ?body = "break64 (b64_encode der)"
  have pem: "pem_encode label der = ?b @ 10 # ?body @ end_marker label @ [10]"
    by (simp add: pem_encode_def)
  have e: "index_of (end_marker label) (pem_encode label der) = Some (length ?b + Suc (length ?body))"
    unfolding pem by (rule index_of_end_marker [OF skip body_no_dash refl])
  have b: "index_of ?b (pem_encode label der) = Some 0"
    unfolding pem by (rule index_of_prefix) simp
  have "slice (length ?b) (length ?b + Suc (length ?body)) (pem_encode label der) = 10 # ?body"
    unfolding pem using slice_middle [of "length ?b" ?b _ "10 # ?body" "end_marker label @ [10]"]
    by simp
  moreover have "remove_spaces (10 # ?body) = b64_encode der"
    using break64_remove_spaces [of "b64_encode der"] b64_encode_chars
    by (simp add: remove_spaces_def is_space_def list_all_iff)
  ultimately show ?thesis
    using der by (simp add: pemToBytes_def b e base64ToBytes_b64_encode)
qed

text \<open>The two labels of the program.\<close>

lemma public_skip:
  "index_of (end_marker (js ''PUBLIC KEY'')) (begin_marker (js ''PUBLIC KEY'') @ 10 # t) =
     map_option ((+) (length (begin_marker (js ''PUBLIC KEY''))))
       (index_of (end_marker (js ''PUBLIC KEY'')) (10 # t))"
  by (simp add: begin_marker_def end_marker_def js_simps option.map_comp o_def)

lemma private_skip:
  "index_of (end_marker (js ''PRIVATE KEY'')) (begin_marker (js ''PRIVATE KEY'') @ 10 # t) =
     map_option ((+) (length (begin_marker (js ''PRIVATE KEY''))))
       (index_of (end_marker (js ''PRIVATE KEY'')) (10 # t))"
  by (simp add: begin_marker_def end_marker_def js_simps option.map_comp o_def)

interpretation public_pem: codec "pem_encode (js ''PUBLIC KEY'')"
  "\<lambda>s. pemToBytes s (js ''PUBLIC KEY'')" "\<lambda>der. der \<noteq> []"
  by unfold_locales (rule pemToBytes_pem_encode [OF public_skip])

interpretation private_pem: codec "pem_encode (js ''PRIVATE KEY'')"
  "\<lambda>s. pemToBytes s (js ''PRIVATE KEY'')" "\<lambda>der. der \<noteq> []"
  by unfold_locales (rule pemToBytes_pem_encode [OF private_skip])

section \<open>Properties\<close>

text \<open>The key pair the server generates reaches the browser: when \<open>generateKey\<close> succeeds, \<open>pemToBytes\<close>
  reads from its two PEM texts exactly the DER bytes of the public and of the private key.\<close>
theorem generated_keys_readable:
  assumes "generateKey key marshalPKCS8 marshalPKIX = Some (pubPem, privPem)"
    and "key = Some k" and "marshalPKCS8 k = Some privDer" and "marshalPKIX k = Some pubDer"
    and "privDer \<noteq> []" and "pubDer \<noteq> []"
  shows "pemToBytes pubPem (js ''PUBLIC KEY'') = Inr pubDer \<and>
     pemToBytes privPem (js ''PRIVATE KEY'') = Inr privDer"
  using assms public_pem.dec_enc [OF assms(6)] private_pem.dec_enc [OF assms(5)]
  by (simp add: generateKey_def)

theorem generated_keys_readable_witness:
  "pemToBytes (pem_encode (js ''PUBLIC KEY'') [48, 130]) (js ''PUBLIC KEY'') = Inr [48, 130] \<and>
   pemToBytes (pem_encode (js ''PRIVATE KEY'') [48]) (js ''PRIVATE KEY'') = Inr [48]"
  by (rule generated_keys_readable [of "Some ()" "\<lambda>_. Some [48]" "\<lambda>_. Some [48, 130]"])
     (simp_all add: generateKey_def)

end
