(* ===== verification/CreateSpec.thy ===== *)
theory CreateSpec
  imports CreatePage KeyGen
begin

text \<open>
  What the create page promises, over every run of \<open>create_step\<close> and for each of its handlers. The
  example page is the form of \<open>templates/create.html\<close>.
\<close>

section \<open>An example page\<close>

definition radio :: "preset_value \<Rightarrow> bool \<Rightarrow> preset" where
  "radio v d = \<lparr>p_value = v, p_default = d, p_checked = d, p_disabled = False\<rparr>"

definition template_form :: expiry_form where
  "template_form =
     \<lparr>presets = [radio (SecondsValue 3600) False, radio (SecondsValue 86400) True,
        radio (SecondsValue 604800) False, radio CustomValue False],
      custom_value = Whole 60, custom_max = 10080, custom_disabled = True, custom_hidden = True\<rparr>"

definition template_page :: create_page where
  "template_page =
     \<lparr>form = template_form, message = [], message_meta = js ''Short notes make short links.'',
      page_status = setStatus (js ''Ready.'') Idle, result_hidden = True, share_url = [], open_href = [],
      result_expiry = [], result_anatomy = None, qr_code = QREmpty, submit_disabled = False,
      size_warning = \<lparr>show_modal = True, return_value = [], warning_text = []\<rparr>,
      copy_link = \<lparr>label = js ''Copy link'', copied = False, timers = []\<rparr>,
      native_share_hidden = True,
      net = \<lparr>has_ledger = False, entries = [], wire = [page_request (js ''/'')]\<rparr>,
      max_ttl = 0, in_flight = None\<rparr>"

definition template_platform :: "(unit, unit, unit) platform" where
  "template_platform =
     \<lparr>locale_number = decimal, page_origin = js ''https://kb.example'', arg_limit = 0x8000,
      crypto = plain_crypto, platform_message = (\<lambda>_. js ''error''), qr_library = (\<lambda>_. QRDraws)\<rparr>"

lemma four_index:
  "only_index P [a, b, c, d] 1 \<longleftrightarrow> \<not> P a \<and> P b \<and> \<not> P c \<and> \<not> P d"
  by (auto simp: only_index_def All_less_Suc)

lemma only_index_at_most_one: "only_index p_checked ps k \<Longrightarrow> at_most_one_checked ps"
  by (auto simp: only_index_def at_most_one_checked_def)

lemma template_document: "document_ok (presets template_form)" "at_most_one_checked (presets template_form)"
proof -
  have "only_index p_default (presets template_form) 1" and c: "only_index p_checked (presets template_form) 1"
    by (simp_all add: template_form_def radio_def four_index del: One_nat_def)
  then show "document_ok (presets template_form)"
    unfolding document_ok_def by (intro conjI exI [of _ 1]) (auto simp: template_form_def radio_def)
  show "at_most_one_checked (presets template_form)"
    by (rule only_index_at_most_one [OF c])
qed

definition started_page :: create_page where
  "started_page = template_page\<lparr>max_ttl := 604800\<rparr>"

lemma started_by_template:
  "attr = None \<or> attr = Some 604800 \<Longrightarrow> init_create_page attr False template_page = Inr started_page"
  by (auto simp add: init_create_page_def page_max_ttl_def maxTTLSeconds_def configureExpiryOptions_def
      template_page_def template_form_def radio_def disable_preset_def num_gt_def syncCustomInput_def
      isCustomSelected_def started_page_def Let_def)

lemma template_net:
  "form template_page = template_form" "ledger_ok (net template_page)"
  "wire (net template_page) = [page_request (js ''/'')]" "\<not> submit_disabled template_page"
  "in_flight template_page = None"
  by (simp_all add: template_page_def ledger_ok_def)

lemma started_init: "create_init [page_request (js ''/'')] started_page"
proof -
  have "init_create_page None False template_page = Inr started_page" by (simp add: started_by_template)
  then show ?thesis
    unfolding create_init_def using template_document template_net by metis
qed

text \<open>The success branch of the submit handler.\<close>

lemma submit_finish_shows:
  assumes "in_flight p = Some (plaintext, ttl, entry)" and "response_ok resp" and "body_json resp = Inr key"
    and "encryptMessage (arg_limit pf) (crypto pf) rnd (reply_pub key) plaintext = Some (Inr enc)"
    and "link_values enc" and "hex_id (reply_id key)" and "origin_ok (page_origin pf)"
    and "q = create_step pf p (Reply (Some resp) rnd)"
  shows "buildShareURL (page_origin pf) (reply_id key) enc = Inr (share_url q) \<and> open_href q = share_url q \<and>
     \<not> result_hidden q \<and>
     map_option anatomy_path (result_anatomy q) = Some (page_origin pf @ js ''/share/'' @ reply_id key) \<and>
     map_option anatomy_fragment (result_anatomy q) = Some (35 # link_fragment enc) \<and>
     result_expiry q = js ''It opens once, and expires in '' @ formatDuration (locale_number pf) ttl @
       js '' if nobody opens it.'' \<and>
     page_status q = setStatus (if qr_library pf (share_url q) = QRDraws
       then js ''Link generated. Your message never left this browser; it is encrypted inside the link.''
       else js ''Link generated. This link is too long for a QR code, so copy the share URL instead.'') Success"
proof -
  obtain link where link: "buildShareURL (page_origin pf) (reply_id key) enc = Inr link"
    "parse_url link = Inr \<lparr>url_origin = page_origin pf, url_pathname = js ''/share/'' @ reply_id key,
       url_search = [], url_hash = 35 # link_fragment enc\<rparr>"
    using built_link_parts [OF assms(7,6,5)] by blast
  have reply: "snd (createKey_finish entry (Some resp) (net p)) = Inr key"
    using assms(2,3) by (simp add: createKey_finish_def send_finish_def split_beta Let_def)
  have anatomy: "\<exists>a. renderAnatomy (locale_number pf) link = Inr a \<and>
      anatomy_path a = page_origin pf @ js ''/share/'' @ reply_id key \<and>
      anatomy_fragment a = 35 # link_fragment enc"
    by (simp add: renderAnatomy_def splitShareURL_def link(2))
  have q: "q = (show_link pf ttl link (p\<lparr>net := fst (createKey_finish entry (Some resp) (net p))\<rparr>))
      \<lparr>submit_disabled := False, in_flight := None\<rparr>"
    using assms(1,4) reply link(1) by (simp add: assms(8) create_step_def submit_finish_def split_beta Let_def)
  from anatomy link(1) show ?thesis
    by (cases "qr_library pf link")
       (auto simp: q show_link_def renderQRCode_def set_page_status_def success_message_def)
qed

section \<open>Properties\<close>

text \<open>C6: Whatever the user, the server and the random numbers do on the create page, the only requests it
  sends after loading are key requests whose whole content is one number: an expiry between 60 seconds and
  the page's maximum. The message, the keys and the ciphertext never leave the browser.\<close>
theorem create_page_sends:
  assumes "create_init ws p"
  shows "\<exists>ttls. wire (net (foldl (create_step pf) p es)) = ws @ map create_request ttls \<and>
     (\<forall>t \<in> set ttls. 60 \<le> t \<and> t \<le> max_ttl (foldl (create_step pf) p es))"
  using create_machine.inv_run [OF assms, of pf es] unfolding create_inv_def create_requests_def by blast

theorem create_page_sends_witness:
  "\<exists>ttls. wire (net (foldl (create_step template_platform) started_page
      [TypeMessage (js ''secret''), Submit True Dismissed])) =
    [page_request (js ''/'')] @ map create_request ttls \<and>
    (\<forall>t \<in> set ttls. 60 \<le> t \<and> t \<le> max_ttl (foldl (create_step template_platform) started_page
      [TypeMessage (js ''secret''), Submit True Dismissed]))"
  by (rule create_page_sends [OF started_init])

text \<open>C21: In every reachable state of the create page exactly one expiry choice is checked and it is
  enabled, a preset is disabled exactly when it is longer than the server allows, the submit button is
  disabled exactly while a request is under way, and the ledger lists exactly the requests sent.\<close>
theorem create_page_states:
  assumes "create_init ws p" and "q = foldl (create_step pf) p es"
  shows "(\<exists>k. only_index p_checked (presets (form q)) k \<and> \<not> p_disabled (presets (form q) ! k)) \<and>
     (\<forall>c \<in> set (presets (form q)). \<forall>n. p_value c = SecondsValue n \<longrightarrow> p_disabled c = (max_ttl q < n)) \<and>
     (submit_disabled q \<longleftrightarrow> in_flight q \<noteq> None) \<and> ledger_ok (net q)"
  using create_machine.inv_run [OF assms(1), of pf es]
  unfolding assms(2) [symmetric] create_inv_def choices_ok_def flight_ok_def by blast

theorem create_page_states_witness:
  "\<exists>k. only_index p_checked (presets (form (foldl (create_step template_platform) started_page
      [ChoosePreset 3, TypeCustom NaN]))) k"
  using create_page_states [OF started_init refl, of template_platform "[ChoosePreset 3, TypeCustom NaN]"]
  by blast

lemma num_gt_whole: "num_gt (Whole (int n)) n = False"
  by (simp add: num_gt_def)

text \<open>Setting up the expiry controls for a server limit always works on the template's kind of form:
  afterwards one enabled choice is checked, presets over the limit are disabled, and the custom input is
  capped at the limit in minutes.\<close>
theorem expiry_options_configured:
  assumes "document_ok (presets f)" and "at_most_one_checked (presets f)"
  shows "\<exists>f'. configureExpiryOptions maxTTL f = Inr f' \<and> choices_ok maxTTL (presets f') \<and>
     custom_max f' = max 1 (maxTTL div 60) \<and> \<not> num_gt (custom_value f') (custom_max f')"
proof -
  obtain f' where f': "configureExpiryOptions maxTTL f = Inr f'" "choices_ok maxTTL (presets f')"
    by (rule configure_ok [OF assms])
  moreover have "custom_max f' = max 1 (maxTTL div 60) \<and> \<not> num_gt (custom_value f') (custom_max f')"
    using f'(1) num_gt_whole
    by (auto simp: configureExpiryOptions_def Let_def split: if_splits option.splits)
  ultimately show ?thesis by blast
qed

theorem expiry_options_configured_witness:
  "\<exists>f'. configureExpiryOptions 7200 template_form = Inr f' \<and> choices_ok 7200 (presets f') \<and>
     custom_max f' = max 1 (7200 div 60) \<and> \<not> num_gt (custom_value f') (custom_max f')"
  by (rule expiry_options_configured [OF template_document])

text \<open>The expiry the page sends is one the server accepts: whatever choice is made and whatever is in
  the custom input, a result of \<open>selectedTTL\<close> is between 60 seconds and the page's limit, and the limit
  the page takes from its configuration is between 60 seconds and seven days.\<close>
theorem selected_expiry_in_range:
  assumes "selectedTTL loc f (page_max_ttl configured) = Inr ttl" and "document_ok (presets f)"
  shows "60 \<le> ttl \<and> ttl \<le> page_max_ttl configured \<and> page_max_ttl configured \<le> 604800"
  using selectedTTL_range [OF assms(1) _ assms(2)] page_max_ttl_range [of configured]
  by (simp add: maxTTLSeconds_def)

theorem selected_expiry_in_range_witness:
  "60 \<le> (86400 :: nat) \<and> 86400 \<le> page_max_ttl (Some 90000) \<and> page_max_ttl (Some 90000) \<le> 604800"
proof (rule selected_expiry_in_range [OF _ template_document(1)])
  show "selectedTTL decimal template_form (page_max_ttl (Some 90000)) = Inr 86400"
    by (simp add: selectedTTL_def template_form_def radio_def page_max_ttl_def maxTTLSeconds_def)
qed

text \<open>C34: A submit never leaves the page stuck: whatever the server answers, and whatever Web Crypto does,
  the handler finishes, the button is enabled again, and the form and its limit are as before.\<close>
theorem submit_finishes:
  assumes "in_flight p = Some (plaintext, ttl, entry)" and "q = create_step pf p (Reply outcome rnd)"
  shows "\<not> submit_disabled q \<and> in_flight q = None \<and> presets (form q) = presets (form p) \<and>
     max_ttl q = max_ttl p \<and> wire (net q) = wire (net p)"
  using submit_finish_fields [OF assms(1), of pf outcome rnd]
  by (simp add: assms(2) create_step_def create_call.finish_wire)

theorem submit_finishes_witness:
  "\<not> submit_disabled (create_step template_platform
     (started_page\<lparr>submit_disabled := True, in_flight := Some (js ''secret'', 3600, None)\<rparr>)
     (Reply None \<lparr>fresh_aes = (), fresh_iv = [], oaep_seed = []\<rparr>))"
proof -
  have "in_flight (started_page\<lparr>submit_disabled := True, in_flight := Some (js ''secret'', 3600, None)\<rparr>) =
      Some (js ''secret'', 3600, None)"
    by simp
  from submit_finishes [OF this refl] show ?thesis by (rule conjunct1)
qed

text \<open>A second submit while the first waits for the server does nothing.\<close>
theorem double_submit_ignored:
  assumes "create_init ws p" and "q = foldl (create_step pf) p es" and "in_flight q \<noteq> None"
  shows "create_step pf q (Submit windowConfirm close) = q"
  using create_machine.inv_run [OF assms(1), of pf es] assms(3)
  unfolding assms(2) [symmetric] by (simp add: create_inv_def flight_ok_def create_step_def)

lemma started_submit:
  "in_flight (foldl (create_step template_platform) started_page
     [TypeMessage (js ''secret''), Submit True Dismissed]) \<noteq> None"
proof -
  let ?p = "create_step template_platform started_page (TypeMessage (js ''secret''))"
  have p: "message ?p = js ''secret''" "form ?p = template_form" "max_ttl ?p = 604800" "\<not> submit_disabled ?p"
    by (simp_all add: create_step_def type_message_def started_page_def template_page_def)
  have "selectedTTL (locale_number template_platform) (form ?p) (max_ttl ?p) = Inr 86400"
    by (simp add: p selectedTTL_def template_form_def radio_def)
  moreover have "trim (message ?p) \<noteq> []" unfolding p by (simp add: trim_def is_space_def js_simps)
  moreover have "\<not> softPlaintextLimitBytes < byteLength (message ?p)"
    unfolding p by (simp add: byteLength_def softPlaintextLimitBytes_def text_encode_ascii ascii_def js_simps)
  ultimately show ?thesis
    using p(4) by (simp add: create_step_def [of _ _ "Submit _ _"] submit_start_def set_page_status_def Let_def
        split_beta)
qed

theorem double_submit_ignored_witness:
  "create_step template_platform (foldl (create_step template_platform) started_page
     [TypeMessage (js ''secret''), Submit True Dismissed]) (Submit True Dismissed) =
   foldl (create_step template_platform) started_page [TypeMessage (js ''secret''), Submit True Dismissed]"
  by (rule double_submit_ignored [OF started_init refl started_submit])

text \<open>C37: The size warning's answer is remembered: once it was closed with Continue, dismissing the next
  warning (the Escape key) counts as Continue too, since the dialog keeps its \<open>returnValue\<close>.\<close>
theorem dismissed_warning_confirms:
  assumes "show_modal d"
  shows "snd (confirmLargeMessage loc windowConfirm Dismissed n'
     (fst (confirmLargeMessage loc windowConfirm (ClosedWith (js ''confirm'')) n d)))"
  using assms by (simp add: confirmLargeMessage_def close_dialog_def Let_def)

theorem dismissed_warning_confirms_witness:
  "snd (confirmLargeMessage decimal False Dismissed 200000 (fst (confirmLargeMessage decimal False
     (ClosedWith (js ''confirm'')) 200000 (size_warning template_page))))"
  by (rule dismissed_warning_confirms) (simp add: template_page_def)

text \<open>C33: When the reply and the encryption succeed, the page shows the link \<open>buildShareURL\<close> gives, its
  anatomy split at the fragment, and the expiry that was asked for. If the QR library did not load, the
  status still says that the link is too long for a QR code.\<close>
theorem submit_shows_link:
  assumes "in_flight p = Some (plaintext, ttl, entry)" and "response_ok resp" and "body_json resp = Inr key"
    and "encryptMessage (arg_limit pf) (crypto pf) rnd (reply_pub key) plaintext = Some (Inr enc)"
    and "link_values enc" and "hex_id (reply_id key)" and "origin_ok (page_origin pf)"
    and "q = create_step pf p (Reply (Some resp) rnd)"
  shows "buildShareURL (page_origin pf) (reply_id key) enc = Inr (share_url q) \<and> open_href q = share_url q \<and>
     \<not> result_hidden q \<and>
     map_option anatomy_path (result_anatomy q) = Some (page_origin pf @ js ''/share/'' @ reply_id key) \<and>
     map_option anatomy_fragment (result_anatomy q) = Some (35 # link_fragment enc) \<and>
     result_expiry q = js ''It opens once, and expires in '' @ formatDuration (locale_number pf) ttl @
       js '' if nobody opens it.'' \<and>
     page_status q = setStatus (if qr_library pf (share_url q) = QRDraws
       then js ''Link generated. Your message never left this browser; it is encrypted inside the link.''
       else js ''Link generated. This link is too long for a QR code, so copy the share URL instead.'') Success"
  by (rule submit_finish_shows [OF assms])

definition created_reply :: response where
  "created_reply = \<lparr>status = 201, body_text = Inr [],
     body_json = Inr \<lparr>reply_id = js ''00112233445566778899aabbccddeeff'',
       reply_pub = pem_encode (js ''PUBLIC KEY'') [1]\<rparr>\<rparr>"

definition fixed_randomness :: "unit randomness" where
  "fixed_randomness = \<lparr>fresh_aes = (), fresh_iv = replicate 12 0, oaep_seed = []\<rparr>"

theorem submit_shows_link_witness:
  "\<not> result_hidden (create_step template_platform
     (started_page\<lparr>in_flight := Some (js ''secret'', 3600, None)\<rparr>)
     (Reply (Some created_reply) fixed_randomness))"
proof -
  let ?key = "\<lparr>reply_id = js ''00112233445566778899aabbccddeeff'',
       reply_pub = pem_encode (js ''PUBLIC KEY'') [1]\<rparr>"
  obtain w c where enc: "encryptMessage 0x8000 plain_crypto fixed_randomness (reply_pub ?key) (js ''secret'') =
      Some (Inr \<lparr>wrapped = b64url w, iv = b64url (fresh_iv fixed_randomness), ct = b64url c\<rparr>)"
    and len: "length w = 512" "length c = length (text_encode (js ''secret'')) + 16"
    by (rule encrypt_decrypt [OF plain_crypto_ok, where lim = "0x8000" and rnd = fixed_randomness
          and pubPem = "pem_encode (js ''PUBLIC KEY'') [1]" and privPem = "pem_encode (js ''PRIVATE KEY'') [1]"
          and plaintext = "js ''secret''" and pubDer = "[1]" and privDer = "[1]"])
       (auto simp: fixed_randomness_def public_pem.dec_enc private_pem.dec_enc)
  have vals: "link_values \<lparr>wrapped = b64url w, iv = b64url (fresh_iv fixed_randomness), ct = b64url c\<rparr>"
    using len by (auto simp: link_values_def fixed_randomness_def)
  have origin: "origin_ok (page_origin template_platform)"
    unfolding origin_ok_def by (intro exI [of _ "js ''kb.example''"]) (simp add: template_platform_def js_simps)
  have hex: "hex_id (reply_id ?key)" by (simp add: hex_id_def js_simps)
  have flight: "in_flight (started_page\<lparr>in_flight := Some (js ''secret'', 3600, None)\<rparr>) =
      Some (js ''secret'', 3600, None)" by simp
  have enc': "encryptMessage (arg_limit template_platform) (crypto template_platform) fixed_randomness
      (reply_pub ?key) (js ''secret'') =
      Some (Inr \<lparr>wrapped = b64url w, iv = b64url (fresh_iv fixed_randomness), ct = b64url c\<rparr>)"
    using enc by (simp add: template_platform_def)
  have ok: "response_ok created_reply" "body_json created_reply = Inr ?key"
    by (simp_all add: created_reply_def response_ok_def)
  from submit_shows_link [OF flight ok enc' vals hex origin refl] show ?thesis by blast
qed

end
