(* ===== verification/SharePage.thy ===== *)
theory SharePage
  imports Complex_Main ApiJs
begin

text \<open>
  \<open>static/share.js\<close>, the page that opens a note: a state machine over the card's \<open>data-state\<close>, driven
  by clicks, hash changes, the reply to the key request, the decryption, and the ticks of the
  auto-hide interval. The local variables of \<open>initSharePage\<close> and \<open>reveal\<close> and the parts of the
  document they write are the fields of a record; each handler is a function on it. The click
  handler is three steps, one per \<open>await\<close>, since other events can happen in between. Times are
  milliseconds, and a button that is disabled or hidden gets no clicks.
\<close>

section \<open>The page\<close>

datatype card_state = Ready | Fetching | Opened | Spent | Invalid

text \<open>\<open>Fetching\<close> is the state the code calls \<open>working\<close>; this is where its handler is suspended.\<close>

datatype pending = Resting | AwaitKey "nat option" | AwaitPlaintext jsstring

datatype bar_state = BarIdle | BarRunning | BarStopped

record countdown =
  count_text :: jsstring
  count_infinite :: bool
  count_label :: jsstring
  count_unit :: jsstring

record share_page =
  share_id :: jsstring
  auto_hide :: nat
  ready_message :: jsstring
  href :: jsstring
  card :: card_state
  decrypt_disabled :: bool
  share_status :: status_line
  fragment :: "encrypted option"
  share_anatomy :: "anatomy option"
  suspended :: pending
  plaintext_out :: jsstring
  plaintext_hidden :: bool
  hide_timer :: "nat option"
  countdown :: countdown
  bar :: bar_state
  keep_hidden :: bool
  keep_disabled :: bool
  keep_text :: jsstring
  copy_plain :: copy_button
  share_net :: page_net

text \<open>\<open>window.location.hash\<close>.\<close>

definition location_hash :: "jsstring \<Rightarrow> jsstring" where
  "location_hash h = (case parse_url h of Inl _ \<Rightarrow> [] | Inr u \<Rightarrow> url_hash u)"

text \<open>\<open>Number(root.dataset.autohideSeconds) || 60\<close>; \<open>None\<close> is not a number.\<close>

definition auto_hide_seconds :: "nat option \<Rightarrow> nat" where
  "auto_hide_seconds attr = (case attr of None \<Rightarrow> 60 | Some n \<Rightarrow> if n = 0 then 60 else n)"

text \<open>\<open>error.message\<close>, with the text of the platform's own exceptions as a parameter.\<close>

definition message_of :: "(js_error \<Rightarrow> jsstring) \<Rightarrow> js_error \<Rightarrow> jsstring" where
  "message_of platform e = (case e of JsError m \<Rightarrow> m | _ \<Rightarrow> platform e)"

section \<open>Handlers\<close>

definition setState :: "card_state \<Rightarrow> share_page \<Rightarrow> share_page" where
  "setState state p = p\<lparr>card := state, decrypt_disabled := (state \<noteq> Ready)\<rparr>"

definition set_share_status :: "jsstring \<Rightarrow> status_kind \<Rightarrow> share_page \<Rightarrow> share_page" where
  "set_share_status m k p = p\<lparr>share_status := setStatus m k\<rparr>"

text \<open>\<open>renderAnatomy\<close> stands before the \<open>try\<close>: when it throws, the handler stops there.\<close>

definition inspectLink ::
  "(nat \<Rightarrow> jsstring) \<Rightarrow> (js_error \<Rightarrow> jsstring) \<Rightarrow> share_page \<Rightarrow> share_page"
where
  "inspectLink loc platform p =
     (case renderAnatomy loc (href p) of
        Inl _ \<Rightarrow> p
      | Inr a \<Rightarrow>
          (let p1 = p\<lparr>share_anatomy := Some a\<rparr>
           in case parseFragment (location_hash (href p)) of
                Inr f \<Rightarrow> set_share_status (ready_message p) Idle (setState Ready (p1\<lparr>fragment := Some f\<rparr>))
              | Inl e \<Rightarrow> set_share_status (message_of platform e) Failure
                           (setState Invalid (p1\<lparr>fragment := None\<rparr>))))"

definition hash_change ::
  "(nat \<Rightarrow> jsstring) \<Rightarrow> (js_error \<Rightarrow> jsstring) \<Rightarrow> jsstring \<Rightarrow> share_page \<Rightarrow> share_page"
where
  "hash_change loc platform h p =
     (let p1 = p\<lparr>href := h\<rparr>
      in if card p = Ready \<or> card p = Invalid then inspectLink loc platform p1 else p1)"

definition fetching_message :: jsstring where
  "fetching_message = js ''Fetching the one-time private key'' @ [0x2026]"

text \<open>The click handler up to its first wait; the guard is the handler's own early return.\<close>

definition decrypt_click :: "(js_error \<Rightarrow> jsstring) \<Rightarrow> share_page \<Rightarrow> share_page" where
  "decrypt_click platform p =
     (if decrypt_disabled p then p
      else if fragment p = None \<or> share_id p = [] then p
      else
        (let p1 = set_share_status fetching_message Working (setState Fetching p)
         in case fetchKey_begin (share_id p) (share_net p) of
              Inl e \<Rightarrow> set_share_status (message_of platform e) Failure (setState Ready p1)
            | Inr (net1, entry) \<Rightarrow> p1\<lparr>share_net := net1, suspended := AwaitKey entry\<rparr>))"

definition spent_message :: jsstring where
  "spent_message = js ''This note has already been opened or expired. If you did not open it yourself, someone else may have: ask the sender for a new link.''"

definition undecryptable_message :: jsstring where
  "undecryptable_message = js ''Unable to decrypt this link. The encrypted fragment may be corrupted or tampered with.''"

definition decrypted_message :: jsstring where
  "decrypted_message = js ''Plaintext decrypted locally. The private key has already been destroyed server-side.''"

definition key_reply_step ::
  "(js_error \<Rightarrow> jsstring) \<Rightarrow> fetch_outcome \<Rightarrow> share_page \<Rightarrow> share_page"
where
  "key_reply_step platform outcome p =
     (case suspended p of
        AwaitKey entry \<Rightarrow>
          (let (net1, r) = fetchKey_finish entry outcome (share_net p);
               p1 = p\<lparr>share_net := net1, suspended := Resting\<rparr>
           in case r of
                Inl e \<Rightarrow> set_share_status (message_of platform e) Failure (setState Ready p1)
              | Inr None \<Rightarrow> set_share_status spent_message Failure (setState Spent p1)
              | Inr (Some privPem) \<Rightarrow> p1\<lparr>suspended := AwaitPlaintext privPem\<rparr>)
      | _ \<Rightarrow> p)"

definition renderRemaining :: "(nat \<Rightarrow> jsstring) \<Rightarrow> nat \<Rightarrow> share_page \<Rightarrow> share_page" where
  "renderRemaining loc seconds p =
     p\<lparr>countdown := \<lparr>count_text = decimal seconds, count_infinite = False,
        count_label = plural loc seconds (js ''second'') @ js '' remaining'',
        count_unit = (if seconds = 1 then js '' second'' else js '' seconds'')\<rparr>\<rparr>"

definition hide :: "(nat \<Rightarrow> jsstring) \<Rightarrow> share_page \<Rightarrow> share_page" where
  "hide loc p =
     set_share_status
       (js ''Plaintext hidden again after '' @ plural loc (auto_hide p) (js ''second'')
          @ js ''. It cannot be shown again: the key no longer exists.'') Success
       (p\<lparr>hide_timer := None, plaintext_out := [], plaintext_hidden := True\<rparr>)"

text \<open>\<open>reveal\<close>: the interval is set, then the plaintext and its controls are shown.\<close>

definition reveal :: "(nat \<Rightarrow> jsstring) \<Rightarrow> jsstring \<Rightarrow> nat \<Rightarrow> share_page \<Rightarrow> share_page" where
  "reveal loc plaintext now p =
     (renderRemaining loc (auto_hide p)
        (p\<lparr>hide_timer := Some (now + auto_hide p * 1000), plaintext_out := plaintext\<rparr>))
       \<lparr>bar := BarRunning, keep_hidden := False, plaintext_hidden := False\<rparr>"

text \<open>One tick of the interval: \<open>Math.max(0, Math.ceil((hideAt - now) / 1000))\<close> seconds remain.\<close>

definition remaining_seconds :: "nat \<Rightarrow> nat \<Rightarrow> nat" where
  "remaining_seconds hideAt now = (hideAt - now + 999) div 1000"

definition tick :: "(nat \<Rightarrow> jsstring) \<Rightarrow> nat \<Rightarrow> share_page \<Rightarrow> share_page" where
  "tick loc now p =
     (case hide_timer p of
        None \<Rightarrow> p
      | Some hideAt \<Rightarrow>
          (let remaining = remaining_seconds hideAt now; p1 = renderRemaining loc remaining p
           in if remaining = 0 then hide loc p1 else p1))"

text \<open>The \<open>Keep visible\<close> button, inside the result section.\<close>

definition keep_visible :: "share_page \<Rightarrow> share_page" where
  "keep_visible p =
     (if plaintext_hidden p \<or> keep_hidden p \<or> keep_disabled p then p
      else set_share_status (js ''Plaintext will stay visible until you leave or reload this page.'') Success
        (p\<lparr>hide_timer := None,
           countdown := \<lparr>count_text = [0x221E], count_infinite = True,
             count_label = js ''No time limit'', count_unit = js '' seconds''\<rparr>,
           bar := BarStopped, keep_disabled := True,
           keep_text := js ''Visible until you leave this page''\<rparr>))"

definition copy_plaintext :: "clipboard \<Rightarrow> share_page \<Rightarrow> share_page" where
  "copy_plaintext cb p =
     (if plaintext_hidden p then p
      else
        (let (b, r) = copyText cb (copy_plain p); p1 = p\<lparr>copy_plain := b\<rparr>
         in case r of
              Inl e \<Rightarrow> set_share_status (js ''Copy failed. Select the text and copy it manually.'') Failure p1
            | Inr _ \<Rightarrow> p1))"

text \<open>
  The last part of the click handler: \<open>decryptMessage\<close> on the fragment the page holds, inside the
  \<open>try\<close> that turns any exception into the spent state (reading a field of \<open>null\<close> would throw too).
\<close>

definition decrypt_fragment ::
  "('pub, 'priv, 'aes) webcrypto \<Rightarrow> jsstring \<Rightarrow> encrypted option \<Rightarrow> jsstring result"
where
  "decrypt_fragment wc privPem f =
     (case f of
        None \<Rightarrow> Inl TypeError
      | Some e \<Rightarrow> decryptMessage wc privPem (wrapped e) (iv e) (ct e))"

definition decrypted_step ::
  "(nat \<Rightarrow> jsstring) \<Rightarrow> ('pub, 'priv, 'aes) webcrypto \<Rightarrow> nat \<Rightarrow> share_page \<Rightarrow> share_page"
where
  "decrypted_step loc wc now p =
     (case suspended p of
        AwaitPlaintext privPem \<Rightarrow>
          (let p1 = p\<lparr>suspended := Resting\<rparr>
           in case decrypt_fragment wc privPem (fragment p) of
                Inl _ \<Rightarrow> set_share_status undecryptable_message Failure (setState Spent p1)
              | Inr plaintext \<Rightarrow>
                  set_share_status decrypted_message Success
                    (reveal loc plaintext now (setState Opened p1)))
      | _ \<Rightarrow> p)"

text \<open>\<open>initSharePage\<close> on the document the server sent, before the first event.\<close>

definition init_share_page ::
  "(nat \<Rightarrow> jsstring) \<Rightarrow> (js_error \<Rightarrow> jsstring) \<Rightarrow> nat option \<Rightarrow> share_page \<Rightarrow> share_page"
where
  "init_share_page loc platform attr doc =
     inspectLink loc platform
       (doc\<lparr>auto_hide := auto_hide_seconds attr, ready_message := status_text (share_status doc),
            fragment := None, suspended := Resting, hide_timer := None\<rparr>)"

datatype share_event =
    HashChange jsstring
  | DecryptClick
  | KeyReply fetch_outcome
  | Decrypted nat
  | Tick nat
  | KeepVisible
  | CopyPlain clipboard
  | CopyPlainTimer

record ('pub, 'priv, 'aes) share_platform =
  sp_loc :: "nat \<Rightarrow> jsstring"
  sp_message :: "js_error \<Rightarrow> jsstring"
  sp_crypto :: "('pub, 'priv, 'aes) webcrypto"

definition share_step ::
  "('pub, 'priv, 'aes) share_platform \<Rightarrow> share_page \<Rightarrow> share_event \<Rightarrow> share_page"
where
  "share_step pf p e =
     (case e of
        HashChange h \<Rightarrow> hash_change (sp_loc pf) (sp_message pf) h p
      | DecryptClick \<Rightarrow> decrypt_click (sp_message pf) p
      | KeyReply outcome \<Rightarrow> key_reply_step (sp_message pf) outcome p
      | Decrypted now \<Rightarrow> decrypted_step (sp_loc pf) (sp_crypto pf) now p
      | Tick now \<Rightarrow> tick (sp_loc pf) now p
      | KeepVisible \<Rightarrow> keep_visible p
      | CopyPlain cb \<Rightarrow> copy_plaintext cb p
      | CopyPlainTimer \<Rightarrow> p\<lparr>copy_plain := restore_label (copy_plain p)\<rparr>)"

section \<open>Every run of the page\<close>

text \<open>
  How the local variables agree: the button is enabled exactly in the ready state, the click
  handler is suspended exactly in the working state, a link that passed the check is at hand in
  both, and plaintext exists only in the open state.
\<close>

definition card_ok :: "share_page \<Rightarrow> bool" where
  "card_ok p \<longleftrightarrow>
     (decrypt_disabled p \<longleftrightarrow> card p \<noteq> Ready) \<and>
     (suspended p = Resting \<longleftrightarrow> card p \<noteq> Fetching) \<and>
     (card p \<in> {Ready, Fetching} \<longrightarrow> (\<exists>f. fragment p = Some f \<and> link_values f)) \<and>
     (card p = Invalid \<longrightarrow> fragment p = None)"

definition plaintext_ok :: "share_page \<Rightarrow> bool" where
  "plaintext_ok p \<longleftrightarrow>
     (card p \<noteq> Opened \<longrightarrow> plaintext_hidden p) \<and>
     (plaintext_hidden p \<longrightarrow> plaintext_out p = [] \<and> hide_timer p = None)"

text \<open>Whatever was sent after the start is the request for this page's key.\<close>

definition key_requests :: "request list \<Rightarrow> share_page \<Rightarrow> bool" where
  "key_requests ws p \<longleftrightarrow>
     (\<exists>rs. wire (share_net p) = ws @ rs \<and>
        (\<forall>r \<in> set rs. \<exists>eid. encodeURIComponent (share_id p) = Inr eid \<and> r = fetch_request eid))"

definition share_inv :: "jsstring \<Rightarrow> request list \<Rightarrow> share_page \<Rightarrow> bool" where
  "share_inv sid ws p \<longleftrightarrow>
     share_id p = sid \<and> card_ok p \<and> plaintext_ok p \<and> key_requests ws p \<and> ledger_ok (share_net p)"

definition share_init ::
  "('pub, 'priv, 'aes) share_platform \<Rightarrow> jsstring \<Rightarrow> request list \<Rightarrow> share_page \<Rightarrow> bool"
where
  "share_init pf sid ws p \<longleftrightarrow>
     (\<exists>attr doc u. p = init_share_page (sp_loc pf) (sp_message pf) attr doc \<and>
        parse_url (href doc) = Inr u \<and> share_id doc = sid \<and> plaintext_out doc = [] \<and>
        plaintext_hidden doc \<and> wire (share_net doc) = ws \<and> ledger_ok (share_net doc))"

lemma set_share_status_fields [simp]:
  "share_id (set_share_status m k p) = share_id p" "share_net (set_share_status m k p) = share_net p"
  "card (set_share_status m k p) = card p" "suspended (set_share_status m k p) = suspended p"
  "decrypt_disabled (set_share_status m k p) = decrypt_disabled p"
  "fragment (set_share_status m k p) = fragment p"
  "plaintext_out (set_share_status m k p) = plaintext_out p"
  "plaintext_hidden (set_share_status m k p) = plaintext_hidden p"
  "hide_timer (set_share_status m k p) = hide_timer p"
  "share_status (set_share_status m k p) = setStatus m k"
  "keep_hidden (set_share_status m k p) = keep_hidden p"
  "keep_disabled (set_share_status m k p) = keep_disabled p"
  "auto_hide (set_share_status m k p) = auto_hide p"
  by (simp_all add: set_share_status_def)

lemma setState_fields [simp]:
  "card (setState st p) = st" "decrypt_disabled (setState st p) = (st \<noteq> Ready)"
  "share_id (setState st p) = share_id p" "share_net (setState st p) = share_net p"
  "suspended (setState st p) = suspended p" "fragment (setState st p) = fragment p"
  "plaintext_out (setState st p) = plaintext_out p" "plaintext_hidden (setState st p) = plaintext_hidden p"
  "hide_timer (setState st p) = hide_timer p" "auto_hide (setState st p) = auto_hide p"
  "keep_hidden (setState st p) = keep_hidden p" "keep_disabled (setState st p) = keep_disabled p"
  by (simp_all add: setState_def)

lemma reveal_fields [simp]:
  "card (reveal loc t now p) = card p" "decrypt_disabled (reveal loc t now p) = decrypt_disabled p"
  "share_id (reveal loc t now p) = share_id p" "share_net (reveal loc t now p) = share_net p"
  "suspended (reveal loc t now p) = suspended p" "fragment (reveal loc t now p) = fragment p"
  "plaintext_out (reveal loc t now p) = t" "\<not> plaintext_hidden (reveal loc t now p)"
  "hide_timer (reveal loc t now p) = Some (now + auto_hide p * 1000)"
  "auto_hide (reveal loc t now p) = auto_hide p" "\<not> keep_hidden (reveal loc t now p)"
  "keep_disabled (reveal loc t now p) = keep_disabled p"
  by (simp_all add: reveal_def renderRemaining_def)

lemma renderAnatomy_Inr: "parse_url h = Inr u \<Longrightarrow> \<exists>a. renderAnatomy loc h = Inr a"
  by (simp add: renderAnatomy_def splitShareURL_def)

lemma inspectLink_fields [simp]:
  "share_id (inspectLink loc platform p) = share_id p"
  "share_net (inspectLink loc platform p) = share_net p"
  "plaintext_out (inspectLink loc platform p) = plaintext_out p"
  "plaintext_hidden (inspectLink loc platform p) = plaintext_hidden p"
  "hide_timer (inspectLink loc platform p) = hide_timer p"
  "suspended (inspectLink loc platform p) = suspended p"
  by (simp_all add: inspectLink_def Let_def split: sum.split)

lemma inspectLink_card:
  assumes "renderAnatomy loc (href p) = Inr a"
  shows "(\<exists>f. parseFragment (location_hash (href p)) = Inr f \<and> link_values f \<and>
            card (inspectLink loc platform p) = Ready \<and> \<not> decrypt_disabled (inspectLink loc platform p) \<and>
            fragment (inspectLink loc platform p) = Some f) \<or>
         (\<exists>e. parseFragment (location_hash (href p)) = Inl e \<and>
            card (inspectLink loc platform p) = Invalid \<and> decrypt_disabled (inspectLink loc platform p) \<and>
            fragment (inspectLink loc platform p) = None)"
  using parseFragment_link_values [of "location_hash (href p)"] assms
  by (cases "parseFragment (location_hash (href p))") (auto simp: inspectLink_def Let_def)

lemma key_requests_cong:
  "share_id q = share_id p \<Longrightarrow> wire (share_net q) = wire (share_net p) \<Longrightarrow>
   key_requests ws q = key_requests ws p"
  by (simp add: key_requests_def)

text \<open>The invariant only reads these fields.\<close>

lemma share_inv_keeps:
  assumes "share_inv sid ws p" and "share_id q = share_id p"
    and "wire (share_net q) = wire (share_net p)" and "ledger_ok (share_net q)"
    and "card_ok q" and "plaintext_ok q"
  shows "share_inv sid ws q"
  using assms key_requests_cong [of q p ws] by (simp add: share_inv_def)

lemma share_invD:
  assumes "share_inv sid ws p"
  shows "share_id p = sid" "card_ok p" "plaintext_ok p" "key_requests ws p" "ledger_ok (share_net p)"
  using assms by (simp_all add: share_inv_def)

lemma share_init_inv:
  assumes "share_init pf sid ws p"
  shows "share_inv sid ws p"
proof -
  obtain attr doc u where p: "p = init_share_page (sp_loc pf) (sp_message pf) attr doc"
    and doc: "parse_url (href doc) = Inr u" "share_id doc = sid" "plaintext_out doc = []"
      "plaintext_hidden doc" "wire (share_net doc) = ws" "ledger_ok (share_net doc)"
    using assms unfolding share_init_def by blast
  let ?d = "doc\<lparr>auto_hide := auto_hide_seconds attr, ready_message := status_text (share_status doc),
            fragment := None, suspended := Resting, hide_timer := None\<rparr>"
  have p': "p = inspectLink (sp_loc pf) (sp_message pf) ?d" by (simp add: p init_share_page_def)
  obtain a where "renderAnatomy (sp_loc pf) (href ?d) = Inr a"
    using renderAnatomy_Inr [OF doc(1)] by auto
  from inspectLink_card [OF this, of "sp_message pf"] have "card_ok p" and "card p \<noteq> Opened"
    unfolding p' card_ok_def by auto
  with doc show ?thesis
    by (simp add: p' share_inv_def plaintext_ok_def key_requests_def)
qed

lemma hash_change_inv:
  assumes inv: "share_inv sid ws p"
  shows "share_inv sid ws (hash_change loc platform h p)"
proof (cases "card p = Ready \<or> card p = Invalid")
  case True
  let ?p1 = "p\<lparr>href := h\<rparr>"
  have eq: "hash_change loc platform h p = inspectLink loc platform ?p1"
    using True by (simp add: hash_change_def)
  have rest: "suspended p = Resting" and hid: "plaintext_hidden p"
    using inv True by (auto simp: share_inv_def card_ok_def plaintext_ok_def)
  have "card_ok (inspectLink loc platform ?p1)"
  proof (cases "renderAnatomy loc (href ?p1)")
    case (Inl e)
    with inv show ?thesis by (simp add: inspectLink_def share_inv_def card_ok_def)
  next
    case (Inr a)
    from inspectLink_card [OF this, of platform] rest show ?thesis
      unfolding card_ok_def by auto
  qed
  moreover have "plaintext_ok (inspectLink loc platform ?p1)"
    using hid share_invD(3) [OF inv] by (simp add: plaintext_ok_def)
  ultimately show ?thesis
    using share_invD(5) [OF inv] by (intro share_inv_keeps [OF inv]) (simp_all add: eq)
next
  case False
  with share_invD [OF inv] show ?thesis
    by (intro share_inv_keeps [OF inv]) (simp_all add: hash_change_def card_ok_def plaintext_ok_def)
qed

lemma key_requests_fetch:
  assumes "key_requests ws p" and "encodeURIComponent (share_id p) = Inr eid"
    and "wire (share_net q) = wire (share_net p) @ [fetch_request eid]" and "share_id q = share_id p"
  shows "key_requests ws q"
proof -
  obtain rs where "wire (share_net p) = ws @ rs"
    and "\<forall>r \<in> set rs. \<exists>eid. encodeURIComponent (share_id p) = Inr eid \<and> r = fetch_request eid"
    using assms(1) unfolding key_requests_def by blast
  then have "wire (share_net q) = ws @ (rs @ [fetch_request eid])"
    and "\<forall>r \<in> set (rs @ [fetch_request eid]).
      \<exists>eid. encodeURIComponent (share_id q) = Inr eid \<and> r = fetch_request eid"
    using assms(2-4) by auto
  then show ?thesis unfolding key_requests_def by blast
qed

lemma decrypt_click_idle:
  "decrypt_disabled p \<or> fragment p = None \<or> share_id p = [] \<Longrightarrow> decrypt_click platform p = p"
  by (auto simp: decrypt_click_def)

lemma decrypt_click_unsent:
  assumes "\<not> (decrypt_disabled p \<or> fragment p = None \<or> share_id p = [])"
    and "encodeURIComponent (share_id p) = Inl e"
  shows "decrypt_click platform p = set_share_status (message_of platform e) Failure
    (setState Ready (set_share_status fetching_message Working (setState Fetching p)))"
  using assms by (auto simp: decrypt_click_def fetchKey_begin_def Let_def)

lemma decrypt_click_sent:
  assumes "\<not> (decrypt_disabled p \<or> fragment p = None \<or> share_id p = [])"
    and "encodeURIComponent (share_id p) = Inr eid"
  shows "decrypt_click platform p = (set_share_status fetching_message Working (setState Fetching p))
    \<lparr>share_net := fst (fetchKey_start eid (share_net p)),
      suspended := AwaitKey (snd (fetchKey_start eid (share_net p)))\<rparr>"
  using assms by (auto simp: decrypt_click_def fetchKey_begin_def Let_def split_beta)

lemma decrypt_click_inv:
  assumes inv: "share_inv sid ws p"
  shows "share_inv sid ws (decrypt_click platform p)"
proof (cases "decrypt_disabled p \<or> fragment p = None \<or> share_id p = []")
  case True
  with inv show ?thesis by (simp add: decrypt_click_idle)
next
  case False
  note I = share_invD [OF inv]
  obtain f where f: "fragment p = Some f" "link_values f" and ready: "card p = Ready"
    "suspended p = Resting" "plaintext_hidden p" "plaintext_out p = []" "hide_timer p = None"
    using I(2,3) False by (auto simp: card_ok_def plaintext_ok_def)
  show ?thesis
  proof (cases "encodeURIComponent (share_id p)")
    case (Inl e)
    show ?thesis
      unfolding decrypt_click_unsent [OF False Inl]
      by (rule share_inv_keeps [OF inv]) (simp_all add: I(5) f ready card_ok_def plaintext_ok_def)
  next
    case (Inr eid)
    note q = decrypt_click_sent [OF False Inr, of platform]
    let ?q = "decrypt_click platform p"
    have "wire (share_net ?q) = wire (share_net p) @ [fetch_request eid]" and "share_id ?q = share_id p"
      by (simp_all add: q fetch_call.start_wire)
    then have "key_requests ws ?q" using I(4) Inr key_requests_fetch by blast
    moreover have "ledger_ok (share_net ?q)"
      by (simp add: q I(5) fetch_call.start_ok)
    moreover have "card_ok ?q" "plaintext_ok ?q" "share_id ?q = sid"
      by (simp_all add: q I(1) f ready card_ok_def plaintext_ok_def)
    ultimately show ?thesis by (simp add: share_inv_def)
  qed
qed

lemma key_reply_cases:
  assumes "suspended p = AwaitKey entry"
  obtains (failed) e where "key_reply_step platform outcome p =
      set_share_status (message_of platform e) Failure (setState Ready
        (p\<lparr>share_net := fst (fetchKey_finish entry outcome (share_net p)), suspended := Resting\<rparr>))"
      "snd (fetchKey_finish entry outcome (share_net p)) = Inl e"
  | (gone) "key_reply_step platform outcome p =
      set_share_status spent_message Failure (setState Spent
        (p\<lparr>share_net := fst (fetchKey_finish entry outcome (share_net p)), suspended := Resting\<rparr>))"
      "snd (fetchKey_finish entry outcome (share_net p)) = Inr None"
  | (got) privPem where "key_reply_step platform outcome p =
      p\<lparr>share_net := fst (fetchKey_finish entry outcome (share_net p)),
        suspended := AwaitPlaintext privPem\<rparr>"
      "snd (fetchKey_finish entry outcome (share_net p)) = Inr (Some privPem)"
proof -
  obtain net1 r where nr: "fetchKey_finish entry outcome (share_net p) = (net1, r)" by fastforce
  show thesis
  proof (cases r)
    case (Inl e)
    with nr assms show thesis by (intro failed [of e]) (simp_all add: key_reply_step_def)
  next
    case (Inr k)
    with nr assms gone got show thesis
      by (cases k) (simp_all add: key_reply_step_def)
  qed
qed

lemma key_reply_inv:
  assumes inv: "share_inv sid ws p"
  shows "share_inv sid ws (key_reply_step platform outcome p)"
proof (cases "suspended p")
  case (AwaitKey entry)
  note I = share_invD [OF inv]
  obtain f where f: "fragment p = Some f" "link_values f" "card p = Fetching" "decrypt_disabled p"
    "plaintext_hidden p" "plaintext_out p = []" "hide_timer p = None"
    using I(2,3) AwaitKey by (auto simp: card_ok_def plaintext_ok_def)
  note simps = I(5) f card_ok_def plaintext_ok_def fetch_call.finish_wire fetch_call.finish_ok
  show ?thesis
    by (rule share_inv_keeps [OF inv];
        cases rule: key_reply_cases [OF AwaitKey, of platform outcome]) (simp_all add: simps)
qed (use inv in \<open>simp_all add: key_reply_step_def\<close>)

lemma decrypted_inv:
  assumes inv: "share_inv sid ws p"
  shows "share_inv sid ws (decrypted_step loc wc now p)"
proof (cases "suspended p")
  case (AwaitPlaintext privPem)
  note I = share_invD [OF inv]
  have f: "card p = Fetching" "plaintext_hidden p" "plaintext_out p = []" "hide_timer p = None"
    using I(2,3) AwaitPlaintext by (auto simp: card_ok_def plaintext_ok_def)
  show ?thesis
    by (rule share_inv_keeps [OF inv]; cases "decrypt_fragment wc privPem (fragment p)")
       (simp_all add: AwaitPlaintext I(5) f decrypted_step_def card_ok_def plaintext_ok_def Let_def)
qed (use inv in \<open>simp_all add: decrypted_step_def\<close>)

text \<open>The other handlers leave the link, the card and the network alone.\<close>

lemma card_ok_cong:
  "card q = card p \<Longrightarrow> decrypt_disabled q = decrypt_disabled p \<Longrightarrow> suspended q = suspended p \<Longrightarrow>
   fragment q = fragment p \<Longrightarrow> card_ok q = card_ok p"
  by (simp add: card_ok_def)

definition same_link :: "share_page \<Rightarrow> share_page \<Rightarrow> bool" where
  "same_link p q \<longleftrightarrow>
     share_id q = share_id p \<and> share_net q = share_net p \<and> card q = card p \<and>
     decrypt_disabled q = decrypt_disabled p \<and> suspended q = suspended p \<and> fragment q = fragment p"

lemma share_inv_same_link:
  assumes inv: "share_inv sid ws p" and same: "same_link p q" and "plaintext_ok q"
  shows "share_inv sid ws q"
  using share_invD [OF inv] same assms(3) card_ok_cong [of q p]
  by (intro share_inv_keeps [OF inv]) (simp_all add: same_link_def)

lemma same_link_handlers:
  "same_link p (tick loc now p)" "same_link p (keep_visible p)" "same_link p (copy_plaintext cb p)"
  "same_link p (p\<lparr>copy_plain := b\<rparr>)"
  by (simp_all add: same_link_def tick_def keep_visible_def copy_plaintext_def hide_def renderRemaining_def
      Let_def split: option.split prod.split sum.split)

lemma plaintext_ok_handlers:
  assumes "plaintext_ok p"
  shows "plaintext_ok (tick loc now p)" "plaintext_ok (keep_visible p)"
    "plaintext_ok (copy_plaintext cb p)" "plaintext_ok (p\<lparr>copy_plain := b\<rparr>)"
proof -
  show "plaintext_ok (tick loc now p)"
    using assms by (cases "hide_timer p")
      (auto simp: plaintext_ok_def tick_def hide_def renderRemaining_def Let_def)
  show "plaintext_ok (keep_visible p)"
    using assms by (auto simp: plaintext_ok_def keep_visible_def)
  show "plaintext_ok (copy_plaintext cb p)"
    using assms
    by (cases "copyText cb (copy_plain p)"; cases "snd (copyText cb (copy_plain p))")
       (auto simp: plaintext_ok_def copy_plaintext_def Let_def)
  show "plaintext_ok (p\<lparr>copy_plain := b\<rparr>)" using assms by (simp add: plaintext_ok_def)
qed

lemma quiet_handlers_inv:
  assumes "share_inv sid ws p"
  shows "share_inv sid ws (tick loc now p)" "share_inv sid ws (keep_visible p)"
    "share_inv sid ws (copy_plaintext cb p)" "share_inv sid ws (p\<lparr>copy_plain := b\<rparr>)"
  using share_inv_same_link [OF assms same_link_handlers(1) plaintext_ok_handlers(1)]
    share_inv_same_link [OF assms same_link_handlers(2) plaintext_ok_handlers(2)]
    share_inv_same_link [OF assms same_link_handlers(3) plaintext_ok_handlers(3)]
    share_inv_same_link [OF assms same_link_handlers(4) plaintext_ok_handlers(4)]
    share_invD(3) [OF assms] by blast+

lemma share_step_inv: "share_inv sid ws p \<Longrightarrow> share_inv sid ws (share_step pf p e)"
  by (cases e)
     (simp_all add: share_step_def hash_change_inv decrypt_click_inv key_reply_inv decrypted_inv
       quiet_handlers_inv)

interpretation share_machine: machine "share_step pf" "share_init pf sid ws" "share_inv sid ws"
  for pf sid ws
  by unfold_locales (blast intro: share_init_inv share_step_inv)+

section \<open>Settled pages\<close>

text \<open>Opened and spent are final: no event changes the card or sends anything.\<close>

lemma settled_step:
  assumes "share_inv sid ws p" and "card p = Opened \<or> card p = Spent"
  shows "card (share_step pf p e) = card p \<and> share_net (share_step pf p e) = share_net p"
proof -
  have rest: "suspended p = Resting" "decrypt_disabled p"
    using share_invD(2) [OF assms(1)] assms(2) by (auto simp: card_ok_def)
  show ?thesis
  proof (cases e)
    case (HashChange h)
    with assms(2) show ?thesis by (auto simp: share_step_def hash_change_def)
  qed (use rest same_link_handlers in \<open>simp_all add: share_step_def decrypt_click_idle key_reply_step_def
      decrypted_step_def same_link_def\<close>)
qed

lemma settled_run:
  assumes "share_inv sid ws p" and "card p = Opened \<or> card p = Spent"
  shows "card (foldl (share_step pf) p es) = card p \<and> share_net (foldl (share_step pf) p es) = share_net p"
proof -
  have "(card q = Opened \<or> card q = Spent) \<and> share_inv sid ws q \<longrightarrow>
      (card (share_step pf q e) = Opened \<or> card (share_step pf q e) = Spent) \<and>
      (card (share_step pf q e), share_net (share_step pf q e)) = (card q, share_net q)" for q e
    using settled_step [of sid ws q pf e] by auto
  then have "(card (foldl (share_step pf) p es), share_net (foldl (share_step pf) p es)) =
      (card p, share_net p)"
    by (intro share_machine.constant_run [where Q = "\<lambda>p. card p = Opened \<or> card p = Spent"
        and f = "\<lambda>p. (card p, share_net p)", OF _ assms]) blast
  then show ?thesis by simp
qed

text \<open>An open page with no timer keeps what it shows, whether that is the plaintext or nothing.\<close>

lemma opened_step:
  assumes inv: "share_inv sid ws p" and "card p = Opened" and "hide_timer p = None"
  shows "plaintext_out (share_step pf p e) = plaintext_out p \<and>
     plaintext_hidden (share_step pf p e) = plaintext_hidden p \<and> hide_timer (share_step pf p e) = None"
proof -
  have rest: "suspended p = Resting" "decrypt_disabled p"
    using share_invD(2) [OF assms(1)] assms(2) by (auto simp: card_ok_def)
  show ?thesis
  proof (cases e)
    case (HashChange h)
    with assms(2,3) show ?thesis by (simp add: share_step_def hash_change_def)
  next
    case (CopyPlain cb)
    with assms(3) show ?thesis
      by (simp add: share_step_def copy_plaintext_def Let_def split: prod.split sum.split)
  qed (use rest assms(2,3) in \<open>simp_all add: share_step_def decrypt_click_idle key_reply_step_def
      decrypted_step_def tick_def keep_visible_def\<close>)
qed

lemma opened_run:
  assumes "share_inv sid ws p" and "card p = Opened" and "hide_timer p = None"
  shows "plaintext_out (foldl (share_step pf) p es) = plaintext_out p \<and>
     plaintext_hidden (foldl (share_step pf) p es) = plaintext_hidden p"
proof -
  have "(card q = Opened \<and> hide_timer q = None) \<and> share_inv sid ws q \<longrightarrow>
      (card (share_step pf q e) = Opened \<and> hide_timer (share_step pf q e) = None) \<and>
      (plaintext_out (share_step pf q e), plaintext_hidden (share_step pf q e)) =
      (plaintext_out q, plaintext_hidden q)" for q e
    using settled_step [of sid ws q pf e] opened_step [of sid ws q pf e] by simp
  then have "(plaintext_out (foldl (share_step pf) p es), plaintext_hidden (foldl (share_step pf) p es)) =
      (plaintext_out p, plaintext_hidden p)"
    by (intro share_machine.constant_run [where Q = "\<lambda>p. card p = Opened \<and> hide_timer p = None"
        and f = "\<lambda>p. (plaintext_out p, plaintext_hidden p)", OF _ assms(1) conjI [OF assms(2,3)]]) blast
  then show ?thesis by simp
qed

text \<open>A page with a malformed link stays so until its hash changes.\<close>

lemma invalid_step:
  assumes "share_inv sid ws p" and "card p = Invalid" and "\<forall>h. e \<noteq> HashChange h"
  shows "card (share_step pf p e) = Invalid \<and> share_net (share_step pf p e) = share_net p"
proof -
  have rest: "suspended p = Resting" "decrypt_disabled p"
    using share_invD(2) [OF assms(1)] assms(2) by (auto simp: card_ok_def)
  with assms(2,3) same_link_handlers show ?thesis
    by (cases e) (simp_all add: share_step_def decrypt_click_idle key_reply_step_def
      decrypted_step_def same_link_def)
qed

lemma invalid_run:
  assumes "share_inv sid ws p" and "card p = Invalid" and "\<forall>e \<in> set es. \<forall>h. e \<noteq> HashChange h"
  shows "card (foldl (share_step pf) p es) = Invalid \<and> share_net (foldl (share_step pf) p es) = share_net p"
  using assms
proof (induction es arbitrary: p)
  case (Cons e es)
  then have "card (share_step pf p e) = Invalid \<and> share_net (share_step pf p e) = share_net p"
    by (intro invalid_step) auto
  with Cons share_step_inv [OF Cons.prems(1), of pf e] show ?case by simp
qed simp

section \<open>The interval\<close>

lemma remaining_zero: "remaining_seconds hideAt now = 0 \<longleftrightarrow> hideAt \<le> now"
  by (auto simp: remaining_seconds_def div_eq_0_iff)

lemma remaining_ceiling: "remaining_seconds hideAt now = nat \<lceil>(rat_of_nat hideAt - rat_of_nat now) / 1000\<rceil>"
proof (cases "now \<le> hideAt")
  case True
  define d where "d = hideAt - now"
  have d: "rat_of_nat hideAt - rat_of_nat now = of_nat d"
    using True by (simp add: d_def of_nat_diff)
  have "\<lceil>rat_of_nat d / 1000\<rceil> = int ((d + 999) div 1000)"
  proof (rule ceiling_unique)
    have "(d + 999) div 1000 * 1000 < d + 1000" "d \<le> (d + 999) div 1000 * 1000" by linarith+
    then have "rat_of_nat ((d + 999) div 1000 * 1000) < rat_of_nat (d + 1000)"
      "rat_of_nat d \<le> rat_of_nat ((d + 999) div 1000 * 1000)"
      by (simp_all only: of_nat_less_iff of_nat_le_iff)
    then show "of_int (int ((d + 999) div 1000)) - 1 < rat_of_nat d / 1000"
      "rat_of_nat d / 1000 \<le> of_int (int ((d + 999) div 1000))"
      by (simp_all add: field_simps)
  qed
  then show ?thesis by (simp add: remaining_seconds_def d d_def)
next
  case False
  then have "(rat_of_nat hideAt - rat_of_nat now) / 1000 \<le> 0" by simp
  then have "\<lceil>(rat_of_nat hideAt - rat_of_nat now) / 1000\<rceil> \<le> 0" by (simp add: ceiling_le_zero)
  with False show ?thesis by (simp add: remaining_seconds_def)
qed

lemma tick_cases:
  assumes "hide_timer p = Some hideAt"
  shows "hideAt \<le> now \<Longrightarrow> tick loc now p = hide loc (renderRemaining loc 0 p)"
    and "now < hideAt \<Longrightarrow> tick loc now p = renderRemaining loc (remaining_seconds hideAt now) p"
  using assms remaining_zero [of hideAt now] by (auto simp: tick_def Let_def)

section \<open>Opening a note\<close>

text \<open>A good link makes a fresh page ready.\<close>

lemma init_ready:
  assumes "parse_url (href doc) = Inr u" and "parseFragment (url_hash u) = Inr f"
  shows "\<not> decrypt_disabled (init_share_page loc platform attr doc)"
    and "fragment (init_share_page loc platform attr doc) = Some f"
    and "share_id (init_share_page loc platform attr doc) = share_id doc"
    and "auto_hide (init_share_page loc platform attr doc) = auto_hide_seconds attr"
proof -
  obtain a where "renderAnatomy loc (href doc) = Inr a"
    using renderAnatomy_Inr [OF assms(1)] by blast
  moreover have "location_hash (href doc) = url_hash u"
    by (simp add: location_hash_def assms(1))
  ultimately show "\<not> decrypt_disabled (init_share_page loc platform attr doc)"
    "fragment (init_share_page loc platform attr doc) = Some f"
    "share_id (init_share_page loc platform attr doc) = share_id doc"
    "auto_hide (init_share_page loc platform attr doc) = auto_hide_seconds attr"
    using assms(2) by (simp_all add: init_share_page_def inspectLink_def Let_def)
qed

text \<open>From there, a click and a 2xx reply lead to the decryption, and its result decides the end state.\<close>

lemma click_and_key:
  assumes "\<not> decrypt_disabled p" and "fragment p = Some f" and "share_id p \<noteq> []"
    and "encodeURIComponent (share_id p) = Inr eid" and "response_ok resp" and "body_text resp = Inr privPem"
  shows "suspended (foldl (share_step pf) p [DecryptClick, KeyReply (Some resp)]) = AwaitPlaintext privPem"
    and "fragment (foldl (share_step pf) p [DecryptClick, KeyReply (Some resp)]) = Some f"
    and "auto_hide (foldl (share_step pf) p [DecryptClick, KeyReply (Some resp)]) = auto_hide p"
proof -
  have "\<not> (decrypt_disabled p \<or> fragment p = None \<or> share_id p = [])" using assms(1-3) by simp
  note c = decrypt_click_sent [OF this assms(4), of "sp_message pf"]
  have "status resp \<noteq> 404" using assms(5) by (auto simp: response_ok_def)
  then show "suspended (foldl (share_step pf) p [DecryptClick, KeyReply (Some resp)]) = AwaitPlaintext privPem"
    "fragment (foldl (share_step pf) p [DecryptClick, KeyReply (Some resp)]) = Some f"
    "auto_hide (foldl (share_step pf) p [DecryptClick, KeyReply (Some resp)]) = auto_hide p"
    using assms(2,5,6)
    by (simp_all add: share_step_def c key_reply_step_def fetchKey_finish_def send_finish_def split_beta Let_def)
qed

lemma open_run:
  assumes "\<not> decrypt_disabled p" and "fragment p = Some f" and "share_id p \<noteq> []"
    and "encodeURIComponent (share_id p) = Inr eid" and "response_ok resp" and "body_text resp = Inr privPem"
    and "q = foldl (share_step pf) p [DecryptClick, KeyReply (Some resp), Decrypted now]"
  shows "decrypt_fragment (sp_crypto pf) privPem (Some f) = Inr plaintext \<Longrightarrow>
      card q = Opened \<and> plaintext_out q = plaintext \<and> \<not> plaintext_hidden q \<and>
      hide_timer q = Some (now + auto_hide p * 1000) \<and> share_status q = setStatus decrypted_message Success"
    and "decrypt_fragment (sp_crypto pf) privPem (Some f) = Inl e \<Longrightarrow>
      card q = Spent \<and> share_status q = setStatus undecryptable_message Failure"
proof -
  let ?r = "foldl (share_step pf) p [DecryptClick, KeyReply (Some resp)]"
  note r = click_and_key [OF assms(1-6), of pf]
  have q: "q = decrypted_step (sp_loc pf) (sp_crypto pf) now ?r"
    by (simp add: assms(7) share_step_def [of _ _ "Decrypted _"])
  show "decrypt_fragment (sp_crypto pf) privPem (Some f) = Inr plaintext \<Longrightarrow>
      card q = Opened \<and> plaintext_out q = plaintext \<and> \<not> plaintext_hidden q \<and>
      hide_timer q = Some (now + auto_hide p * 1000) \<and> share_status q = setStatus decrypted_message Success"
    unfolding q using r by (simp add: decrypted_step_def Let_def del: foldl_Cons)
  show "decrypt_fragment (sp_crypto pf) privPem (Some f) = Inl e \<Longrightarrow>
      card q = Spent \<and> share_status q = setStatus undecryptable_message Failure"
    unfolding q using r by (simp add: decrypted_step_def Let_def del: foldl_Cons)
qed

end
