(* ===== verification/ShareSpec.thy ===== *)
theory ShareSpec
  imports SharePage KeyGen
begin

text \<open>
  What the share page promises, over every run of \<open>share_step\<close>: what it sends, its states, its
  reaction to the reply, and how long the plaintext stays.
\<close>

section \<open>An example page\<close>

text \<open>A page opened from a well-formed link, for the instances below.\<close>

definition example_id :: jsstring where
  "example_id = js ''00112233445566778899aabbccddeeff''"

definition example_values :: encrypted where
  "example_values = \<lparr>wrapped = b64url [1, 2], iv = b64url [3],
      ct = b64url (text_encode (js ''Hi'') @ replicate 16 0)\<rparr>"

definition example_href :: "jsstring \<Rightarrow> jsstring" where
  "example_href frag = js ''https://kb.example'' @ (47 # js ''share/'' @ example_id) @ 35 # frag"

definition example_platform :: "(unit, unit, unit) share_platform" where
  "example_platform =
     \<lparr>sp_loc = decimal, sp_message = (\<lambda>_. js ''error''), sp_crypto = plain_crypto\<rparr>"

definition example_location :: "jsstring \<Rightarrow> url" where
  "example_location frag =
     \<lparr>url_origin = js ''https://kb.example'', url_pathname = 47 # js ''share/'' @ example_id,
      url_search = [], url_hash = 35 # frag\<rparr>"

definition example_document :: "jsstring \<Rightarrow> share_page" where
  "example_document frag =
     \<lparr>share_id = example_id, auto_hide = 0, ready_message = [], href = example_href frag, card = Ready,
      decrypt_disabled = True, share_status = setStatus (js ''Ready'') Idle, fragment = None,
      share_anatomy = None, suspended = Resting, plaintext_out = [], plaintext_hidden = True,
      hide_timer = None,
      countdown = \<lparr>count_text = js ''60'', count_infinite = False, count_label = [], count_unit = []\<rparr>,
      bar = BarIdle, keep_hidden = True, keep_disabled = False, keep_text = js ''Keep visible'',
      copy_plain = \<lparr>label = js ''Copy'', copied = False, timers = []\<rparr>,
      share_net = start_app SharePageKind (example_location frag)
        (loaded_net True (url_pathname (example_location frag)))\<rparr>"

definition example_page :: "jsstring \<Rightarrow> share_page" where
  "example_page frag =
     init_share_page (sp_loc example_platform) (sp_message example_platform) (Some 60)
       (example_document frag)"

definition example_wire :: "request list" where
  "example_wire = [page_request (47 # js ''share/'' @ example_id)]"

lemma example_id_hex: "hex_id example_id"
  by (simp add: hex_id_def example_id_def js_simps)

lemma example_id_plain: "encodeURIComponent example_id = Inr example_id"
  by (simp add: encodeURIComponent_plain hex_id_alnum example_id_hex)

lemma example_values_ok: "link_values example_values"
  by (simp add: link_values_def example_values_def)

lemma example_origin: "origin_ok (js ''https://kb.example'')"
  unfolding origin_ok_def by (intro exI [of _ "js ''kb.example''"]) (simp add: js_simps)

lemma example_url: "frag \<noteq> [] \<Longrightarrow> parse_url (example_href frag) = Inr (example_location frag)"
  unfolding example_href_def example_location_def
  by (rule parse_url_link [OF example_origin hex_id_path [OF example_id_hex]])

lemma example_init:
  assumes "frag \<noteq> []"
  shows "share_init example_platform example_id example_wire (example_page frag)"
proof -
  let ?d = "example_document frag"
  have "href ?d = example_href frag" "share_id ?d = example_id" "plaintext_out ?d = []" "plaintext_hidden ?d"
    "share_net ?d = start_app SharePageKind (example_location frag)
        (loaded_net True (url_pathname (example_location frag)))"
    by (simp_all add: example_document_def)
  moreover have "wire (loaded_net True (url_pathname (example_location frag))) = example_wire"
    by (simp add: loaded_net_def example_wire_def example_location_def)
  ultimately show ?thesis
    unfolding share_init_def example_page_def using example_url [OF assms] start_app_ledger_ok
    by (metis page_kind.distinct(5) start_app_wire)
qed

lemma example_anatomy: "frag \<noteq> [] \<Longrightarrow> \<exists>a. renderAnatomy loc (example_href frag) = Inr a"
  by (rule renderAnatomy_Inr [OF example_url])

lemma example_hash: "frag \<noteq> [] \<Longrightarrow> location_hash (example_href frag) = 35 # frag"
  by (simp add: location_hash_def example_url example_location_def)

text \<open>With a well-formed link the page is ready; with any other fragment it is invalid.\<close>

lemma example_ready:
  fixes p :: share_page
  assumes "p = example_page (link_fragment example_values)"
  shows "card p = Ready" "\<not> decrypt_disabled p" "fragment p = Some example_values"
    "share_id p = example_id" "suspended p = Resting" "auto_hide p = 60" "plaintext_hidden p"
    "keep_hidden p" "\<not> keep_disabled p"
proof -
  have ne: "link_fragment example_values \<noteq> []" by (rule link_fragment_nonempty [OF example_values_ok])
  obtain a where a: "renderAnatomy (sp_loc example_platform) (example_href (link_fragment example_values)) = Inr a"
    using example_anatomy [OF ne] by blast
  have "parseFragment (location_hash (example_href (link_fragment example_values))) = Inr example_values"
    by (simp add: example_hash [OF ne] parseFragment_link_fragment [OF example_values_ok])
  with a show "card p = Ready" "\<not> decrypt_disabled p" "fragment p = Some example_values"
    "share_id p = example_id" "suspended p = Resting" "auto_hide p = 60" "plaintext_hidden p"
    "keep_hidden p" "\<not> keep_disabled p"
    by (simp_all add: assms example_page_def init_share_page_def inspectLink_def example_document_def
        auto_hide_seconds_def)
qed

definition unversioned :: jsstring where
  "unversioned = params_to_string [(js ''v'', js ''2'')]"

lemma unversioned_text: "unversioned = js ''v=2''"
  by (simp add: unversioned_def form_encode_base64url js_simps is_base64url_unit_def)

lemma unversioned_parse: "parseFragment (35 # unversioned) = Inl unsupported_version"
proof -
  have "params_of_string unversioned = [(js ''v'', js ''2'')]"
    unfolding unversioned_def
    by (rule params_round_trip) (auto simp: safe_pairs_def safe_def js_simps is_base64url_unit_def)
  then show ?thesis
    by (simp add: parseFragment_def Let_def params_get_def unversioned_text js_simps)
qed

lemma example_invalid: "card (example_page unversioned) = Invalid"
proof -
  have ne: "unversioned \<noteq> []" by (simp add: unversioned_text js_simps)
  obtain a where a: "renderAnatomy (sp_loc example_platform) (example_href unversioned) = Inr a"
    using example_anatomy [OF ne] by blast
  have "parseFragment (location_hash (example_href unversioned)) = Inl unsupported_version"
    unfolding example_hash [OF ne] by (rule unversioned_parse)
  with a show ?thesis
    by (simp add: example_page_def init_share_page_def inspectLink_def example_document_def)
qed

section \<open>Properties\<close>

text \<open>C7: Whatever happens on the share page, in any order, the only requests it sends after the page
  has loaded are fetches of the private key of this page's own ID: no request depends on the fragment
  of the link, on the ciphertext in it, or on the decrypted text.\<close>
theorem share_page_sends:
  assumes "share_init pf sid ws p"
  shows "\<exists>rs. wire (share_net (foldl (share_step pf) p es)) = ws @ rs \<and>
     (\<forall>r \<in> set rs. \<exists>eid. encodeURIComponent sid = Inr eid \<and> r = fetch_request eid)"
  using share_machine.inv_run [OF assms, of es]
  unfolding share_inv_def key_requests_def by blast

theorem share_page_sends_witness:
  "\<exists>rs. wire (share_net (foldl (share_step example_platform) (example_page (link_fragment example_values))
      [DecryptClick, KeyReply None, DecryptClick])) = example_wire @ rs \<and>
     (\<forall>r \<in> set rs. \<exists>eid. encodeURIComponent example_id = Inr eid \<and> r = fetch_request eid)"
  by (rule share_page_sends [OF example_init [OF link_fragment_nonempty [OF example_values_ok]]])

text \<open>C20: In every reachable state of the share page: the button is enabled exactly in the ready state;
  when the page is ready or fetching, the link it holds has three nonempty Base64URL values; plaintext
  exists only in the open state; and the ledger on the page lists exactly the requests that were sent.\<close>
theorem share_page_states:
  assumes "share_init pf sid ws p" and "q = foldl (share_step pf) p es"
  shows "(decrypt_disabled q \<longleftrightarrow> card q \<noteq> Ready) \<and>
     (card q \<in> {Ready, Fetching} \<longrightarrow> (\<exists>f. fragment q = Some f \<and> link_values f)) \<and>
     (plaintext_out q \<noteq> [] \<longrightarrow> card q = Opened) \<and> ledger_ok (share_net q)"
  using share_machine.inv_run [OF assms(1), of es]
  unfolding assms(2) [symmetric] share_inv_def card_ok_def plaintext_ok_def by blast

theorem share_page_states_witness:
  "ledger_ok (share_net (foldl (share_step example_platform) (example_page unversioned) [DecryptClick]))"
proof -
  have "unversioned \<noteq> []" by (simp add: unversioned_text js_simps)
  from share_page_states [OF example_init [OF this] refl, of "[DecryptClick]"] show ?thesis by blast
qed

text \<open>C19: The end states are final: once the note is open or spent, no event sequence changes the state
  of the card, sends another request, or changes the ledger. A key is never fetched again by a page that
  has consumed it.\<close>
theorem share_page_final:
  assumes "share_init pf sid ws p" and "q = foldl (share_step pf) p es" and "card q = Opened \<or> card q = Spent"
  shows "card (foldl (share_step pf) q es') = card q \<and>
     share_net (foldl (share_step pf) q es') = share_net q"
  using settled_run [OF share_machine.inv_run [OF assms(1), of es, folded assms(2)] assms(3)] .

definition spent_reply :: fetch_outcome where
  "spent_reply = Some \<lparr>status = 404, body_text = Inr [], body_json = Inl SyntaxError\<rparr>"

lemma example_click:
  fixes p :: share_page
  assumes "p = example_page (link_fragment example_values)"
  shows "suspended (share_step example_platform p DecryptClick) =
      AwaitKey (snd (fetchKey_start example_id (share_net p)))"
    and "card (share_step example_platform p DecryptClick) = Fetching"
    and "fragment (share_step example_platform p DecryptClick) = Some example_values"
    and "auto_hide (share_step example_platform p DecryptClick) = 60"
    and "href (share_step example_platform p DecryptClick) = href p"
proof -
  note r = example_ready [OF assms]
  have "\<not> (decrypt_disabled p \<or> fragment p = None \<or> share_id p = [])"
    using r by (simp add: example_id_def js_simps)
  moreover have "encodeURIComponent (share_id p) = Inr example_id"
    using r example_id_plain by simp
  ultimately have c: "share_step example_platform p DecryptClick =
      (set_share_status fetching_message Working (setState Fetching p))
      \<lparr>share_net := fst (fetchKey_start example_id (share_net p)),
        suspended := AwaitKey (snd (fetchKey_start example_id (share_net p)))\<rparr>"
    using decrypt_click_sent by (simp add: share_step_def)
  show "suspended (share_step example_platform p DecryptClick) =
      AwaitKey (snd (fetchKey_start example_id (share_net p)))"
    "card (share_step example_platform p DecryptClick) = Fetching"
    "fragment (share_step example_platform p DecryptClick) = Some example_values"
    "auto_hide (share_step example_platform p DecryptClick) = 60"
    "href (share_step example_platform p DecryptClick) = href p"
    using r by (simp_all add: c set_share_status_def setState_def)
qed

lemma example_spent:
  "card (foldl (share_step example_platform) (example_page (link_fragment example_values))
     [DecryptClick, KeyReply spent_reply]) = Spent"
  using example_click(1) [OF refl]
  by (simp add: share_step_def [of _ _ "KeyReply _"] key_reply_step_def fetchKey_finish_def send_finish_def
      spent_reply_def split_beta Let_def)

theorem share_page_final_witness:
  "card (foldl (share_step example_platform) (foldl (share_step example_platform)
      (example_page (link_fragment example_values)) [DecryptClick, KeyReply spent_reply])
      [DecryptClick, HashChange []]) =
   card (foldl (share_step example_platform)
      (example_page (link_fragment example_values)) [DecryptClick, KeyReply spent_reply])"
  using share_page_final [OF example_init [OF link_fragment_nonempty [OF example_values_ok]] refl
      disjI2 [OF example_spent], of "[DecryptClick, HashChange []]"]
  by (rule conjunct1)

text \<open>The same page when the server has the key: it opens.\<close>

definition key_found :: fetch_outcome where
  "key_found = Some \<lparr>status = 200, body_text = Inr (pem_encode (js ''PRIVATE KEY'') [1]), body_json = Inl SyntaxError\<rparr>"

definition opened_page :: share_page where
  "opened_page = foldl (share_step example_platform) (example_page (link_fragment example_values))
     [DecryptClick, KeyReply key_found, Decrypted 1000]"

lemma example_decrypt:
  "decrypt_fragment plain_crypto (pem_encode (js ''PRIVATE KEY'') [1]) (Some example_values) = Inr (js ''Hi'')"
proof -
  have "received_text (js ''Hi'') = js ''Hi''"
    by (simp add: received_text_def js_simps drop_bom_def is_high_def is_low_def)
  then show ?thesis
    by (simp add: decrypt_fragment_def decryptMessage_def importRsaPrivateKey_def private_pem.dec_enc
        example_values_def base64URLToBytes_b64url plain_crypto_def text_decode_encode
        received_text_def [symmetric])
qed

lemma opened_page_fields:
  "card opened_page = Opened" "plaintext_out opened_page = js ''Hi''" "\<not> plaintext_hidden opened_page"
  "\<not> keep_hidden opened_page" "\<not> keep_disabled opened_page" "hide_timer opened_page = Some 61000"
proof -
  let ?p = "share_step example_platform (example_page (link_fragment example_values)) DecryptClick"
  let ?q = "share_step example_platform ?p (KeyReply key_found)"
  have q: "?q = ?p\<lparr>share_net := fst (fetchKey_finish (snd (fetchKey_start example_id
        (share_net (example_page (link_fragment example_values))))) key_found (share_net ?p)),
      suspended := AwaitPlaintext (pem_encode (js ''PRIVATE KEY'') [1])\<rparr>"
    using example_click(1) [OF refl]
    by (simp add: share_step_def [of _ _ "KeyReply _"] key_reply_step_def fetchKey_finish_def
        send_finish_def key_found_def response_ok_def split_beta Let_def)
  have kd: "\<not> keep_disabled ?p"
    using example_ready(9) [OF refl] example_ready(1-5) [OF refl]
    by (simp add: share_step_def decrypt_click_def fetchKey_begin_def Let_def split_beta split: sum.split)
  have o: "opened_page = set_share_status decrypted_message Success
      (reveal decimal (js ''Hi'') 1000 (setState Opened (?q\<lparr>suspended := Resting\<rparr>)))"
    using q example_click(3) [OF refl] example_decrypt
    by (simp add: opened_page_def share_step_def [of _ _ "Decrypted _"] decrypted_step_def Let_def
        example_platform_def [THEN arg_cong, of sp_crypto] example_platform_def [THEN arg_cong, of sp_loc])
  show "card opened_page = Opened" "plaintext_out opened_page = js ''Hi''" "\<not> plaintext_hidden opened_page"
    "\<not> keep_hidden opened_page" "\<not> keep_disabled opened_page" "hide_timer opened_page = Some 61000"
    using q kd example_click(4) [OF refl] by (simp_all add: o)
qed

text \<open>A malformed link never touches the key: while the page is in the invalid state, no sequence of
  events without a change of the link sends anything or leaves that state.\<close>
theorem malformed_link_sends_nothing:
  assumes "share_init pf sid ws p" and "q = foldl (share_step pf) p es" and "card q = Invalid"
    and "\<forall>e \<in> set es'. \<forall>h. e \<noteq> HashChange h"
  shows "card (foldl (share_step pf) q es') = Invalid \<and>
     wire (share_net (foldl (share_step pf) q es')) = wire (share_net q)"
  using invalid_run [OF share_machine.inv_run [OF assms(1), of es, folded assms(2)] assms(3,4), of pf]
  by simp

theorem malformed_link_sends_nothing_witness:
  "card (foldl (share_step example_platform) (example_page unversioned) [DecryptClick, KeyReply None]) =
     Invalid"
proof -
  have ne: "unversioned \<noteq> []" by (simp add: unversioned_text js_simps)
  have "example_page unversioned = foldl (share_step example_platform) (example_page unversioned) []"
    by simp
  from malformed_link_sends_nothing [OF example_init [OF ne] this example_invalid,
      of "[DecryptClick, KeyReply None]"]
  show ?thesis by simp
qed

text \<open>C22: How the share page reacts to the reply, on every branch. No response, or an error status other
  than 404, puts it back into the ready state with the same link, to try again; 404 makes it spent; a 2xx
  reply moves it on to decryption with the body as the private key, or, when its body does not arrive in full,
  back into the ready state with the error of \<open>response.text()\<close>, although the server has deleted the key.\<close>
theorem key_reply_branches:
  assumes "suspended p = AwaitKey entry" and "q = share_step pf p (KeyReply outcome)"
  shows "case outcome of
      None \<Rightarrow> card q = Ready \<and> fragment q = fragment p \<and> suspended q = Resting \<and>
        share_status q = setStatus (js ''Could not reach KeyBank. Check your connection and try again.'') Failure
    | Some resp \<Rightarrow>
        if status resp = 404 then
          card q = Spent \<and> suspended q = Resting \<and> share_status q = setStatus spent_message Failure
        else if response_ok resp then
          fragment q = fragment p \<and>
          (case body_text resp of
             Inr privPem \<Rightarrow> card q = card p \<and> suspended q = AwaitPlaintext privPem
           | Inl e \<Rightarrow> card q = Ready \<and> suspended q = Resting \<and>
               share_status q = setStatus (message_of (sp_message pf) e) Failure)
        else
          card q = Ready \<and> fragment q = fragment p \<and> suspended q = Resting \<and>
          share_status q = setStatus (case failureMessages (status resp) of Some m \<Rightarrow> m
            | None \<Rightarrow> js ''Fetching the private key failed.'') Failure"
  using assms(1)
  by (auto simp: assms(2) share_step_def key_reply_step_def fetchKey_finish_def send_finish_def split_beta
      Let_def unreachable_def message_of_def failure_def split: option.split sum.split)

theorem key_reply_branches_witness:
  "card (share_step example_platform
     (share_step example_platform (example_page (link_fragment example_values)) DecryptClick)
     (KeyReply None)) = Ready"
  using key_reply_branches [OF example_click(1) [OF refl] refl, of example_platform None] by simp

text \<open>The auto-hide interval. The countdown shows the remaining seconds rounded up; a tick before the
  deadline leaves the plaintext as it is, and the first tick at or after the deadline clears it, hides the
  result and stops the interval.\<close>
theorem auto_hide_tick:
  assumes "hide_timer p = Some hideAt" and "q = share_step pf p (Tick now)"
  shows "if now < hideAt
     then plaintext_out q = plaintext_out p \<and> plaintext_hidden q = plaintext_hidden p \<and>
       hide_timer q = Some hideAt \<and>
       count_text (countdown q) = decimal (nat \<lceil>(rat_of_nat hideAt - rat_of_nat now) / 1000\<rceil>)
     else plaintext_out q = [] \<and> plaintext_hidden q \<and> hide_timer q = None"
  using tick_cases [OF assms(1), where now = now and loc = "sp_loc pf"] assms(1)
  by (auto simp: assms(2) share_step_def renderRemaining_def hide_def remaining_ceiling)

theorem auto_hide_tick_witness:
  "plaintext_out (share_step example_platform opened_page (Tick 60999)) = js ''Hi'' \<and>
   plaintext_out (share_step example_platform opened_page (Tick 61000)) = []"
  using auto_hide_tick [OF opened_page_fields(6) refl, where pf = example_platform and now = 60999]
    auto_hide_tick [OF opened_page_fields(6) refl, where pf = example_platform and now = 61000]
    opened_page_fields(2) by simp

text \<open>C23: After the interval has hidden the plaintext, it is gone for good: no later sequence of events
  shows anything again.\<close>
theorem hidden_for_good:
  assumes "share_init pf sid ws p" and "q = foldl (share_step pf) p es"
    and "card q = Opened" and "plaintext_hidden q"
  shows "plaintext_hidden (foldl (share_step pf) q es') \<and> plaintext_out (foldl (share_step pf) q es') = []"
proof -
  have inv: "share_inv sid ws q" using share_machine.inv_run [OF assms(1), of es] by (simp add: assms(2))
  then have "hide_timer q = None" "plaintext_out q = []"
    using assms(4) by (auto simp: share_inv_def plaintext_ok_def)
  with opened_run [OF inv assms(3), of pf es'] assms(4) show ?thesis by simp
qed

theorem hidden_for_good_witness:
  "plaintext_out (foldl (share_step example_platform) (share_step example_platform opened_page (Tick 61000))
     [KeepVisible, CopyPlain Writes]) = []"
proof -
  let ?q = "share_step example_platform opened_page (Tick 61000)"
  have q: "?q = foldl (share_step example_platform) (example_page (link_fragment example_values))
      [DecryptClick, KeyReply key_found, Decrypted 1000, Tick 61000]"
    by (simp add: opened_page_def)
  have "?q = hide decimal (renderRemaining decimal 0 opened_page)"
    using tick_cases(1) [OF opened_page_fields(6)] by (simp add: share_step_def example_platform_def)
  then have "card ?q = Opened" "plaintext_hidden ?q"
    using opened_page_fields(1) by (simp_all add: hide_def renderRemaining_def)
  from hidden_for_good [OF example_init [OF link_fragment_nonempty [OF example_values_ok]] q this]
  show ?thesis by blast
qed

text \<open>Keep visible: after that button, no sequence of events hides or changes the plaintext, however
  late the ticks of the interval come.\<close>
theorem kept_visible:
  assumes "share_init pf sid ws p" and "q = foldl (share_step pf) p es" and "card q = Opened"
    and "\<not> plaintext_hidden q" and "\<not> keep_hidden q" and "\<not> keep_disabled q"
  shows "\<not> plaintext_hidden (foldl (share_step pf) (share_step pf q KeepVisible) es') \<and>
     plaintext_out (foldl (share_step pf) (share_step pf q KeepVisible) es') = plaintext_out q"
proof -
  let ?k = "share_step pf q KeepVisible"
  have inv: "share_inv sid ws q" using share_machine.inv_run [OF assms(1), of es] by (simp add: assms(2))
  have k: "card ?k = Opened" "hide_timer ?k = None" "\<not> plaintext_hidden ?k" "plaintext_out ?k = plaintext_out q"
    using assms(3-6) by (simp_all add: share_step_def keep_visible_def)
  from opened_run [OF share_step_inv [OF inv] k(1,2), of pf es'] k(3,4) show ?thesis by simp
qed

theorem kept_visible_witness:
  "plaintext_out (foldl (share_step example_platform) (share_step example_platform opened_page KeepVisible)
     [Tick 70000, HashChange [], DecryptClick]) = js ''Hi''"
  using kept_visible [OF example_init [OF link_fragment_nonempty [OF example_values_ok]] opened_page_def
      opened_page_fields(1,3,4,5), of "[Tick 70000, HashChange [], DecryptClick]"]
  unfolding opened_page_fields(2) by (rule conjunct2)

text \<open>C38: A change of the link while the key is being fetched is lost. The page does not look at the new
  link then, and if the fetch fails it is ready again, with the address bar showing the new link and the
  page still holding the values of the old one.\<close>
theorem stale_fragment:
  assumes "suspended p = AwaitKey entry" and "card p = Fetching"
  shows "card (foldl (share_step pf) p [HashChange h, KeyReply None]) = Ready \<and>
     href (foldl (share_step pf) p [HashChange h, KeyReply None]) = h \<and>
     fragment (foldl (share_step pf) p [HashChange h, KeyReply None]) = fragment p"
  using assms
  by (simp add: share_step_def hash_change_def key_reply_step_def fetchKey_finish_def send_finish_def
      split_beta Let_def set_share_status_def setState_def)

theorem stale_fragment_witness:
  "fragment (foldl (share_step example_platform)
     (share_step example_platform (example_page (link_fragment example_values)) DecryptClick)
     [HashChange (example_href unversioned), KeyReply None]) = Some example_values"
  using stale_fragment [OF example_click(1) [OF refl] example_click(2) [OF refl], of example_platform "example_href unversioned"]
    example_click(3) [OF refl] by simp

end
