(* ===== verification/GoJson.thy ===== *)
theory GoJson
  imports Utf8
begin

text \<open>
  JSON as Go's \<open>encoding/json\<close> and the browser's \<open>JSON.parse\<close> read and write it, as far as the program
  uses it. The reader is a machine that takes one character at a time, like Go's scanner: a stack of
  open arrays and objects and a mode. Go strings are lists of units below 256 (bytes); a string literal
  keeps its escapes apart (\<open>Esc\<close>), since Go turns them into UTF-8 and the browser into UTF-16. Go's limit
  of 10000 open arrays and objects is part of the reader; the browser only reads the server's replies.
\<close>

section \<open>Values\<close>

datatype json_char = Raw code_unit | Esc nat

datatype json =
    JNull
  | JBool bool
  | JNum jsstring
  | JStr "json_char list"
  | JArr "json list"
  | JObj "(json_char list \<times> json) list"

text \<open>The text of a literal in the browser.\<close>

definition js_text :: "json_char list \<Rightarrow> jsstring" where
  "js_text cs = map (\<lambda>c. case c of Raw u \<Rightarrow> u | Esc n \<Rightarrow> of_nat n) cs"

text \<open>The text of a literal in Go: surrogate escapes are paired, a lone one is U+FFFD.\<close>

definition utf8_units :: "nat \<Rightarrow> jsstring" where
  "utf8_units c = map ucast (utf8_cp c)"

fun go_text :: "json_char list \<Rightarrow> jsstring" where
  "go_text [] = []"
| "go_text (Raw u # cs) = u # go_text cs"
| "go_text (Esc n # Esc m # cs) =
     (if 0xD800 \<le> n \<and> n \<le> 0xDBFF \<and> 0xDC00 \<le> m \<and> m \<le> 0xDFFF
      then utf8_units (0x10000 + (n - 0xD800) * 0x400 + (m - 0xDC00)) @ go_text cs
      else utf8_units (if 0xD800 \<le> n \<and> n \<le> 0xDFFF then 0xFFFD else n) @ go_text (Esc m # cs))"
| "go_text (Esc n # cs) = utf8_units (if 0xD800 \<le> n \<and> n \<le> 0xDFFF then 0xFFFD else n) @ go_text cs"

section \<open>The reader\<close>

datatype frame = ArrFrame "json list" | ObjFrame "(json_char list \<times> json) list" "json_char list"

text \<open>Where a string literal stands: as a value, or as a key after the given pairs.\<close>

datatype string_place = ValueString | KeyString "(json_char list \<times> json) list"

text \<open>How far a number is: after the sign, a leading zero, digits, the point, decimals, and so on.\<close>

datatype number_mode = NSign | NZero | NDigits | NPoint | NDecimals | NExp | NExpSign | NExpDigits

datatype mode =
    BeginValue
  | BeginValueOrEmpty
  | BeginKeyOrEmpty
  | BeginKey "(json_char list \<times> json) list"
  | InString string_place "json_char list"
  | InEscape string_place "json_char list"
  | InUnicode string_place "json_char list" nat nat
  | AfterKey "(json_char list \<times> json) list" "json_char list"
  | InNumber number_mode jsstring
  | InLiteral jsstring json
  | AfterValue json

type_synonym reader = "frame list \<times> mode"

text \<open>
  The effect of one character: go on, the value is complete with this character, it was complete before
  it, or a syntax error.
\<close>

datatype step_result = Continue reader | Complete json | CompleteBefore json | Bad

definition json_space :: "code_unit \<Rightarrow> bool" where
  "json_space u \<longleftrightarrow> u = 32 \<or> u = 9 \<or> u = 10 \<or> u = 13"

definition json_digit :: "code_unit \<Rightarrow> bool" where
  "json_digit u \<longleftrightarrow> 48 \<le> u \<and> u \<le> 57"

definition json_hex :: "code_unit \<Rightarrow> nat option" where
  "json_hex u =
     (if 48 \<le> u \<and> u \<le> 57 then Some (unat u - 48)
      else if 65 \<le> u \<and> u \<le> 70 then Some (unat u - 55)
      else if 97 \<le> u \<and> u \<le> 102 then Some (unat u - 87)
      else None)"

text \<open>A value is complete: at the top that ends the reading, otherwise the frame waits for what follows.\<close>

definition finish :: "frame list \<Rightarrow> json \<Rightarrow> step_result" where
  "finish stack v = (case stack of [] \<Rightarrow> Complete v | _ \<Rightarrow> Continue (stack, AfterValue v))"

definition max_nesting :: nat where
  "max_nesting = 10000"

definition begin_value :: "frame list \<Rightarrow> code_unit \<Rightarrow> step_result" where
  "begin_value stack u =
     (if u = 123 then (if length stack < max_nesting then Continue (stack, BeginKeyOrEmpty) else Bad)
      else if u = 91 then (if length stack < max_nesting then Continue (stack, BeginValueOrEmpty) else Bad)
      else if u = 34 then Continue (stack, InString ValueString [])
      else if u = 45 then Continue (stack, InNumber NSign [u])
      else if u = 48 then Continue (stack, InNumber NZero [u])
      else if json_digit u then Continue (stack, InNumber NDigits [u])
      else if u = 116 then Continue (stack, InLiteral (js ''rue'') (JBool True))
      else if u = 102 then Continue (stack, InLiteral (js ''alse'') (JBool False))
      else if u = 110 then Continue (stack, InLiteral (js ''ull'') JNull)
      else Bad)"

definition after_value :: "frame list \<Rightarrow> json \<Rightarrow> code_unit \<Rightarrow> step_result" where
  "after_value stack v u =
     (case stack of
        [] \<Rightarrow> Bad
      | ArrFrame vs # rest \<Rightarrow>
          if json_space u then Continue (stack, AfterValue v)
          else if u = 44 then Continue (ArrFrame (vs @ [v]) # rest, BeginValue)
          else if u = 93 then finish rest (JArr (vs @ [v]))
          else Bad
      | ObjFrame ps k # rest \<Rightarrow>
          if json_space u then Continue (stack, AfterValue v)
          else if u = 44 then Continue (rest, BeginKey (ps @ [(k, v)]))
          else if u = 125 then finish rest (JObj (ps @ [(k, v)]))
          else Bad)"

text \<open>The next mode of a number, \<open>None\<close> when the character is not part of it.\<close>

definition number_next :: "number_mode \<Rightarrow> code_unit \<Rightarrow> number_mode option" where
  "number_next m u =
     (case m of
        NSign \<Rightarrow> if u = 48 then Some NZero else if json_digit u then Some NDigits else None
      | NZero \<Rightarrow> if u = 46 then Some NPoint else if u = 101 \<or> u = 69 then Some NExp else None
      | NDigits \<Rightarrow> if json_digit u then Some NDigits else if u = 46 then Some NPoint
          else if u = 101 \<or> u = 69 then Some NExp else None
      | NPoint \<Rightarrow> if json_digit u then Some NDecimals else None
      | NDecimals \<Rightarrow> if json_digit u then Some NDecimals else if u = 101 \<or> u = 69 then Some NExp else None
      | NExp \<Rightarrow> if u = 43 \<or> u = 45 then Some NExpSign else if json_digit u then Some NExpDigits else None
      | NExpSign \<Rightarrow> if json_digit u then Some NExpDigits else None
      | NExpDigits \<Rightarrow> if json_digit u then Some NExpDigits else None)"

definition number_complete :: "number_mode \<Rightarrow> bool" where
  "number_complete m \<longleftrightarrow> m \<in> {NZero, NDigits, NDecimals, NExpDigits}"

definition escape_of :: "code_unit \<Rightarrow> nat option" where
  "escape_of u =
     (if u = 34 then Some 34 else if u = 92 then Some 92 else if u = 47 then Some 47
      else if u = 98 then Some 8 else if u = 102 then Some 12 else if u = 110 then Some 10
      else if u = 114 then Some 13 else if u = 116 then Some 9 else None)"

definition end_string :: "frame list \<Rightarrow> string_place \<Rightarrow> json_char list \<Rightarrow> step_result" where
  "end_string stack place cs =
     (case place of
        ValueString \<Rightarrow> finish stack (JStr cs)
      | KeyString ps \<Rightarrow> Continue (stack, AfterKey ps cs))"

text \<open>One character.\<close>

fun json_step :: "reader \<Rightarrow> code_unit \<Rightarrow> step_result" where
  "json_step (stack, BeginValue) u =
     (if json_space u then Continue (stack, BeginValue) else begin_value stack u)"
| "json_step (stack, BeginValueOrEmpty) u =
     (if json_space u then Continue (stack, BeginValueOrEmpty)
      else if u = 93 then finish stack (JArr [])
      else begin_value (ArrFrame [] # stack) u)"
| "json_step (stack, BeginKeyOrEmpty) u =
     (if json_space u then Continue (stack, BeginKeyOrEmpty)
      else if u = 125 then finish stack (JObj [])
      else if u = 34 then Continue (stack, InString (KeyString []) [])
      else Bad)"
| "json_step (stack, BeginKey ps) u =
     (if json_space u then Continue (stack, BeginKey ps)
      else if u = 34 then Continue (stack, InString (KeyString ps) [])
      else Bad)"
| "json_step (stack, InString place cs) u =
     (if u = 34 then end_string stack place cs
      else if u = 92 then Continue (stack, InEscape place cs)
      else if u < 32 then Bad
      else Continue (stack, InString place (cs @ [Raw u])))"
| "json_step (stack, InEscape place cs) u =
     (if u = 117 then Continue (stack, InUnicode place cs 0 0)
      else (case escape_of u of
              Some n \<Rightarrow> Continue (stack, InString place (cs @ [Esc n]))
            | None \<Rightarrow> Bad))"
| "json_step (stack, InUnicode place cs n v) u =
     (case json_hex u of
        None \<Rightarrow> Bad
      | Some d \<Rightarrow>
          if n = 3 then Continue (stack, InString place (cs @ [Esc (v * 16 + d)]))
          else Continue (stack, InUnicode place cs (Suc n) (v * 16 + d)))"
| "json_step (stack, AfterKey ps k) u =
     (if json_space u then Continue (stack, AfterKey ps k)
      else if u = 58 then Continue (ObjFrame ps k # stack, BeginValue)
      else Bad)"
| "json_step (stack, InNumber m cs) u =
     (case number_next m u of
        Some m' \<Rightarrow> Continue (stack, InNumber m' (cs @ [u]))
      | None \<Rightarrow>
          if \<not> number_complete m then Bad
          else if stack = [] then CompleteBefore (JNum cs)
          else after_value stack (JNum cs) u)"
| "json_step (stack, InLiteral [] v) u = Bad"
| "json_step (stack, InLiteral (c # cs) v) u =
     (if u \<noteq> c then Bad
      else if cs = [] then finish stack v
      else Continue (stack, InLiteral cs v))"
| "json_step (stack, AfterValue v) u = after_value stack v u"

text \<open>Reading until a value is complete; \<open>Unfinished\<close> when the characters run out.\<close>

datatype read_result = Value json jsstring | Malformed | Unfinished reader

fun json_read :: "reader \<Rightarrow> jsstring \<Rightarrow> read_result" where
  "json_read r [] = Unfinished r"
| "json_read r (u # us) =
     (case json_step r u of
        Continue r' \<Rightarrow> json_read r' us
      | Complete v \<Rightarrow> Value v us
      | CompleteBefore v \<Rightarrow> Value v (u # us)
      | Bad \<Rightarrow> Malformed)"

text \<open>\<open>JSON.parse\<close> on a whole text, and \<open>json.Unmarshal\<close>: one value and nothing but space around it.\<close>

definition json_parse :: "jsstring \<Rightarrow> json option" where
  "json_parse input =
     (case json_read ([], BeginValue) input of
        Value v rest \<Rightarrow> if list_all json_space rest then Some v else None
      | Malformed \<Rightarrow> None
      | Unfinished (stack, m) \<Rightarrow>
          (case m of
             InNumber nm cs \<Rightarrow> if stack = [] \<and> number_complete nm then Some (JNum cs) else None
           | _ \<Rightarrow> None))"

text \<open>
  \<open>Decoder.Decode\<close> on a stream: the characters that arrive and how the stream ends, at the end of the
  input or because \<open>MaxBytesReader\<close> cuts it off. An array or object ends with its last character; any other
  value ends only with the character after it, or with the end of the input.
\<close>

datatype stream_end = AtEof | CutOff

datatype decode_result = Decoded json jsstring | EndOfInput | JsonError | BodyTooLarge

definition ends_itself :: "json \<Rightarrow> bool" where
  "ends_itself v = (case v of JArr _ \<Rightarrow> True | JObj _ \<Rightarrow> True | _ \<Rightarrow> False)"

definition decode_next :: "stream_end \<Rightarrow> jsstring \<Rightarrow> decode_result" where
  "decode_next ending input =
     (case json_read ([], BeginValue) input of
        Value v rest \<Rightarrow>
          if rest = [] \<and> ending = CutOff \<and> \<not> ends_itself v then BodyTooLarge else Decoded v rest
      | Malformed \<Rightarrow> JsonError
      | Unfinished (stack, m) \<Rightarrow>
          if ending = CutOff then BodyTooLarge
          else (case m of
                  InNumber nm cs \<Rightarrow> if stack = [] \<and> number_complete nm then Decoded (JNum cs) [] else JsonError
                | BeginValue \<Rightarrow> if stack = [] then EndOfInput else JsonError
                | _ \<Rightarrow> JsonError))"

section \<open>The writer\<close>

text \<open>A string as \<open>json.Marshal\<close> writes it; the three HTML characters are escaped too.\<close>

definition hex_small :: "nat \<Rightarrow> code_unit" where
  "hex_small n = of_nat (if n < 10 then 48 + n else 87 + n)"

definition short_escape :: "code_unit \<Rightarrow> code_unit option" where
  "short_escape u =
     (if u = 34 then Some 34 else if u = 92 then Some 92 else if u = 8 then Some 98
      else if u = 12 then Some 102 else if u = 10 then Some 110 else if u = 13 then Some 114
      else if u = 9 then Some 116 else None)"

definition html_or_control :: "code_unit \<Rightarrow> bool" where
  "html_or_control u \<longleftrightarrow> u < 32 \<or> u = 60 \<or> u = 62 \<or> u = 38"

definition json_escape :: "code_unit \<Rightarrow> jsstring" where
  "json_escape u =
     (case short_escape u of
        Some e \<Rightarrow> [92, e]
      | None \<Rightarrow>
          if html_or_control u then [92, 117, 48, 48, hex_small (unat u div 16), hex_small (unat u mod 16)]
          else [u])"

definition json_string :: "jsstring \<Rightarrow> jsstring" where
  "json_string s = [34] @ concat (map json_escape s) @ [34]"

section \<open>Reading in parts\<close>

lemma json_read_append:
  "json_read r (xs @ ys) =
     (case json_read r xs of
        Value v rest \<Rightarrow> Value v (rest @ ys)
      | Malformed \<Rightarrow> Malformed
      | Unfinished r' \<Rightarrow> json_read r' ys)"
  by (induction r xs rule: json_read.induct) (auto split: step_result.splits)

lemma json_read_unfinished:
  "json_read r xs = Unfinished r' \<Longrightarrow> json_read r (xs @ ys) = json_read r' ys"
  by (simp add: json_read_append)

text \<open>The characters the reader sees for a string the writer wrote.\<close>

definition written_char :: "code_unit \<Rightarrow> json_char" where
  "written_char u = (if short_escape u = None \<and> \<not> html_or_control u then Raw u else Esc (unat u))"

lemma js_text_written [simp]: "js_text (map written_char s) = s"
  by (induction s) (simp_all add: js_text_def written_char_def)

lemma go_text_esc_low:
  "n < 0x80 \<Longrightarrow> go_text (Esc n # cs) = of_nat n # go_text cs"
  by (cases cs rule: go_text.cases) (simp_all add: utf8_units_def utf8_cp_def unsigned_of_nat take_bit_nat_eq_self)

lemma written_esc_low: "written_char u = Esc n \<Longrightarrow> n < 0x80 \<and> of_nat n = u"
  by (auto simp: written_char_def short_escape_def html_or_control_def word_less_nat_alt split: if_splits)

lemma go_text_written [simp]: "go_text (map written_char s) = s"
proof (induction s)
  case (Cons u s)
  show ?case
  proof (cases "written_char u")
    case (Raw v)
    then have "v = u" by (simp add: written_char_def split: if_splits)
    with Raw Cons show ?thesis by simp
  next
    case (Esc n)
    with written_esc_low [OF Esc] Cons show ?thesis by (simp add: go_text_esc_low)
  qed
qed simp

lemma json_hex_small: "n < 16 \<Longrightarrow> json_hex (hex_small n) = Some n"
proof -
  assume n: "n < 16"
  then have u: "unat (hex_small n) = (if n < 10 then 48 + n else 87 + n)"
    by (simp add: hex_small_def unat_of_nat_unit del: of_nat_add)
  then show ?thesis
    using n by (auto simp: json_hex_def word_le_nat_alt)
qed

lemma read_escape:
  "json_read (stack, InString place cs) (json_escape u @ rest) =
     json_read (stack, InString place (cs @ [written_char u])) rest"
proof (cases "short_escape u")
  case (Some e)
  then have "e \<noteq> 117" "escape_of e = Some (unat u)"
    by (auto simp: short_escape_def escape_of_def split: if_splits)
  with Some show ?thesis by (simp add: json_escape_def written_char_def)
next
  case None
  show ?thesis
  proof (cases "html_or_control u")
    case True
    then have u: "unat u < 64" by (auto simp: html_or_control_def word_less_nat_alt)
    have d: "unat u div 16 < 16" "unat u mod 16 < 16" using u by linarith+
    have zero: "json_hex 48 = Some 0" by (simp add: json_hex_def)
    show ?thesis
      using None True
      by (simp add: json_escape_def written_char_def zero json_hex_small [OF d(1)] json_hex_small [OF d(2)])
  next
    case False
    with None show ?thesis
      by (auto simp: json_escape_def written_char_def short_escape_def html_or_control_def split: if_splits)
  qed
qed

lemma read_escapes:
  "json_read (stack, InString place cs) (concat (map json_escape s) @ rest) =
     json_read (stack, InString place (cs @ map written_char s)) rest"
  by (induction s arbitrary: cs) (simp_all add: read_escape)

text \<open>A string value, after its opening quote.\<close>

lemma read_string_value:
  "json_read (stack, InString ValueString []) (concat (map json_escape s) @ 34 # rest) =
     (case stack of [] \<Rightarrow> Value (JStr (map written_char s)) rest
      | _ \<Rightarrow> json_read (stack, AfterValue (JStr (map written_char s))) rest)"
  by (simp add: read_escapes end_string_def finish_def split: list.split)

section \<open>Numbers\<close>

lemma unat_digit: "n < 10 \<Longrightarrow> unat (of_nat (48 + n) :: code_unit) = 48 + n"
  by (simp add: unat_of_nat_unit del: of_nat_add)

lemma json_digit_iff: "json_digit u \<longleftrightarrow> 48 \<le> unat u \<and> unat u \<le> 57"
  by (simp add: json_digit_def word_le_nat_alt)

lemma json_digit_of_nat [simp]: "n < 10 \<Longrightarrow> json_digit (of_nat (48 + n))"
  by (simp add: json_digit_iff unat_digit del: of_nat_add)

lemma decimal_digits: "list_all json_digit (decimal n)"
proof (induction n rule: decimal.induct)
  case (1 n)
  then show ?case by (subst decimal.simps) (simp del: of_nat_add)
qed

lemma decimal_hd: "n \<noteq> 0 \<Longrightarrow> hd (decimal n) \<noteq> 48"
proof (induction n rule: decimal.induct)
  case (1 n)
  show ?case
  proof (cases "n < 10")
    case True
    have "unat (of_nat (48 + n) :: code_unit) \<noteq> 48" using True "1.prems" unat_digit by simp
    then have "of_nat (48 + n) \<noteq> (48 :: code_unit)" by auto
    with True show ?thesis by (subst decimal.simps) (simp del: of_nat_add)
  next
    case False
    with 1 show ?thesis by (subst decimal.simps) simp
  qed
qed

lemma read_digits:
  "list_all json_digit ds \<Longrightarrow>
   json_read (stack, InNumber NDigits cs) (ds @ rest) = json_read (stack, InNumber NDigits (cs @ ds)) rest"
  by (induction ds arbitrary: cs) (simp_all add: number_next_def)

text \<open>A natural number as a value, up to its last digit.\<close>

lemma read_decimal:
  "\<exists>m. number_complete m \<and> m \<in> {NZero, NDigits} \<and>
     json_read (stack, BeginValue) (decimal n @ rest) = json_read (stack, InNumber m (decimal n)) rest"
proof (cases "n = 0")
  case True
  then have "decimal n = [48]" by (subst decimal.simps) simp
  then show ?thesis
    by (intro exI [of _ NZero]) (simp add: begin_value_def number_complete_def json_space_def)
next
  case False
  obtain d ds where dds: "decimal n = d # ds" using decimal_not_Nil [of n] by (cases "decimal n") auto
  have d: "json_digit d" "d \<noteq> 48" and ds: "list_all json_digit ds"
    using decimal_digits [of n] decimal_hd [OF False] by (simp_all add: dds)
  have "begin_value stack d = Continue (stack, InNumber NDigits [d])" "\<not> json_space d"
    using d by (auto simp: begin_value_def json_digit_def json_space_def)
  then show ?thesis
    using read_digits [OF ds, of stack "[d]"]
    by (intro exI [of _ NDigits]) (simp add: dds number_complete_def)
qed

text \<open>\<open>strconv.ParseInt(s, 10, 64)\<close> and \<open>strconv.Atoi\<close>: a sign, at least one digit, and the range of \<open>int64\<close>.\<close>

definition digits_value :: "jsstring \<Rightarrow> nat" where
  "digits_value ds = foldl (\<lambda>v u. v * 10 + (unat u - 48)) 0 ds"

definition parse_int64 :: "jsstring \<Rightarrow> int option" where
  "parse_int64 s =
     (let negative = (s \<noteq> [] \<and> hd s = 45);
          ds = (if s \<noteq> [] \<and> (hd s = 45 \<or> hd s = 43) then tl s else s);
          v = (if negative then - int (digits_value ds) else int (digits_value ds))
      in if ds = [] \<or> \<not> list_all json_digit ds then None
         else if v < - (2 ^ 63) \<or> 2 ^ 63 \<le> v then None
         else Some v)"

lemma digits_value_decimal [simp]: "digits_value (decimal n) = n"
proof (induction n rule: decimal.induct)
  case (1 n)
  show ?case
  proof (cases "n < 10")
    case True
    then show ?thesis
      by (subst decimal.simps) (simp add: digits_value_def unat_digit del: of_nat_add)
  next
    case False
    have "n mod 10 < 10" by simp
    with 1 False show ?thesis
      by (subst decimal.simps) (simp add: digits_value_def unat_digit del: of_nat_add)
  qed
qed

lemma parse_int64_decimal: "int n < 2 ^ 63 \<Longrightarrow> parse_int64 (decimal n) = Some (int n)"
proof -
  assume n: "int n < 2 ^ 63"
  obtain d ds where dds: "decimal n = d # ds" using decimal_not_Nil [of n] by (cases "decimal n") auto
  have "json_digit d" using decimal_digits [of n] by (simp add: dds)
  then have "d \<noteq> 45" "d \<noteq> 43" by (auto simp: json_digit_def)
  then have "\<not> (decimal n \<noteq> [] \<and> hd (decimal n) = 45)"
    "\<not> (decimal n \<noteq> [] \<and> (hd (decimal n) = 45 \<or> hd (decimal n) = 43))"
    by (simp_all add: dds)
  with n show ?thesis
    using decimal_digits [of n] by (simp add: parse_int64_def Let_def)
qed


section \<open>Objects\<close>

text \<open>An object as \<open>json.Marshal\<close> writes it, from its names and the texts of its values.\<close>

fun json_members :: "(jsstring \<times> jsstring) list \<Rightarrow> jsstring" where
  "json_members [] = []"
| "json_members [(k, w)] = json_string k @ 58 # w"
| "json_members ((k, w) # m # ms) = json_string k @ 58 # w @ 44 # json_members (m # ms)"

definition json_object :: "(jsstring \<times> jsstring) list \<Rightarrow> jsstring" where
  "json_object ms = 123 # json_members ms @ [125]"

text \<open>A text that the reader takes as a given value, inside an object.\<close>

definition reads :: "jsstring \<Rightarrow> json \<Rightarrow> bool" where
  "reads w v \<longleftrightarrow> (\<forall>stack c rest. stack \<noteq> [] \<longrightarrow> c = 44 \<or> c = 125 \<longrightarrow>
     json_read (stack, BeginValue) (w @ c # rest) = json_read (stack, AfterValue v) (c # rest))"

lemma readsD:
  "reads w v \<Longrightarrow> stack \<noteq> [] \<Longrightarrow> c = 44 \<or> c = 125 \<Longrightarrow>
   json_read (stack, BeginValue) (w @ c # rest) = json_read (stack, AfterValue v) (c # rest)"
  unfolding reads_def by blast

lemma reads_string: "reads (json_string s) (JStr (map written_char s))"
proof -
  have "json_read (f # fs, BeginValue) (json_string s @ c # rest) =
      json_read (f # fs, AfterValue (JStr (map written_char s))) (c # rest)" for f fs c rest
    using read_string_value [of "f # fs" s "c # rest"]
    by (simp add: json_string_def json_space_def begin_value_def)
  then show ?thesis by (simp add: reads_def neq_Nil_conv) blast
qed

lemma reads_decimal: "reads (decimal n) (JNum (decimal n))"
proof -
  have "json_read (f # fs, BeginValue) (decimal n @ c # rest) =
      json_read (f # fs, AfterValue (JNum (decimal n))) (c # rest)" if "c = 44 \<or> c = 125" for f fs c rest
  proof -
    obtain m where m: "number_complete m" "m \<in> {NZero, NDigits}"
      "json_read (f # fs, BeginValue) (decimal n @ c # rest) = json_read (f # fs, InNumber m (decimal n)) (c # rest)"
      using read_decimal [of "f # fs" n "c # rest"] by blast
    moreover have "number_next m c = None"
      using m(2) that by (auto simp: number_next_def json_digit_def)
    ultimately show ?thesis by simp
  qed
  then show ?thesis by (simp add: reads_def neq_Nil_conv) blast
qed

text \<open>What is read back: the names and values in their order.\<close>

lemma read_members:
  assumes "ms \<noteq> []" and "list_all (\<lambda>(k, w, v). reads w v) ms"
  shows "json_read ([], BeginKey ps) (json_members (map (\<lambda>(k, w, v). (k, w)) ms) @ 125 # rest) =
    Value (JObj (ps @ map (\<lambda>(k, w, v). (map written_char k, v)) ms)) rest"
  using assms
proof (induction ms arbitrary: ps)
  case (Cons m ms)
  obtain k w v where m: "m = (k, w, v)" by (cases m)
  have key: "json_read ([], BeginKey ps) (json_string k @ 58 # w @ c # more) =
      json_read ([ObjFrame ps (map written_char k)], AfterValue v) (c # more)" if "c = 44 \<or> c = 125" for c more
    using readsD [of w v "[ObjFrame ps (map written_char k)]" c more] Cons.prems(2) that m
    by (simp add: json_string_def json_space_def read_escapes end_string_def del: json_step.simps(12))
  show ?case
  proof (cases ms)
    case Nil
    then show ?thesis using key [of 125 rest] m by (simp add: after_value_def json_space_def finish_def)
  next
    case (Cons m' ms')
    obtain k' w' v' where m': "m' = (k', w', v')" by (cases m')
    have "json_members (map (\<lambda>(k, w, v). (k, w)) (m # ms)) @ 125 # rest =
        json_string k @ 58 # w @ 44 # json_members (map (\<lambda>(k, w, v). (k, w)) ms) @ 125 # rest"
      by (simp add: Cons m m')
    then show ?thesis
      using key [of 44] Cons.IH [of "ps @ [(map written_char k, v)]"] Cons.prems(2) Cons m
      by (simp add: after_value_def json_space_def)
  qed
qed simp

lemma read_object:
  assumes "ms \<noteq> []" and "list_all (\<lambda>(k, w, v). reads w v) ms"
  shows "json_read ([], BeginValue) (json_object (map (\<lambda>(k, w, v). (k, w)) ms) @ rest) =
    Value (JObj (map (\<lambda>(k, w, v). (map written_char k, v)) ms)) rest"
proof -
  obtain k w v ms' where ms: "ms = (k, w, v) # ms'" using assms(1) by (metis list.exhaust prod_cases3)
  obtain tail where "json_members (map (\<lambda>(k, w, v). (k, w)) ms) = 34 # tail"
    by (cases ms') (auto simp: ms json_string_def)
  with read_members [OF assms, of "[]" rest] show ?thesis
    by (simp add: json_object_def begin_value_def json_space_def max_nesting_def)
qed

lemma parse_object:
  assumes "ms \<noteq> []" and "list_all (\<lambda>(k, w, v). reads w v) ms"
  shows "json_parse (json_object (map (\<lambda>(k, w, v). (k, w)) ms)) =
    Some (JObj (map (\<lambda>(k, w, v). (map written_char k, v)) ms))"
  using read_object [OF assms, of "[]"] by (simp add: json_parse_def)

text \<open>Names of struct fields are matched without regard to the case of ASCII letters.\<close>

definition lower :: "code_unit \<Rightarrow> code_unit" where
  "lower u = (if 65 \<le> u \<and> u \<le> 90 then u + 32 else u)"

definition field_is :: "string \<Rightarrow> json_char list \<Rightarrow> bool" where
  "field_is name k \<longleftrightarrow> map lower (go_text k) = js name"

lemma field_is_written: "field_is name (map written_char k) \<longleftrightarrow> map lower k = js name"
  by (simp add: field_is_def)

text \<open>A string member in the browser: of several members with one name the last counts.\<close>

definition js_field :: "string \<Rightarrow> json \<Rightarrow> jsstring option" where
  "js_field name v =
     (case v of
        JObj ms \<Rightarrow>
          (case map_of (rev (map (\<lambda>(k, w). (js_text k, w)) ms)) (js name) of
             Some (JStr cs) \<Rightarrow> Some (js_text cs)
           | _ \<Rightarrow> None)
      | _ \<Rightarrow> None)"

end
