(* ===== verification/Handlers.thy ===== *)
theory Handlers
  imports GoJson KeyGen
begin

text \<open>
  \<open>handlers/handlers.go\<close>: the settings, the response a handler writes, the decoding of the request of
  \<open>POST /api/keys\<close>, and the handlers. A handler takes the state of the store and the response writer and
  gives both back. The store's operations, the outcome of \<open>generateKey\<close> and the execution of the page
  templates are arguments; logging is left out. Durations are nanoseconds.
\<close>

section \<open>Settings\<close>

definition minTTL :: int where
  "minTTL = 60 * second"

definition maxAllowedTTL :: int where
  "maxAllowedTTL = 7 * 24 * 3600 * second"

definition defaultTTL :: int where
  "defaultTTL = 24 * 3600 * second"

definition defaultAutoHideSeconds :: int where
  "defaultAutoHideSeconds = 60"

text \<open>The fields of \<open>Handlers\<close> that are settings; the store and the templates are arguments.\<close>

record handler_settings =
  autoHide :: int
  maxTTL :: int

definition New :: handler_settings where
  "New = \<lparr>autoHide = defaultAutoHideSeconds, maxTTL = maxAllowedTTL\<rparr>"

definition SetAutoHideSeconds :: "int \<Rightarrow> handler_settings \<Rightarrow> handler_settings" where
  "SetAutoHideSeconds seconds h = (if 0 < seconds then h\<lparr>autoHide := seconds\<rparr> else h)"

definition SetMaxTTL :: "int \<Rightarrow> handler_settings \<Rightarrow> handler_settings" where
  "SetMaxTTL ttl h = (if minTTL \<le> ttl \<and> ttl \<le> maxAllowedTTL then h\<lparr>maxTTL := ttl\<rparr> else h)"

section \<open>The response writer\<close>

text \<open>
  Header fields can be set until the status goes out; the first \<open>WriteHeader\<close> or \<open>Write\<close> sends it with the
  fields as they are then.
\<close>

type_synonym header_fields = "jsstring \<rightharpoonup> jsstring"

record reply_writer =
  w_fields :: header_fields
  w_sent :: "(nat \<times> header_fields) option"
  w_body :: jsstring

definition new_writer :: reply_writer where
  "new_writer = \<lparr>w_fields = Map.empty, w_sent = None, w_body = []\<rparr>"

definition header_set :: "string \<Rightarrow> string \<Rightarrow> reply_writer \<Rightarrow> reply_writer" where
  "header_set name v w = w\<lparr>w_fields := (w_fields w)(js name \<mapsto> js v)\<rparr>"

definition write_header :: "nat \<Rightarrow> reply_writer \<Rightarrow> reply_writer" where
  "write_header code w = (case w_sent w of None \<Rightarrow> w\<lparr>w_sent := Some (code, w_fields w)\<rparr> | Some _ \<Rightarrow> w)"

definition write_body :: "jsstring \<Rightarrow> reply_writer \<Rightarrow> reply_writer" where
  "write_body bs w = (let w1 = write_header 200 w in w1\<lparr>w_body := w_body w1 @ bs\<rparr>)"

text \<open>\<open>http.Error\<close> and \<open>http.NotFound\<close>.\<close>

definition http_error :: "string \<Rightarrow> nat \<Rightarrow> reply_writer \<Rightarrow> reply_writer" where
  "http_error msg code w =
     write_body (js msg @ [10])
       (write_header code
         (header_set ''X-Content-Type-Options'' ''nosniff''
           (header_set ''Content-Type'' ''text/plain; charset=utf-8'' w)))"

definition not_found :: "reply_writer \<Rightarrow> reply_writer" where
  "not_found w = http_error ''404 page not found'' 404 w"

section \<open>The request of POST /api/keys\<close>

text \<open>
  \<open>createKeyRequest\<close>, one member at a time, with \<open>DisallowUnknownFields\<close>: an unknown name, or a value that is
  neither \<open>null\<close> nor an integer of 64 bits, is an error. \<open>null\<close> leaves the value, the last member counts.
\<close>

definition request_member :: "int \<Rightarrow> json_char list \<times> json \<Rightarrow> int option" where
  "request_member ttl m =
     (if field_is ''ttl'' (fst m) then
        (case snd m of
           JNum cs \<Rightarrow> parse_int64 cs
         | JNull \<Rightarrow> Some ttl
         | _ \<Rightarrow> None)
      else None)"

text \<open>The pointer \<open>req\<close> after a value was read: \<open>null\<close> leaves it nil.\<close>

definition createKeyRequest :: "json \<Rightarrow> int option option" where
  "createKeyRequest v =
     (case v of
        JNull \<Rightarrow> Some None
      | JObj ms \<Rightarrow>
          map_option Some (foldl (\<lambda>acc m. Option.bind acc (\<lambda>ttl. request_member ttl m)) (Some 0) ms)
      | _ \<Rightarrow> None)"

datatype decode_error = MaxBytesError | OtherError

text \<open>
  The two \<open>Decode\<close> calls. An empty body gives the zero request; \<open>null\<close>, a second value or anything else after
  the first is an error. 
\<close>

definition decode_request :: "stream_end \<Rightarrow> jsstring \<Rightarrow> decode_error + int" where
  "decode_request ending input =
     (case decode_next ending input of
        EndOfInput \<Rightarrow> Inr 0
      | BodyTooLarge \<Rightarrow> Inl MaxBytesError
      | JsonError \<Rightarrow> Inl OtherError
      | Decoded v rest \<Rightarrow>
          (case createKeyRequest v of
             None \<Rightarrow> Inl OtherError
           | Some None \<Rightarrow> Inl OtherError
           | Some (Some ttl) \<Rightarrow>
               (case decode_next ending rest of
                  EndOfInput \<Rightarrow> Inr ttl
                | BodyTooLarge \<Rightarrow> Inl MaxBytesError
                | _ \<Rightarrow> Inl OtherError)))"

text \<open>The expiry of the key; \<open>None\<close> is \<open>invalid_ttl\<close>.\<close>

definition request_ttl :: "handler_settings \<Rightarrow> int \<Rightarrow> int option" where
  "request_ttl h ttl =
     (if ttl = 0 then Some (if maxTTL h < defaultTTL then maxTTL h else defaultTTL)
      else if ttl < minTTL div second \<or> maxTTL h div second < ttl then None
      else Some (ttl * second))"

section \<open>The key handlers\<close>

definition writeJSONError :: "nat \<Rightarrow> string \<Rightarrow> reply_writer \<Rightarrow> reply_writer" where
  "writeJSONError code err w =
     write_body (json_object [(js ''error'', json_string (js err))] @ [10])
       (write_header code (header_set ''Content-Type'' ''application/json'' w))"

definition writeDecodeError :: "decode_error \<Rightarrow> reply_writer \<Rightarrow> reply_writer" where
  "writeDecodeError err w =
     (case err of
        MaxBytesError \<Rightarrow> writeJSONError 413 ''request_body_too_large'' w
      | OtherError \<Rightarrow> writeJSONError 400 ''invalid_request'' w)"

definition CreateKeyResponse :: "jsstring \<Rightarrow> jsstring \<Rightarrow> jsstring" where
  "CreateKeyResponse keyId pubPEM =
     json_object [(js ''id'', json_string keyId), (js ''pub_pem'', json_string pubPEM)]"

definition internal_error :: "reply_writer \<Rightarrow> reply_writer" where
  "internal_error w = http_error ''internal error'' 500 w"

definition CreateKey ::
  "handler_settings \<Rightarrow> (jsstring \<times> jsstring) option \<Rightarrow> (jsstring \<Rightarrow> int \<Rightarrow> 's \<Rightarrow> 's \<times> jsstring option) \<Rightarrow>
   stream_end \<Rightarrow> jsstring \<Rightarrow> 's \<times> reply_writer \<Rightarrow> 's \<times> reply_writer"
where
  "CreateKey h keypair save ending input sw =
     (let (s, w) = sw in
      case decode_request ending input of
        Inl err \<Rightarrow> (s, writeDecodeError err w)
      | Inr seconds \<Rightarrow>
          (case request_ttl h seconds of
             None \<Rightarrow> (s, writeJSONError 400 ''invalid_ttl'' w)
           | Some ttl \<Rightarrow>
               (case keypair of
                  None \<Rightarrow> (s, internal_error w)
                | Some (pub, priv) \<Rightarrow>
                    (case save priv ttl s of
                       (s', None) \<Rightarrow> (s', internal_error w)
                     | (s', Some keyId) \<Rightarrow>
                         (s', write_body (CreateKeyResponse keyId pub)
                           (write_header 201 (header_set ''Content-Type'' ''application/json'' w)))))))"

definition FetchKey ::
  "(jsstring \<Rightarrow> 's \<Rightarrow> 's \<times> ('e + jsstring option)) \<Rightarrow> jsstring \<Rightarrow> 's \<times> reply_writer \<Rightarrow> 's \<times> reply_writer"
where
  "FetchKey load keyId sw =
     (let (s, w) = sw in
      case load keyId s of
        (s', Inl _) \<Rightarrow> (s', internal_error w)
      | (s', Inr None) \<Rightarrow> (s', not_found w)
      | (s', Inr (Some key)) \<Rightarrow> (s', write_body key (write_header 200 w)))"

section \<open>The pages\<close>

record page_data =
  Title :: jsstring
  Page :: jsstring
  BodyClass :: jsstring
  BodyTemplate :: jsstring
  ScriptPath :: jsstring
  VendorScripts :: "(jsstring \<times> jsstring) list"
  ShareID :: jsstring
  AutoHideSeconds :: int
  MaxTTLSeconds :: int
  StatusCode :: nat

text \<open>The templates: none, or what executing \<open>base\<close> gives, with \<open>None\<close> for an error.\<close>

type_synonym page_templates = "(page_data \<Rightarrow> jsstring option) option"

definition renderPage :: "page_templates \<Rightarrow> page_data \<Rightarrow> reply_writer \<Rightarrow> reply_writer" where
  "renderPage templates pd w =
     (case templates of
        None \<Rightarrow> internal_error w
      | Some execute \<Rightarrow>
          (case execute pd of
             None \<Rightarrow> internal_error w
           | Some html \<Rightarrow>
               write_body html
                 (write_header (if StatusCode pd = 0 then 200 else StatusCode pd)
                   (header_set ''Content-Type'' ''text/html; charset=utf-8'' w))))"

definition home_data :: "handler_settings \<Rightarrow> page_data" where
  "home_data h =
     \<lparr>Title = js ''Create a secure note'', Page = js ''create'', BodyClass = js ''page-create'',
      BodyTemplate = js ''create-body'', ScriptPath = js ''/static/app.js'',
      VendorScripts = [(js ''/static/qrcode.js'',
        js ''sha384-ahLw45Nl1X/zUAno5v8A1m7qYEzDIOrQtPeIGkG/a+vFi9BC17OhLEhzDJZUHqN2'')],
      ShareID = [], AutoHideSeconds = autoHide h, MaxTTLSeconds = maxTTL h div second, StatusCode = 0\<rparr>"

definition HomePage :: "handler_settings \<Rightarrow> page_templates \<Rightarrow> reply_writer \<Rightarrow> reply_writer" where
  "HomePage h templates w = renderPage templates (home_data h) w"

definition NotFoundPage :: "page_templates \<Rightarrow> reply_writer \<Rightarrow> reply_writer" where
  "NotFoundPage templates w = renderPage templates
     \<lparr>Title = js ''Page not found'', Page = js ''error'', BodyClass = js ''page-error'',
      BodyTemplate = js ''error-body'', ScriptPath = [], VendorScripts = [], ShareID = [],
      AutoHideSeconds = 0, MaxTTLSeconds = 0, StatusCode = 404\<rparr> w"

definition share_data :: "handler_settings \<Rightarrow> jsstring \<Rightarrow> page_data" where
  "share_data h shareId =
     \<lparr>Title = js ''Open a shared note'', Page = js ''share'', BodyClass = js ''page-share'',
      BodyTemplate = js ''share-body'', ScriptPath = js ''/static/app.js'', VendorScripts = [],
      ShareID = shareId, AutoHideSeconds = autoHide h, MaxTTLSeconds = 0, StatusCode = 0\<rparr>"

definition SharePage_handler :: "handler_settings \<Rightarrow> page_templates \<Rightarrow> jsstring \<Rightarrow> reply_writer \<Rightarrow> reply_writer" where
  "SharePage_handler h templates shareId w = renderPage templates (share_data h shareId) w"


section \<open>What the settings can be\<close>

definition settings_ok :: "handler_settings \<Rightarrow> bool" where
  "settings_ok h \<longleftrightarrow> minTTL \<le> maxTTL h \<and> maxTTL h \<le> maxAllowedTTL \<and> 0 < autoHide h"

lemmas duration_defs = second_def minTTL_def maxAllowedTTL_def defaultTTL_def

lemma New_ok: "settings_ok New"
  by (simp add: settings_ok_def New_def duration_defs defaultAutoHideSeconds_def)

lemma setters_ok:
  "settings_ok h \<Longrightarrow> settings_ok (SetAutoHideSeconds n h)"
  "settings_ok h \<Longrightarrow> settings_ok (SetMaxTTL d h)"
  by (auto simp: settings_ok_def SetAutoHideSeconds_def SetMaxTTL_def)

lemma request_ttl_range:
  assumes "settings_ok h" and "request_ttl h n = Some ttl"
  shows "minTTL \<le> ttl \<and> ttl \<le> maxTTL h"
proof (cases "n = 0")
  case True
  with assms show ?thesis by (auto simp: request_ttl_def settings_ok_def duration_defs split: if_splits)
next
  case False
  with assms(2) have "ttl = n * second" "minTTL div second \<le> n" "n \<le> maxTTL h div second"
    by (auto simp: request_ttl_def split: if_splits)
  moreover have "maxTTL h div second * second \<le> maxTTL h" by (simp add: second_def)
  ultimately show ?thesis by (auto simp: duration_defs)
qed

section \<open>Where a body ends\<close>

text \<open>The reader never comes back to the start of a text.\<close>

lemma step_leaves_start:
  assumes "json_step r u = Continue ([], BeginValue)"
  shows "r = ([], BeginValue) \<and> json_space u"
proof -
  obtain stack m where r: "r = (stack, m)" by (cases r)
  have begins: "begin_value fs u \<noteq> Continue ([], BeginValue)" for fs
    by (simp add: begin_value_def)
  have afters: "after_value fs v u \<noteq> Continue ([], BeginValue)" for fs v
    by (auto simp: after_value_def finish_def split: list.split frame.split)
  have finishes: "finish fs v \<noteq> Continue ([], BeginValue)" for fs v
    by (simp add: finish_def split: list.split)
  show ?thesis
  proof (cases m)
    case BeginValue
    with assms r show ?thesis using begins by (auto split: if_splits)
  next
    case (InString place cs)
    with assms r show ?thesis using finishes
      by (auto simp: end_string_def split: if_splits string_place.splits)
  next
    case (InLiteral cs v)
    with assms r show ?thesis using finishes by (cases cs) (auto split: if_splits)
  next
    case (InNumber nm cs)
    with assms r show ?thesis using afters by (auto split: option.splits if_splits)
  qed (use assms r begins afters finishes in \<open>auto split: if_splits option.splits\<close>)
qed

lemma read_at_start:
  "json_read r input = Unfinished ([], BeginValue) \<longleftrightarrow> r = ([], BeginValue) \<and> list_all json_space input"
proof (induction r input rule: json_read.induct)
  case (2 r u us)
  show ?case
  proof (cases "json_step r u")
    case (Continue r')
    have "r' = ([], BeginValue) \<longleftrightarrow> r = ([], BeginValue) \<and> json_space u"
    proof
      assume "r' = ([], BeginValue)"
      with Continue step_leaves_start show "r = ([], BeginValue) \<and> json_space u" by blast
    next
      assume "r = ([], BeginValue) \<and> json_space u"
      with Continue show "r' = ([], BeginValue)" by simp
    qed
    with "2.IH" [OF Continue] Continue show ?thesis by auto
  qed (auto split: if_splits)
qed simp

lemma decode_end: "decode_next AtEof input = EndOfInput \<longleftrightarrow> list_all json_space input"
proof
  assume "decode_next AtEof input = EndOfInput"
  then have "json_read ([], BeginValue) input = Unfinished ([], BeginValue)"
    by (auto simp: decode_next_def split: read_result.splits mode.splits if_splits prod.splits)
  then show "list_all json_space input" by (simp add: read_at_start)
next
  assume "list_all json_space input"
  then have "json_read ([], BeginValue) input = Unfinished ([], BeginValue)" by (simp add: read_at_start)
  then show "decode_next AtEof input = EndOfInput" by (simp add: decode_next_def)
qed

text \<open>So a body is an object and white space. This is the body the browser sends.\<close>

definition ttl_object :: "nat \<Rightarrow> jsstring" where
  "ttl_object n = json_object [(js ''ttl'', decimal n)]"

lemma ttl_field: "field_is ''ttl'' (map written_char (js ''ttl''))"
  unfolding field_is_written by (simp add: lower_def js_simps)

lemma decode_ttl_object:
  assumes "int n < 2 ^ 63"
  shows "decode_request AtEof (ttl_object n @ rest) = (if list_all json_space rest then Inr (int n) else Inl OtherError)"
proof -
  have "json_read ([], BeginValue) (ttl_object n @ rest) =
      Value (JObj [(map written_char (js ''ttl''), JNum (decimal n))]) rest"
    using read_object [of "[(js ''ttl'', decimal n, JNum (decimal n))]" rest]
    by (simp add: ttl_object_def reads_decimal)
  then have "decode_next AtEof (ttl_object n @ rest) =
      Decoded (JObj [(map written_char (js ''ttl''), JNum (decimal n))]) rest"
    by (simp add: decode_next_def)
  moreover have "decode_next AtEof rest \<noteq> BodyTooLarge"
    by (simp add: decode_next_def split: read_result.split mode.split prod.split)
  ultimately show ?thesis
    using assms decode_end [of rest] ttl_field
    by (auto simp: decode_request_def createKeyRequest_def request_member_def parse_int64_decimal
        split: decode_result.split)
qed

lemma decode_too_large: "decode_request ending input = Inl MaxBytesError \<Longrightarrow> ending = CutOff"
  by (cases ending)
     (auto simp: decode_request_def decode_next_def split: decode_result.splits option.splits read_result.splits
       prod.splits mode.splits if_splits)


section \<open>Properties\<close>

definition reply_status :: "reply_writer \<Rightarrow> nat option" where
  "reply_status w = map_option fst (w_sent w)"

lemmas writer_defs = reply_status_def writeJSONError_def writeDecodeError_def internal_error_def http_error_def
  not_found_def write_body_def write_header_def header_set_def new_writer_def Let_def

lemma response_parses:
  "json_parse (CreateKeyResponse keyId pub) = Some v \<Longrightarrow> js_field ''id'' v = Some keyId \<and> js_field ''pub_pem'' v = Some pub"
proof -
  assume "json_parse (CreateKeyResponse keyId pub) = Some v"
  then have v: "v = JObj [(map written_char (js ''id''), JStr (map written_char keyId)),
      (map written_char (js ''pub_pem''), JStr (map written_char pub))]"
    using parse_object [of "[(js ''id'', json_string keyId, JStr (map written_char keyId)),
      (js ''pub_pem'', json_string pub, JStr (map written_char pub))]"]
    by (simp add: CreateKeyResponse_def reads_string)
  have "js ''id'' \<noteq> js ''pub_pem''" by (simp add: js_simps)
  then show ?thesis by (simp add: v js_field_def)
qed

lemma response_is_json: "\<exists>v. json_parse (CreateKeyResponse keyId pub) = Some v"
  using parse_object [of "[(js ''id'', json_string keyId, JStr (map written_char keyId)),
      (js ''pub_pem'', json_string pub, JStr (map written_char pub))]"]
  by (simp add: CreateKeyResponse_def reads_string)

text \<open>The expiry of such a body, and the whole handler on one, with any fields set before.\<close>

lemma object_ttl:
  assumes "60 \<le> n" and "int n \<le> maxTTL h div second" and "settings_ok h"
  shows "int n < 2 ^ 63" and "request_ttl h (int n) = Some (int n * second)"
proof -
  have "maxTTL h div second \<le> maxAllowedTTL div second"
    using assms(3) by (intro zdiv_mono1) (simp_all add: settings_ok_def second_def)
  with assms(2) show "int n < 2 ^ 63" by (simp add: duration_defs)
  show "request_ttl h (int n) = Some (int n * second)"
    using assms(1,2) by (simp add: request_ttl_def minTTL_def second_def)
qed

lemma create_on_object:
  assumes "60 \<le> n" and "int n \<le> maxTTL h div second" and "settings_ok h" and "list_all json_space rest"
    and "save priv (int n * second) s = (s', Some keyId)"
  shows "CreateKey h (Some (pub, priv)) save AtEof (ttl_object n @ rest) (s, w) =
    (s', write_body (CreateKeyResponse keyId pub)
      (write_header 201 (header_set ''Content-Type'' ''application/json'' w)))"
  using assms(4,5) decode_ttl_object [OF object_ttl(1) [OF assms(1-3)], of rest] object_ttl(2) [OF assms(1-3)]
  by (simp add: CreateKey_def)

text \<open>The request the create page sends is served. For an expiry between a minute and the configured maximum,
  with nothing but white space after the object, the private key is saved for exactly that time, and the
  reply is a 201 whose JSON the browser reads as the new ID and the public key. With anything else after
  the object the reply is 400 and nothing is saved.\<close>
theorem create_key_served:
  assumes "60 \<le> n" and "int n \<le> maxTTL h div second" and "settings_ok h"
    and "save priv (int n * second) s = (s', Some keyId)"
    and "CreateKey h (Some (pub, priv)) save AtEof (ttl_object n @ rest) (s, new_writer) = (t, w)"
  shows "if list_all json_space rest
    then t = s' \<and> w_sent w = Some (201, [js ''Content-Type'' \<mapsto> js ''application/json'']) \<and>
      (\<exists>v. json_parse (w_body w) = Some v \<and> js_field ''id'' v = Some keyId \<and> js_field ''pub_pem'' v = Some pub)
    else t = s \<and> reply_status w = Some 400"
proof (cases "list_all json_space rest")
  case True
  then have "t = s'" "w = write_body (CreateKeyResponse keyId pub)
      (write_header 201 (header_set ''Content-Type'' ''application/json'' new_writer))"
    using assms(5) create_on_object [where save = save, OF assms(1-3) True assms(4)] by simp_all
  with True response_is_json [of keyId pub] response_parses show ?thesis by (auto simp: writer_defs)
next
  case False
  then show ?thesis
    using assms(5) decode_ttl_object [OF object_ttl(1) [OF assms(1-3)]] by (auto simp: CreateKey_def writer_defs)
qed

theorem create_key_served_witness:
  "fst (CreateKey New (Some (js ''pub'', js ''priv'')) (\<lambda>pem ttl s. ((pem, ttl) # s, Some (js ''1''))) AtEof
     (ttl_object 3600 @ []) ([], new_writer)) = [(js ''priv'', 3600 * second)]"
proof -
  let ?save = "\<lambda>pem ttl s. ((pem, ttl) # s, Some (js ''1''))"
  obtain t w where call: "CreateKey New (Some (js ''pub'', js ''priv'')) ?save AtEof (ttl_object 3600 @ []) ([], new_writer) = (t, w)"
    by fastforce
  have "(60 :: nat) \<le> 3600" "int 3600 \<le> maxTTL New div second" by (simp_all add: New_def duration_defs)
  from create_key_served [where save = ?save, OF this New_ok refl call] call show ?thesis by simp
qed

text \<open>C12: Whatever the request body, and however key generation and saving end: the reply is 201, 400, 413 or 500;
  413 only if the body was cut off at its limit; after 400 and 413 the store is as before; and the store
  changes, or the reply is 201, only by one save of the generated private key with a time to live between
  one minute and the configured maximum.\<close>
theorem create_key_bounds:
  assumes "settings_ok h" and "CreateKey h keypair save ending input (s, new_writer) = (t, w)"
  shows "\<exists>code. reply_status w = Some code \<and> code \<in> {201, 400, 413, 500} \<and> (code = 413 \<longrightarrow> ending = CutOff) \<and>
    (code \<in> {400, 413} \<longrightarrow> t = s) \<and>
    (code = 201 \<or> t \<noteq> s \<longrightarrow> (\<exists>pub priv ttl. keypair = Some (pub, priv) \<and> minTTL \<le> ttl \<and> ttl \<le> maxTTL h \<and>
       maxTTL h \<le> maxAllowedTTL \<and> t = fst (save priv ttl s) \<and> (code = 201 \<longleftrightarrow> snd (save priv ttl s) \<noteq> None)))"
proof (cases "decode_request ending input")
  case (Inl err)
  then show ?thesis
    using assms(2) decode_too_large by (cases err) (auto simp: CreateKey_def writer_defs)
next
  case (Inr seconds)
  show ?thesis
  proof (cases "request_ttl h seconds")
    case None
    with Inr assms(2) show ?thesis by (auto simp: CreateKey_def writer_defs)
  next
    case (Some ttl)
    note range = request_ttl_range [OF assms(1) Some] assms(1) [unfolded settings_ok_def]
    show ?thesis
    proof (cases keypair)
      case None
      with Inr Some assms(2) show ?thesis by (auto simp: CreateKey_def writer_defs)
    next
      case (Some kp)
      obtain pub priv where kp: "kp = (pub, priv)" by (cases kp)
      obtain s' r where save: "save priv ttl s = (s', r)" by (cases "save priv ttl s")
      have "t = s' \<and> reply_status w = Some (if r = None then 500 else 201)"
        using assms(2) Inr \<open>request_ttl h seconds = Some ttl\<close> Some kp save
        by (cases r) (auto simp: CreateKey_def writer_defs)
      with Some kp save range show ?thesis by (cases r) auto
    qed
  qed
qed

theorem create_key_bounds_witness:
  "\<exists>code. reply_status (snd (CreateKey New None (\<lambda>pem ttl s. (s, None)) CutOff (js ''{'') (0 :: nat, new_writer))) = Some code \<and>
     code \<in> {201, 400, 413, 500}"
proof -
  let ?save = "\<lambda>(pem :: jsstring) (ttl :: int) (s :: nat). (s, None :: jsstring option)"
  obtain t w where call: "CreateKey New None ?save CutOff (js ''{'') (0 :: nat, new_writer) = (t, w)" by fastforce
  from create_key_bounds [OF New_ok call] call show ?thesis by auto
qed

end
