(* ===== verification/RedisDb.thy ===== *)
theory RedisDb
  imports GoJson
begin

text \<open>
  The Redis database the server runs on, three times.

  \<^item> \<open>redis_view\<close>: what a database holds, each key with its text and the time it has left. The commands
    the program uses, as functions on that map, are the abstract specification.
  \<^item> \<open>redis_ops\<close> and the interface \<open>redis_server\<close>: Redis itself is not in the repository, so the store and
    the rate limiter take its commands as a parameter; the interface states their documented effect.
  \<^item> \<open>redis_db\<close>: the server the repository's tests run on, \<open>vendor/github.com/alicebob/miniredis\<close>, with its
    three maps. It refines the abstract commands and is an interpretation of the interface.

  A command can be executed while its reply is lost; the client of \<open>vendor/github.com/go-redis\<close> then sends
  it again. \<open>redis_call\<close> is that retry loop. Times are nanoseconds.
\<close>

section \<open>The abstract database\<close>

type_synonym redis_view = "jsstring \<rightharpoonup> jsstring \<times> int option"

definition view_set :: "jsstring \<Rightarrow> jsstring \<Rightarrow> int \<Rightarrow> redis_view \<Rightarrow> redis_view" where
  "view_set k v ttl V = V(k \<mapsto> (v, Some ttl))"

definition view_getdel :: "jsstring \<Rightarrow> redis_view \<Rightarrow> redis_view \<times> jsstring option" where
  "view_getdel k V = (V(k := None), map_option fst (V k))"

text \<open>
  The script of the rate limiter: increment, and give a new counter an hour to live. \<open>None\<close> is an error
  reply, for a text that is not a number or the largest one.
\<close>

definition window :: int where
  "window = 3600 * 10 ^ 9"

definition view_count :: "jsstring \<Rightarrow> redis_view \<Rightarrow> redis_view \<times> int option" where
  "view_count k V =
     (case V k of
        None \<Rightarrow> (V(k \<mapsto> (decimal 1, Some window)), Some 1)
      | Some (s, t) \<Rightarrow>
          (case parse_int64 s of
             None \<Rightarrow> (V, None)
           | Some n \<Rightarrow>
               if n = 2 ^ 63 - 1 then (V, None)
               else if n < 0 then (V(k \<mapsto> (if n = -1 then decimal 0 else 45 # decimal (nat (- n - 1)), t)), Some (n + 1))
               else (V(k \<mapsto> (decimal (nat n + 1), if n = 0 then Some window else t)), Some (n + 1))))"

definition view_elapse :: "int \<Rightarrow> redis_view \<Rightarrow> redis_view" where
  "view_elapse d V k =
     (case V k of
        Some (v, Some t) \<Rightarrow> if t \<le> d then None else Some (v, Some (t - d))
      | e \<Rightarrow> e)"

section \<open>What the client sends\<close>

text \<open>
  Durations are 64-bit numbers of nanoseconds. The client of go-redis sends a time to live in milliseconds,
  with at least one, when it is below a second or not in whole seconds, and in seconds otherwise.
\<close>

definition to_duration :: "int \<Rightarrow> int" where
  "to_duration n = (n + 2 ^ 63) mod 2 ^ 64 - 2 ^ 63"

definition positive_duration :: "int \<Rightarrow> bool" where
  "positive_duration d \<longleftrightarrow> 0 < d \<and> d < 2 ^ 63"

definition millisecond :: int where
  "millisecond = 10 ^ 6"

definition usePrecise :: "int \<Rightarrow> bool" where
  "usePrecise dur \<longleftrightarrow> dur < second \<or> dur mod second \<noteq> 0"

definition formatMs :: "int \<Rightarrow> int" where
  "formatMs dur = (if 0 < dur \<and> dur < millisecond then 1 else dur div millisecond)"

definition formatSec :: "int \<Rightarrow> int" where
  "formatSec dur = (if 0 < dur \<and> dur < second then 1 else dur div second)"

definition Set_args :: "jsstring \<Rightarrow> jsstring \<Rightarrow> int \<Rightarrow> jsstring list" where
  "Set_args k v expiration =
     [js ''set'', k, v] @
     (if 0 < expiration then
        (if usePrecise expiration then [js ''px'', decimal (nat (formatMs expiration))]
         else [js ''ex'', decimal (nat (formatSec expiration))])
      else if expiration = -1 then [js ''keepttl'']
      else [])"

text \<open>The time to live that arrives.\<close>

definition sent_ttl :: "int \<Rightarrow> int" where
  "sent_ttl dur = (if usePrecise dur then formatMs dur * millisecond else formatSec dur * second)"

lemma sent_ttl_positive: "0 < ttl \<Longrightarrow> 0 < sent_ttl ttl"
  by (auto simp: sent_ttl_def formatMs_def formatSec_def second_def millisecond_def pos_imp_zdiv_pos_iff)

lemma sent_ttl_seconds: "0 < n \<Longrightarrow> sent_ttl (n * second) = n * second"
  by (simp add: sent_ttl_def usePrecise_def formatSec_def second_def)

lemma sent_ttl_le: "millisecond \<le> ttl \<Longrightarrow> ttl - millisecond < sent_ttl ttl \<and> sent_ttl ttl \<le> ttl"
  by (auto simp: sent_ttl_def usePrecise_def formatMs_def formatSec_def second_def millisecond_def)

lemma positive_durationD: "positive_duration d \<Longrightarrow> 0 < d" "positive_duration d \<Longrightarrow> d < 2 ^ 63"
  by (simp_all add: positive_duration_def)

section \<open>The commands as a parameter\<close>

record 's redis_ops =
  r_set :: "jsstring \<Rightarrow> jsstring \<Rightarrow> int \<Rightarrow> 's \<Rightarrow> 's"
  r_getdel :: "jsstring \<Rightarrow> 's \<Rightarrow> 's \<times> jsstring option"
  r_count :: "jsstring \<Rightarrow> 's \<Rightarrow> 's \<times> int option"
  r_elapse :: "int \<Rightarrow> 's \<Rightarrow> 's"

text \<open>The abstract database has these commands too, and sequences of commands can be run on any of them.\<close>

definition abstract_redis :: "redis_view redis_ops" where
  "abstract_redis = \<lparr>r_set = (\<lambda>k v ttl. view_set k v (sent_ttl ttl)), r_getdel = view_getdel, r_count = view_count, r_elapse = view_elapse\<rparr>"

datatype redis_cmd = SetCmd jsstring jsstring int | GetDelCmd jsstring | CountCmd jsstring | ElapseCmd int

datatype cmd_reply = NoReply | TextReply "jsstring option" | CountReply "int option"

fun run_cmd :: "'s redis_ops \<Rightarrow> redis_cmd \<Rightarrow> 's \<Rightarrow> 's \<times> cmd_reply" where
  "run_cmd R (SetCmd k v ttl) s = (r_set R k v ttl s, NoReply)"
| "run_cmd R (GetDelCmd k) s = (fst (r_getdel R k s), TextReply (snd (r_getdel R k s)))"
| "run_cmd R (CountCmd k) s = (fst (r_count R k s), CountReply (snd (r_count R k s)))"
| "run_cmd R (ElapseCmd d) s = (r_elapse R d s, NoReply)"

fun run_cmds :: "'s redis_ops \<Rightarrow> redis_cmd list \<Rightarrow> 's \<Rightarrow> 's \<times> cmd_reply list" where
  "run_cmds R [] s = (s, [])"
| "run_cmds R (c # cs) s =
     (let (s1, r) = run_cmd R c s; (s2, rs) = run_cmds R cs s1 in (s2, r # rs))"

text \<open>What the program sends: times to live are positive and time goes forward.\<close>

fun cmd_valid :: "redis_cmd \<Rightarrow> bool" where
  "cmd_valid (SetCmd k v ttl) \<longleftrightarrow> positive_duration ttl"
| "cmd_valid (ElapseCmd d) \<longleftrightarrow> 0 \<le> d"
| "cmd_valid c \<longleftrightarrow> True"

text \<open>
  What can happen to one attempt of a command: the reply arrives; it is executed but the reply is lost; it
  is not executed. The client sends the command again after a failure, up to a limit, and gives the last
  error when all attempts fail (\<open>None\<close>).
\<close>

datatype attempt = Delivered | ReplyLost | Unreachable

fun redis_call :: "('s \<Rightarrow> 's \<times> 'r) \<Rightarrow> attempt list \<Rightarrow> 's \<Rightarrow> 's \<times> 'r option" where
  "redis_call cmd [] s = (s, None)"
| "redis_call cmd (Delivered # as) s = (fst (cmd s), Some (snd (cmd s)))"
| "redis_call cmd (ReplyLost # as) s = redis_call cmd as (fst (cmd s))"
| "redis_call cmd (Unreachable # as) s = redis_call cmd as s"

definition positive_ttls :: "redis_view \<Rightarrow> bool" where
  "positive_ttls V \<longleftrightarrow> (\<forall>k v t. V k = Some (v, Some t) \<longrightarrow> 0 < t)"

locale redis_server =
  fixes R :: "'s redis_ops" and view :: "'s \<Rightarrow> redis_view" and ok :: "'s \<Rightarrow> bool"
  assumes set_ok: "ok s \<Longrightarrow> positive_duration ttl \<Longrightarrow> ok (r_set R k v ttl s)"
    and set_view: "ok s \<Longrightarrow> positive_duration ttl \<Longrightarrow> view (r_set R k v ttl s) = view_set k v (sent_ttl ttl) (view s)"
    and getdel_ok: "ok s \<Longrightarrow> ok (fst (r_getdel R k s))"
    and getdel_view: "ok s \<Longrightarrow>
      (view (fst (r_getdel R k s)), snd (r_getdel R k s)) = view_getdel k (view s)"
    and count_ok: "ok s \<Longrightarrow> ok (fst (r_count R k s))"
    and count_view: "ok s \<Longrightarrow>
      (view (fst (r_count R k s)), snd (r_count R k s)) = view_count k (view s)"
    and elapse_ok: "ok s \<Longrightarrow> 0 \<le> d \<Longrightarrow> ok (r_elapse R d s)"
    and elapse_view: "ok s \<Longrightarrow> 0 \<le> d \<Longrightarrow> view (r_elapse R d s) = view_elapse d (view s)"
    and view_ttls: "ok s \<Longrightarrow> positive_ttls (view s)"
begin

lemma getdel_simps:
  assumes "ok s"
  shows "view (fst (r_getdel R k s)) = (view s)(k := None)"
    and "snd (r_getdel R k s) = map_option fst (view s k)"
  using getdel_view [OF assms, of k] by (simp_all add: view_getdel_def)

lemma count_simps:
  assumes "ok s"
  shows "view (fst (r_count R k s)) = fst (view_count k (view s))"
    and "snd (r_count R k s) = snd (view_count k (view s))"
  using count_view [OF assms, of k] by (metis fst_conv, metis snd_conv)

lemma run_cmd_view:
  "ok s \<Longrightarrow> cmd_valid c \<Longrightarrow>
   ok (fst (run_cmd R c s)) \<and> view (fst (run_cmd R c s)) = fst (run_cmd abstract_redis c (view s)) \<and>
   snd (run_cmd R c s) = snd (run_cmd abstract_redis c (view s))"
  by (cases c) (simp_all add: abstract_redis_def set_ok set_view getdel_ok getdel_simps count_ok count_simps
      elapse_ok elapse_view view_getdel_def)

text \<open>The abstract database follows every run, with the same replies.\<close>

lemma run_cmds_view:
  "ok s \<Longrightarrow> list_all cmd_valid cs \<Longrightarrow>
   run_cmds abstract_redis cs (view s) = (view (fst (run_cmds R cs s)), snd (run_cmds R cs s))"
proof (induction cs arbitrary: s)
  case (Cons c cs)
  then have "ok (fst (run_cmd R c s))" "view (fst (run_cmd R c s)) = fst (run_cmd abstract_redis c (view s))"
    "snd (run_cmd R c s) = snd (run_cmd abstract_redis c (view s))"
    using run_cmd_view [of s c] by simp_all
  with Cons.IH [of "fst (run_cmd R c s)"] Cons.prems(2) show ?case
    by (simp add: split_beta Let_def)
qed simp

lemma call_ok: "(\<And>s. ok s \<Longrightarrow> ok (fst (cmd s))) \<Longrightarrow> ok s \<Longrightarrow> ok (fst (redis_call cmd as s))"
  by (induction cmd as s rule: redis_call.induct) simp_all

end

section \<open>miniredis\<close>

datatype redis_type = StringType | OtherType

record redis_db =
  db_keys :: "jsstring \<rightharpoonup> redis_type"
  db_strings :: "jsstring \<rightharpoonup> jsstring"
  db_ttl :: "jsstring \<rightharpoonup> int"

text \<open>The helpers of \<open>db.go\<close>; version counters and access times are not observed here.\<close>

definition db_del :: "jsstring \<Rightarrow> bool \<Rightarrow> redis_db \<Rightarrow> redis_db" where
  "db_del k delTTL db =
     (case db_keys db k of
        None \<Rightarrow> db
      | Some t \<Rightarrow>
          (let db1 = db\<lparr>db_keys := (db_keys db)(k := None)\<rparr>;
               db2 = (if delTTL then db1\<lparr>db_ttl := (db_ttl db)(k := None)\<rparr> else db1)
           in if t = StringType then db2\<lparr>db_strings := (db_strings db)(k := None)\<rparr> else db2))"

definition db_stringGet :: "jsstring \<Rightarrow> redis_db \<Rightarrow> jsstring" where
  "db_stringGet k db =
     (if db_keys db k = Some StringType
      then (case db_strings db k of Some v \<Rightarrow> v | None \<Rightarrow> []) else [])"

definition db_stringSet :: "jsstring \<Rightarrow> jsstring \<Rightarrow> redis_db \<Rightarrow> redis_db" where
  "db_stringSet k v db =
     (let db1 = db_del k False db
      in db1\<lparr>db_keys := (db_keys db1)(k \<mapsto> StringType), db_strings := (db_strings db1)(k \<mapsto> v)\<rparr>)"

definition itoa :: "int \<Rightarrow> jsstring" where
  "itoa n = (if n < 0 then 45 # decimal (nat (- n)) else decimal (nat n))"

definition db_stringIncr :: "jsstring \<Rightarrow> int \<Rightarrow> redis_db \<Rightarrow> redis_db \<times> int option" where
  "db_stringIncr k delta db =
     (case (case db_strings db k of None \<Rightarrow> Some 0 | Some sv \<Rightarrow> parse_int64 sv) of
        None \<Rightarrow> (db, None)
      | Some v \<Rightarrow>
          if (if 0 < delta then 2 ^ 63 - 1 - delta < v else v < - (2 ^ 63) - delta) then (db, None)
          else (db_stringSet k (itoa (v + delta)) db, Some (v + delta)))"

definition db_checkTTL :: "jsstring \<Rightarrow> redis_db \<Rightarrow> redis_db" where
  "db_checkTTL k db = (case db_ttl db k of Some t \<Rightarrow> if t \<le> 0 then db_del k True db else db | None \<Rightarrow> db)"

text \<open>The loop of \<open>fastForward\<close> treats each key by itself, so it is a function on the key.\<close>

definition db_expired :: "int \<Rightarrow> redis_db \<Rightarrow> jsstring \<Rightarrow> bool" where
  "db_expired d db k \<longleftrightarrow>
     db_keys db k \<noteq> None \<and> (case db_ttl db k of Some t \<Rightarrow> t - d \<le> 0 | None \<Rightarrow> False)"

definition db_fastForward :: "int \<Rightarrow> redis_db \<Rightarrow> redis_db" where
  "db_fastForward d db =
     \<lparr>db_keys = (\<lambda>k. if db_expired d db k then None else db_keys db k),
      db_strings = (\<lambda>k. if db_expired d db k \<and> db_keys db k = Some StringType then None else db_strings db k),
      db_ttl = (\<lambda>k. if db_expired d db k then None
        else if db_keys db k = None then db_ttl db k else map_option (\<lambda>t. t - d) (db_ttl db k))\<rparr>"

text \<open>The replies, and the commands as the program sends them.\<close>

datatype redis_reply = NullReply | OkReply | ErrorReply | BulkReply jsstring | IntReply int

text \<open>A time as \<open>m.at\<close> counts it, in nanoseconds from now on, within what a duration can hold.\<close>

definition db_at :: "int \<Rightarrow> int \<Rightarrow> int \<Rightarrow> int" where
  "db_at now i unit = max (- (2 ^ 63)) (min (2 ^ 63 - 1) (i * unit - now))"

definition upper :: "jsstring \<Rightarrow> jsstring" where
  "upper s = map (\<lambda>u. if 97 \<le> u \<and> u \<le> 122 then u - 32 else u) s"

text \<open>\<open>SET\<close>: its options, and what it does with them. \<open>None\<close> is one of the error replies.\<close>

record set_opts =
  so_nx :: bool
  so_xx :: bool
  so_keepttl :: bool
  so_ttlSet :: bool
  so_ttl :: int
  so_get :: bool

definition no_set_opts :: set_opts where
  "no_set_opts = \<lparr>so_nx = False, so_xx = False, so_keepttl = False, so_ttlSet = False, so_ttl = 0, so_get = False\<rparr>"

text \<open>\<open>EX\<close> and \<open>PX\<close> take a time from now on, \<open>EXAT\<close> and \<open>PXAT\<close> a point in time.\<close>

definition set_expire :: "int \<Rightarrow> jsstring \<Rightarrow> jsstring \<Rightarrow> set_opts \<Rightarrow> set_opts option" where
  "set_expire now arg n opts =
     (let timeUnit = (if arg = js ''PX'' \<or> arg = js ''PXAT'' then millisecond else second)
      in if so_ttlSet opts then None
         else (case parse_int64 n of
                 None \<Rightarrow> None
               | Some expire \<Rightarrow>
                   if expire \<le> 0 then None
                   else Some (opts\<lparr>so_ttl := (if arg = js ''PXAT'' \<or> arg = js ''EXAT'' then db_at now expire timeUnit
                     else to_duration (expire * timeUnit)), so_ttlSet := True\<rparr>)))"

fun set_options :: "int \<Rightarrow> jsstring list \<Rightarrow> set_opts \<Rightarrow> set_opts option" where
  "set_options now [] opts = Some opts"
| "set_options now (a # args) opts =
     (let arg = upper a
      in if arg = js ''NX'' then set_options now args (opts\<lparr>so_nx := True\<rparr>)
         else if arg = js ''XX'' then set_options now args (opts\<lparr>so_xx := True\<rparr>)
         else if arg = js ''KEEPTTL'' then set_options now args (opts\<lparr>so_keepttl := True\<rparr>)
         else if arg \<in> {js ''PX'', js ''PXAT'', js ''EX'', js ''EXAT''} then
           (case args of
              [] \<Rightarrow> None
            | n # rest \<Rightarrow>
                (case set_expire now arg n opts of None \<Rightarrow> None | Some opts' \<Rightarrow> set_options now rest opts'))
         else if arg = js ''GET'' then set_options now args (opts\<lparr>so_get := True\<rparr>)
         else None)"

definition set_key :: "set_opts \<Rightarrow> jsstring \<Rightarrow> jsstring \<Rightarrow> redis_db \<Rightarrow> redis_db \<times> redis_reply" where
  "set_key opts k v db =
     (let exists = (db_keys db k \<noteq> None);
          readonly = (so_nx opts \<and> exists \<or> so_xx opts \<and> \<not> exists);
          ttl = (if so_keepttl opts then (case db_ttl db k of Some t \<Rightarrow> t | None \<Rightarrow> so_ttl opts) else so_ttl opts)
      in if readonly \<and> \<not> so_get opts then (db, NullReply)
         else if so_get opts \<and> db_keys db k = Some OtherType then (db, ErrorReply)
         else
           (let db1 = db_del k True db;
                db2 = (if 0 \<le> ttl then db_stringSet k v db1 else db1);
                db3 = (if ttl \<noteq> 0 then db2\<lparr>db_ttl := (db_ttl db2)(k \<mapsto> ttl)\<rparr> else db2)
            in (if readonly then db else db3,
                if \<not> so_get opts then OkReply
                else (case db_strings db k of None \<Rightarrow> NullReply | Some old \<Rightarrow> BulkReply old))))"

definition cmd_set :: "int \<Rightarrow> jsstring list \<Rightarrow> redis_db \<Rightarrow> redis_db \<times> redis_reply" where
  "cmd_set now args db =
     (case args of
        k # v # rest \<Rightarrow>
          (case set_options now rest no_set_opts of
             None \<Rightarrow> (db, ErrorReply)
           | Some opts \<Rightarrow> set_key opts k v db)
      | _ \<Rightarrow> (db, ErrorReply))"

definition cmd_getdel :: "jsstring \<Rightarrow> redis_db \<Rightarrow> redis_db \<times> redis_reply" where
  "cmd_getdel k db =
     (case db_keys db k of
        None \<Rightarrow> (db, NullReply)
      | Some t \<Rightarrow>
          if t \<noteq> StringType then (db, ErrorReply)
          else (db_del k True db, BulkReply (db_stringGet k db)))"

definition cmd_incr :: "jsstring \<Rightarrow> redis_db \<Rightarrow> redis_db \<times> redis_reply" where
  "cmd_incr k db =
     (if db_keys db k \<noteq> None \<and> db_keys db k \<noteq> Some StringType then (db, ErrorReply)
      else (case db_stringIncr k 1 db of
              (db1, Some n) \<Rightarrow> (db1, IntReply n)
            | (db1, None) \<Rightarrow> (db1, ErrorReply)))"

text \<open>\<open>EXPIRE\<close> with its options.\<close>

record expire_opts =
  eo_value :: int
  eo_nx :: bool
  eo_xx :: bool
  eo_gt :: bool
  eo_lt :: bool

fun expire_options :: "jsstring list \<Rightarrow> expire_opts \<Rightarrow> expire_opts option" where
  "expire_options [] opts = Some opts"
| "expire_options (a # args) opts =
     (let arg = upper a
      in if arg = js ''NX'' then expire_options args (opts\<lparr>eo_nx := True\<rparr>)
         else if arg = js ''XX'' then expire_options args (opts\<lparr>eo_xx := True\<rparr>)
         else if arg = js ''GT'' then expire_options args (opts\<lparr>eo_gt := True\<rparr>)
         else if arg = js ''LT'' then expire_options args (opts\<lparr>eo_lt := True\<rparr>)
         else None)"

definition expireParse :: "jsstring list \<Rightarrow> (jsstring \<times> expire_opts) option" where
  "expireParse args =
     (case args of
        k # n # rest \<Rightarrow>
          (case parse_int64 n of
             None \<Rightarrow> None
           | Some v \<Rightarrow>
               (case expire_options rest \<lparr>eo_value = v, eo_nx = False, eo_xx = False, eo_gt = False, eo_lt = False\<rparr> of
                  None \<Rightarrow> None
                | Some opts \<Rightarrow>
                    if eo_gt opts \<and> eo_lt opts then None
                    else if eo_nx opts \<and> (eo_xx opts \<or> eo_gt opts \<or> eo_lt opts) then None
                    else Some (k, opts)))
      | _ \<Rightarrow> None)"

definition cmd_expire :: "int \<Rightarrow> bool \<Rightarrow> int \<Rightarrow> jsstring list \<Rightarrow> redis_db \<Rightarrow> redis_db \<times> redis_reply" where
  "cmd_expire now unix d args db =
     (case expireParse args of
        None \<Rightarrow> (db, ErrorReply)
      | Some (k, opts) \<Rightarrow>
          if db_keys db k = None then (db, IntReply 0)
          else
            (let oldTTL = db_ttl db k;
                 newTTL = (if unix then db_at now (eo_value opts) d else to_duration (eo_value opts * d))
             in if eo_nx opts \<and> oldTTL \<noteq> None then (db, IntReply 0)
                else if eo_xx opts \<and> oldTTL = None then (db, IntReply 0)
                else if eo_gt opts \<and> (case oldTTL of None \<Rightarrow> True | Some t \<Rightarrow> newTTL \<le> t) then (db, IntReply 0)
                else if eo_lt opts \<and> (case oldTTL of None \<Rightarrow> False | Some t \<Rightarrow> t < newTTL) then (db, IntReply 0)
                else (db_checkTTL k (db\<lparr>db_ttl := (db_ttl db)(k \<mapsto> newTTL)\<rparr>), IntReply 1)))"

text \<open>\<open>incrScript\<close>, which Redis runs as one atomic step; an error reply of a command ends it.\<close>

definition incrScript :: "jsstring \<Rightarrow> redis_db \<Rightarrow> redis_db \<times> redis_reply" where
  "incrScript k db =
     (case cmd_incr k db of
        (db1, IntReply count) \<Rightarrow>
          ((if count = 1 then fst (cmd_expire 0 False second [k, js ''3600''] db1) else db1), IntReply count)
      | (db1, r) \<Rightarrow> (db1, r))"

text \<open>The program sends no points in time, so the clock of \<open>db_at\<close> does not matter; it is 0 here.\<close>

definition miniredis :: "redis_db redis_ops" where
  "miniredis =
     \<lparr>r_set = (\<lambda>k v ttl db. fst (cmd_set 0 (tl (Set_args k v ttl)) db)),
      r_getdel = (\<lambda>k db. (fst (cmd_getdel k db),
        case snd (cmd_getdel k db) of BulkReply v \<Rightarrow> Some v | _ \<Rightarrow> None)),
      r_count = (\<lambda>k db. (fst (incrScript k db),
        case snd (incrScript k db) of IntReply n \<Rightarrow> Some n | _ \<Rightarrow> None)),
      r_elapse = db_fastForward\<rparr>"

section \<open>miniredis refines the abstract database\<close>

text \<open>The maps agree, times to live are positive, and the program only makes string keys.\<close>

definition db_ok :: "redis_db \<Rightarrow> bool" where
  "db_ok db \<longleftrightarrow>
     (\<forall>k. db_keys db k \<noteq> Some OtherType \<and> (db_keys db k = None \<longleftrightarrow> db_strings db k = None) \<and>
          (db_keys db k = None \<longrightarrow> db_ttl db k = None) \<and> (\<forall>t. db_ttl db k = Some t \<longrightarrow> 0 < t))"

definition db_view :: "redis_db \<Rightarrow> redis_view" where
  "db_view db k = map_option (\<lambda>v. (v, db_ttl db k)) (db_strings db k)"

lemma db_okD:
  assumes "db_ok db"
  shows "db_keys db k \<noteq> Some OtherType" "db_keys db k = None \<longleftrightarrow> db_strings db k = None"
    "db_keys db k = None \<Longrightarrow> db_ttl db k = None" "db_ttl db k = Some t \<Longrightarrow> 0 < t"
  using assms unfolding db_ok_def by auto

text \<open>With these, a key is absent or a string key.\<close>

lemma db_key_cases:
  assumes "db_ok db"
  obtains (absent) "db_keys db k = None" "db_strings db k = None" "db_ttl db k = None"
  | (string) v where "db_keys db k = Some StringType" "db_strings db k = Some v"
  using db_okD [OF assms, of k] by (cases "db_keys db k"; cases "db_strings db k")
    (auto, metis redis_type.exhaust)


text \<open>What the two writing helpers do to a database of string keys.\<close>

lemma db_del_simps:
  assumes "db_ok db"
  shows "db_keys (db_del k b db) = (db_keys db)(k := None)"
    and "db_strings (db_del k b db) = (db_strings db)(k := None)"
    and "db_ttl (db_del k b db) = (if b then (db_ttl db)(k := None) else db_ttl db)"
proof -
  have "db_keys (db_del k b db) = (db_keys db)(k := None) \<and> db_strings (db_del k b db) = (db_strings db)(k := None) \<and>
      db_ttl (db_del k b db) = (if b then (db_ttl db)(k := None) else db_ttl db)"
    by (rule db_key_cases [OF assms, of k]) (simp_all add: db_del_def Let_def fun_upd_idem)
  then show "db_keys (db_del k b db) = (db_keys db)(k := None)"
    and "db_strings (db_del k b db) = (db_strings db)(k := None)"
    and "db_ttl (db_del k b db) = (if b then (db_ttl db)(k := None) else db_ttl db)" by blast+
qed

lemma db_stringSet_simps:
  assumes "db_keys db k = Some StringType \<or> db_keys db k = None"
  shows "db_keys (db_stringSet k v db) = (db_keys db)(k \<mapsto> StringType)"
    and "db_strings (db_stringSet k v db) = (db_strings db)(k \<mapsto> v)"
    and "db_ttl (db_stringSet k v db) = db_ttl db"
  using assms by (auto simp: db_stringSet_def db_del_def Let_def)

lemmas db_simps = db_del_simps db_stringSet_simps

text \<open>A database is determined, up to what is observed, by its three maps.\<close>

lemma db_okI:
  assumes "\<And>i. db_keys db i \<noteq> Some OtherType" and "\<And>i. db_keys db i = None \<longleftrightarrow> db_strings db i = None"
    and "\<And>i. db_keys db i = None \<Longrightarrow> db_ttl db i = None" and "\<And>i t. db_ttl db i = Some t \<Longrightarrow> 0 < t"
  shows "db_ok db"
  using assms by (auto simp: db_ok_def)

lemma set_args_options:
  assumes "positive_duration ttl"
  shows "set_options now (drop 3 (Set_args k v ttl)) no_set_opts = Some (no_set_opts\<lparr>so_ttl := sent_ttl ttl, so_ttlSet := True\<rparr>)"
proof -
  note bounds = positive_durationD [OF assms]
  have small: "to_duration n = n" if "0 \<le> n" "n \<le> ttl" for n
    using that bounds by (simp add: to_duration_def)
  have unit: "0 < formatMs ttl" "formatMs ttl < 2 ^ 63" "usePrecise ttl \<Longrightarrow> to_duration (formatMs ttl * millisecond) = formatMs ttl * millisecond"
    using bounds by (auto simp: formatMs_def to_duration_def millisecond_def pos_imp_zdiv_pos_iff)
  have units: "0 < formatSec ttl" "formatSec ttl < 2 ^ 63" "\<not> usePrecise ttl \<Longrightarrow> to_duration (formatSec ttl * second) = formatSec ttl * second"
    using bounds by (auto simp: formatSec_def usePrecise_def to_duration_def second_def pos_imp_zdiv_pos_iff)
  have read: "parse_int64 (decimal (nat n)) = Some n" if "0 < n" "n < 2 ^ 63" for n
    using parse_int64_decimal [of "nat n"] that by simp
  show ?thesis
  proof (cases "usePrecise ttl")
    case True
    with bounds(1) read [OF unit(1,2)] unit(1,3) show ?thesis
      by (simp add: Set_args_def set_expire_def upper_def js_simps no_set_opts_def sent_ttl_def)
  next
    case False
    with bounds(1) read [OF units(1,2)] units(1,3) show ?thesis
      by (simp add: Set_args_def set_expire_def upper_def js_simps no_set_opts_def sent_ttl_def)
  qed
qed

lemma set_refines:
  assumes "db_ok db" and "positive_duration ttl"
  shows "db_ok (r_set miniredis k v ttl db) \<and> db_view (r_set miniredis k v ttl db) = view_set k v (sent_ttl ttl) (db_view db)"
proof -
  let ?db = "r_set miniredis k v ttl db"
  have ttl: "0 < sent_ttl ttl" by (rule sent_ttl_positive [OF positive_durationD(1) [OF assms(2)]])
  have none: "db_keys (db_del k True db) k = Some StringType \<or> db_keys (db_del k True db) k = None"
    by (simp add: db_simps(1) [OF assms(1)])
  have "tl (Set_args k v ttl) = k # v # drop 3 (Set_args k v ttl)" by (simp add: Set_args_def)
  then have "?db = fst (set_key (no_set_opts\<lparr>so_ttl := sent_ttl ttl, so_ttlSet := True\<rparr>) k v db)"
    using set_args_options [OF assms(2)] by (simp add: miniredis_def cmd_set_def)
  then have parts: "db_keys ?db = (db_keys db)(k \<mapsto> StringType)" "db_strings ?db = (db_strings db)(k \<mapsto> v)"
    "db_ttl ?db = (db_ttl db)(k \<mapsto> sent_ttl ttl)"
    using ttl by (simp_all add: set_key_def no_set_opts_def Let_def db_stringSet_simps [OF none] db_del_simps [OF assms(1)])
  have "db_ok ?db"
    by (rule db_okI) (use ttl db_okD [OF assms(1)] in \<open>auto simp: parts split: if_splits\<close>)
  moreover have "db_view ?db = view_set k v (sent_ttl ttl) (db_view db)"
    by (rule ext) (simp add: db_view_def view_set_def parts)
  ultimately show ?thesis by blast
qed

lemma getdel_refines:
  assumes "db_ok db"
  shows "db_ok (fst (r_getdel miniredis k db)) \<and>
    (db_view (fst (r_getdel miniredis k db)), snd (r_getdel miniredis k db)) = view_getdel k (db_view db)"
  using assms
proof (cases rule: db_key_cases [of db k])
  case absent
  then show ?thesis
    using assms by (auto simp: miniredis_def cmd_getdel_def view_getdel_def db_view_def fun_eq_iff)
next
  case (string v)
  let ?db = "db_del k True db"
  note parts = db_del_simps [OF assms, of k True]
  have "db_ok ?db"
    by (rule db_okI) (use db_okD [OF assms] in \<open>auto simp: parts split: if_splits\<close>)
  moreover have "db_view ?db = (db_view db)(k := None)"
    by (rule ext) (simp add: db_view_def parts)
  ultimately show ?thesis
    using string by (simp add: miniredis_def cmd_getdel_def view_getdel_def db_view_def db_stringGet_def)
qed

text \<open>
  The script: the counter gets its new text and keeps its time to live, and an hour when it becomes 1.
\<close>

lemma hour_parsed:
  "expireParse [k, js ''3600''] = Some (k, \<lparr>eo_value = 3600, eo_nx = False, eo_xx = False, eo_gt = False, eo_lt = False\<rparr>)"
proof -
  have "parse_int64 (js ''3600'') = Some 3600" by code_simp
  then show ?thesis by (simp add: expireParse_def)
qed

abbreviation expire_hour :: "jsstring \<Rightarrow> redis_db \<Rightarrow> redis_db" where
  "expire_hour k db \<equiv> fst (cmd_expire 0 False second [k, js ''3600''] db)"

lemma expire_hour_ttl:
  "db_keys db k \<noteq> None \<Longrightarrow> expire_hour k db = db\<lparr>db_ttl := (db_ttl db)(k \<mapsto> window)\<rparr>"
  unfolding cmd_expire_def hour_parsed by (auto simp: to_duration_def db_checkTTL_def window_def second_def)

lemma incr_parts:
  assumes "db_ok db" and "db' = db_stringSet k v db" and "db'' = (if first then expire_hour k db' else db')"
  shows "db_ok db'' \<and> db_view db'' = (db_view db)(k \<mapsto> (v, if first then Some window else db_ttl db k))"
proof -
  have key: "db_keys db k = Some StringType \<or> db_keys db k = None"
    using db_okD(1) [OF assms(1)] by (metis option.exhaust redis_type.exhaust)
  note set_parts = db_stringSet_simps [OF key, of v]
  have parts: "db_keys db'' = (db_keys db)(k \<mapsto> StringType)" "db_strings db'' = (db_strings db)(k \<mapsto> v)"
    "db_ttl db'' = (if first then (db_ttl db)(k \<mapsto> window) else db_ttl db)"
    by (simp_all add: assms(2,3) expire_hour_ttl set_parts)
  have "db_ok db''"
    by (rule db_okI) (use db_okD [OF assms(1)] in \<open>auto simp: parts window_def split: if_splits\<close>)
  moreover have "db_view db'' = (db_view db)(k \<mapsto> (v, if first then Some window else db_ttl db k))"
    by (rule ext) (simp add: db_view_def parts)
  ultimately show ?thesis by blast
qed

lemma count_refines:
  assumes "db_ok db"
  shows "db_ok (fst (r_count miniredis k db)) \<and>
    (db_view (fst (r_count miniredis k db)), snd (r_count miniredis k db)) = view_count k (db_view db)"
  using assms
proof (cases rule: db_key_cases [of db k])
  case absent
  have "incrScript k db = (expire_hour k (db_stringSet k (decimal 1) db), IntReply 1)"
    using absent by (simp add: incrScript_def cmd_incr_def db_stringIncr_def itoa_def)
  with incr_parts [OF assms refl refl, where k = k and v = "decimal 1" and first = True] absent show ?thesis
    by (simp add: miniredis_def view_count_def db_view_def)
next
  case (string s)
  then have view: "db_view db k = Some (s, db_ttl db k)" by (simp add: db_view_def)
  show ?thesis
  proof (cases "parse_int64 s")
    case None
    with string view assms show ?thesis
      by (simp add: miniredis_def incrScript_def cmd_incr_def db_stringIncr_def view_count_def)
  next
    case (Some n)
    show ?thesis
    proof (cases "n < 2 ^ 63 - 1")
      case True
      let ?db = "db_stringSet k (itoa (n + 1)) db"
      have "incrScript k db = (if n = 0 then expire_hour k ?db else ?db, IntReply (n + 1))"
        using True Some string by (simp add: incrScript_def cmd_incr_def db_stringIncr_def)
      moreover have "itoa (n + 1) = (if n = -1 then decimal 0 else if n < 0 then 45 # decimal (nat (- n - 1)) else decimal (nat n + 1))"
        by (auto simp: itoa_def nat_add_distrib intro!: arg_cong [where f = decimal])
      ultimately show ?thesis
        using True Some view incr_parts [OF assms refl refl, where k = k and v = "itoa (n + 1)" and first = "n = 0"]
        by (simp add: miniredis_def view_count_def)
    next
      case False
      moreover have "n < 2 ^ 63" using Some by (auto simp: parse_int64_def Let_def split: if_splits)
      ultimately have "n = 2 ^ 63 - 1" by simp
      with Some string view assms show ?thesis
        by (simp add: miniredis_def incrScript_def cmd_incr_def db_stringIncr_def view_count_def)
    qed
  qed
qed

lemma elapse_refines:
  assumes "db_ok db" and "0 \<le> d"
  shows "db_ok (db_fastForward d db) \<and> db_view (db_fastForward d db) = view_elapse d (db_view db)"
proof
  have string: "db_strings db k = Some v \<Longrightarrow> db_keys db k = Some StringType" for k v
    by (rule db_key_cases [OF assms(1), of k]) simp_all
  show "db_ok (db_fastForward d db)"
    by (rule db_okI)
      (use db_okD [OF assms(1)] in \<open>auto dest!: string simp: db_fastForward_def db_expired_def split: option.splits if_splits\<close>)
  show "db_view (db_fastForward d db) = view_elapse d (db_view db)"
  proof
    fix k
    show "db_view (db_fastForward d db) k = view_elapse d (db_view db) k"
      by (rule db_key_cases [OF assms(1), of k])
        (auto simp: db_view_def view_elapse_def db_fastForward_def db_expired_def split: option.splits)
  qed
qed

interpretation mini: redis_server miniredis db_view db_ok
proof unfold_locales
  fix s k v and ttl :: int
  assume "db_ok s" and "positive_duration ttl"
  from set_refines [OF this, of k v] show "db_ok (r_set miniredis k v ttl s)"
    "db_view (r_set miniredis k v ttl s) = view_set k v (sent_ttl ttl) (db_view s)"
    by simp_all
next
  fix s k
  assume ok: "db_ok s"
  from getdel_refines [OF this, of k] show "db_ok (fst (r_getdel miniredis k s))"
    "(db_view (fst (r_getdel miniredis k s)), snd (r_getdel miniredis k s)) = view_getdel k (db_view s)"
    by simp_all
  from count_refines [OF ok, of k] show "db_ok (fst (r_count miniredis k s))"
    "(db_view (fst (r_count miniredis k s)), snd (r_count miniredis k s)) = view_count k (db_view s)"
    by simp_all
next
  fix s d
  assume "db_ok s" and "0 \<le> (d :: int)"
  from elapse_refines [OF this] show "db_ok (r_elapse miniredis d s)"
    "db_view (r_elapse miniredis d s) = view_elapse d (db_view s)"
    by (simp_all add: miniredis_def)
next
  fix s
  assume "db_ok s"
  then show "positive_ttls (db_view s)" by (auto simp: positive_ttls_def db_view_def dest: db_okD(4))
qed


section \<open>Properties\<close>

text \<open>C18: The Redis server of the repository's tests implements the abstract database. On every sequence of
  the commands the program sends, with positive times to live and time going forward, miniredis and the map
  from keys to texts and remaining times give the same replies, and the map follows the three maps of
  miniredis step by step.\<close>
theorem miniredis_refines:
  assumes "db_ok db" and "list_all cmd_valid cs"
  shows "run_cmds abstract_redis cs (db_view db) =
    (db_view (fst (run_cmds miniredis cs db)), snd (run_cmds miniredis cs db))"
  by (rule mini.run_cmds_view [OF assms])

theorem miniredis_refines_witness:
  "snd (run_cmds miniredis
      [SetCmd (js ''a'') (js ''x'') 60000000, ElapseCmd 59999999, GetDelCmd (js ''a''), GetDelCmd (js ''a''), CountCmd (js ''b''), CountCmd (js ''b'')]
      \<lparr>db_keys = Map.empty, db_strings = Map.empty, db_ttl = Map.empty\<rparr>) =
    [NoReply, NoReply, TextReply (Some (js ''x'')), TextReply None, CountReply (Some 1), CountReply (Some 2)]"
proof -
  let ?db = "\<lparr>db_keys = Map.empty, db_strings = Map.empty, db_ttl = Map.empty\<rparr>"
  have "db_ok ?db" by (simp add: db_ok_def)
  note refines = miniredis_refines [OF this, of "[SetCmd (js ''a'') (js ''x'') 60000000, ElapseCmd 59999999, GetDelCmd (js ''a''),
      GetDelCmd (js ''a''), CountCmd (js ''b''), CountCmd (js ''b'')]"]
  have view: "db_view ?db = Map.empty" by (rule ext) (simp add: db_view_def)
  have one: "parse_int64 (decimal (Suc 0)) = Some 1" using parse_int64_decimal [of 1] by simp
  have "js ''b'' \<noteq> js ''a''" by (simp add: js_simps)
  moreover have "sent_ttl 60000000 = 60000000" "positive_duration 60000000"
    by (simp_all add: sent_ttl_def usePrecise_def formatMs_def second_def millisecond_def positive_duration_def)
  ultimately show ?thesis
    using refines by (simp add: view abstract_redis_def view_set_def view_elapse_def view_getdel_def view_count_def one)
qed

end
