(* ===== verification/KeyStore.thy ===== *)
theory KeyStore
  imports LinkJs
begin

text \<open>
  \<open>store.go\<close>: the key IDs, the in-memory store, and the adapter the handlers see. The contract of a
  one-time store is the locale \<open>onetime_store\<close>; the in-memory store is an interpretation of it.
  What \<open>crypto/rand\<close> and the clock return are arguments (\<open>None\<close> is an error of \<open>rand.Read\<close>; times and
  durations are in nanoseconds). The mutex makes every operation one atomic step. Go strings are
  taken as lists of the same units the browser reads; IDs and PEM texts are ASCII.
\<close>

section \<open>Key IDs\<close>

definition hex_lower :: "nat \<Rightarrow> code_unit" where
  "hex_lower n = of_nat (if n < 10 then 48 + n else 87 + n)"

fun hex_encode :: "bytes \<Rightarrow> jsstring" where
  "hex_encode [] = []"
| "hex_encode (b # bs) = hex_lower (unat b div 16) # hex_lower (unat b mod 16) # hex_encode bs"

text \<open>\<open>randomID\<close>: 16 random bytes in hexadecimal.\<close>

definition randomID :: "bytes option \<Rightarrow> jsstring option" where
  "randomID random = map_option hex_encode random"

lemma unat_hex_lower: "n < 16 \<Longrightarrow> unat (hex_lower n) = (if n < 10 then 48 + n else 87 + n)"
  by (simp add: hex_lower_def unat_of_nat_unit del: of_nat_add)

lemma byte_nibbles: "unat (b :: 8 word) div 16 < 16" "unat (b :: 8 word) mod 16 < 16"
proof -
  have "unat b < 16 * 16" using unsigned_less [of b] by simp
  then show "unat b div 16 < 16" by (rule less_mult_imp_div_less)
qed simp

lemma hex_lower_range:
  "n < 16 \<Longrightarrow> (48 \<le> unat (hex_lower n) \<and> unat (hex_lower n) \<le> 57) \<or>
     (97 \<le> unat (hex_lower n) \<and> unat (hex_lower n) \<le> 102)"
  unfolding unat_hex_lower by auto

lemma hex_encode_digits:
  "list_all (\<lambda>u. (48 \<le> unat u \<and> unat u \<le> 57) \<or> (97 \<le> unat u \<and> unat u \<le> 102)) (hex_encode bs)"
  by (induction bs) (simp_all only: hex_encode.simps list.pred_inject hex_lower_range byte_nibbles simp_thms)

lemma length_hex_encode: "length (hex_encode bs) = 2 * length bs"
  by (induction bs) simp_all

lemma hex_encode_hex_id: "length bs = 16 \<Longrightarrow> hex_id (hex_encode bs)"
  using hex_encode_digits [of bs] by (simp add: hex_id_def length_hex_encode)

lemma hex_lower_inj:
  assumes "m < 16" and "n < 16" and "hex_lower m = hex_lower n"
  shows "m = n"
proof -
  have "(if m < 10 then 48 + m else 87 + m) = (if n < 10 then 48 + n else 87 + n)"
    using assms unat_hex_lower by metis
  with assms(1,2) show ?thesis by (simp split: if_splits)
qed

lemma hex_encode_inj: "hex_encode bs = hex_encode cs \<Longrightarrow> bs = cs"
proof (induction bs arbitrary: cs)
  case Nil
  then show ?case by (cases cs) simp_all
next
  case (Cons b bs)
  then obtain c cs' where cs: "cs = c # cs'" by (cases cs) simp_all
  then have "hex_lower (unat b div 16) = hex_lower (unat c div 16)"
    "hex_lower (unat b mod 16) = hex_lower (unat c mod 16)" and rest: "hex_encode bs = hex_encode cs'"
    using Cons.prems by simp_all
  then have "unat b div 16 = unat c div 16" "unat b mod 16 = unat c mod 16"
    using hex_lower_inj byte_nibbles by blast+
  then have "unat b = unat c" by (metis div_mult_mod_eq)
  with Cons.IH [OF rest] show ?case by (simp add: cs word_unat_eq_iff)
qed

section \<open>The in-memory store\<close>

record key_record =
  PrivPEM :: jsstring
  CreatedAt :: int

record mem_entry =
  entry_rec :: key_record
  entry_expiry :: int

type_synonym mem_store = "jsstring \<rightharpoonup> mem_entry"

definition newMemKeyStore :: mem_store where
  "newMemKeyStore = Map.empty"

definition mem_save ::
  "bytes option \<Rightarrow> int \<Rightarrow> key_record \<Rightarrow> int \<Rightarrow> mem_store \<Rightarrow> mem_store \<times> jsstring option"
where
  "mem_save random now rcd ttl m =
     (case randomID random of
        None \<Rightarrow> (m, None)
      | Some keyId \<Rightarrow> (m(keyId \<mapsto> \<lparr>entry_rec = rcd, entry_expiry = now + ttl\<rparr>), Some keyId))"

definition mem_load :: "int \<Rightarrow> jsstring \<Rightarrow> mem_store \<Rightarrow> mem_store \<times> key_record option" where
  "mem_load now keyId m =
     (case m keyId of
        None \<Rightarrow> (m, None)
      | Some entry \<Rightarrow>
          (let m' = m(keyId := None)
           in if entry_expiry entry < now then (m', None) else (m', Some (entry_rec entry))))"

section \<open>The adapter\<close>

text \<open>
  \<open>storeAdapter\<close> over any \<open>KeyStore\<close>: a record with the time of the call goes in, only its PEM text
  comes out, and an error or nothing is passed on. The arguments are the store's own operations; the
  in-memory store has no errors on loading.
\<close>

definition adapter_save ::
  "(key_record \<Rightarrow> int \<Rightarrow> 's \<Rightarrow> 's \<times> jsstring option) \<Rightarrow> int \<Rightarrow> jsstring \<Rightarrow> int \<Rightarrow> 's \<Rightarrow> 's \<times> jsstring option"
where
  "adapter_save save now privPEM ttl s = save \<lparr>PrivPEM = privPEM, CreatedAt = now\<rparr> ttl s"

definition adapter_load ::
  "(jsstring \<Rightarrow> 's \<Rightarrow> 's \<times> ('e + key_record option)) \<Rightarrow> jsstring \<Rightarrow> 's \<Rightarrow> 's \<times> ('e + jsstring option)"
where
  "adapter_load load keyId s =
     (case load keyId s of
        (s', Inl err) \<Rightarrow> (s', Inl err)
      | (s', Inr None) \<Rightarrow> (s', Inr None)
      | (s', Inr (Some rcd)) \<Rightarrow> (s', Inr (Some (PrivPEM rcd))))"

section \<open>One-time stores\<close>

text \<open>What clients do to a store, and the state after it.\<close>

datatype store_op = SaveOp "bytes option" int key_record int | LoadOp int jsstring

definition store_step ::
  "(bytes option \<Rightarrow> int \<Rightarrow> key_record \<Rightarrow> int \<Rightarrow> 's \<Rightarrow> 's \<times> jsstring option) \<Rightarrow>
   (int \<Rightarrow> jsstring \<Rightarrow> 's \<Rightarrow> 's \<times> key_record option) \<Rightarrow> 's \<Rightarrow> store_op \<Rightarrow> 's"
where
  "store_step save load s oper =
     (case oper of
        SaveOp random now rcd ttl \<Rightarrow> fst (save random now rcd ttl s)
      | LoadOp now k \<Rightarrow> fst (load now k s))"

text \<open>The IDs the saves of a sequence of operations draw.\<close>

fun drawn_ids :: "store_op list \<Rightarrow> jsstring set" where
  "drawn_ids [] = {}"
| "drawn_ids (SaveOp random now rcd ttl # ops) = set_option (randomID random) \<union> drawn_ids ops"
| "drawn_ids (LoadOp now k # ops) = drawn_ids ops"

fun loaded_ids :: "store_op list \<Rightarrow> jsstring set" where
  "loaded_ids [] = {}"
| "loaded_ids (SaveOp random now rcd ttl # ops) = loaded_ids ops"
| "loaded_ids (LoadOp now k # ops) = insert k (loaded_ids ops)"

text \<open>
  The abstract store maps each ID to what a load would return at a given time. Loading returns that
  and forgets it; saving makes the record available until its expiry, under the ID returned.
\<close>

locale onetime_store =
  fixes save :: "bytes option \<Rightarrow> int \<Rightarrow> key_record \<Rightarrow> int \<Rightarrow> 's \<Rightarrow> 's \<times> jsstring option"
    and load :: "int \<Rightarrow> jsstring \<Rightarrow> 's \<Rightarrow> 's \<times> key_record option"
    and content :: "int \<Rightarrow> 's \<Rightarrow> jsstring \<Rightarrow> key_record option"
  assumes load_result: "snd (load now k s) = content now s k"
    and load_content: "content t (fst (load now k s)) i = (if i = k then None else content t s i)"
    and save_content: "save random now rcd ttl s = (s', Some k) \<Longrightarrow>
      content t s' i = (if i = k then if t \<le> now + ttl then Some rcd else None else content t s i)"
    and save_id: "snd (save random now rcd ttl s) = Some k \<Longrightarrow> randomID random = Some k"
    and save_failed: "save random now rcd ttl s = (s', None) \<Longrightarrow> s' = s"
begin

lemma load_twice: "snd (load now' k (fst (load now k s))) = None"
  by (simp add: load_result load_content)

lemma load_other: "i \<noteq> k \<Longrightarrow> snd (load now' i (fst (load now k s))) = snd (load now' i s)"
  by (simp add: load_result load_content)

lemma save_then_load:
  "save random now rcd ttl s = (s', Some k) \<Longrightarrow>
   snd (load now' k s') = (if now' \<le> now + ttl then Some rcd else None)"
  by (simp add: load_result save_content)

lemma save_keeps:
  assumes "randomID random \<noteq> Some i"
  shows "content t (fst (save random now rcd ttl s)) i = content t s i"
proof (cases "save random now rcd ttl s")
  case (Pair s' r)
  with assms save_id [of random now rcd ttl s] have "r \<noteq> Some i" by auto
  with Pair show ?thesis by (cases r) (auto simp: save_content dest: save_failed)
qed

text \<open>Other clients' operations do not touch an ID they neither load nor draw.\<close>

lemma other_operations:
  "k \<notin> drawn_ids ops \<Longrightarrow> k \<notin> loaded_ids ops \<Longrightarrow>
   content t (foldl (store_step save load) s ops) k = content t s k"
  by (induction ops arbitrary: s rule: drawn_ids.induct)
     (auto simp: store_step_def save_keeps load_content)

text \<open>Once gone, an ID stays gone until it is drawn again.\<close>

lemma gone_stays:
  "k \<notin> drawn_ids ops \<Longrightarrow> \<forall>t. content t s k = None \<Longrightarrow>
   content now (foldl (store_step save load) s ops) k = None"
  by (induction ops arbitrary: s rule: drawn_ids.induct)
     (auto simp: store_step_def save_keeps load_content)

text \<open>The life of one key: readable until its expiry, once.\<close>

lemma one_read:
  assumes saved: "save random now rcd ttl s = (s1, Some k)"
    and before: "k \<notin> drawn_ids ops1" "k \<notin> loaded_ids ops1" and after: "k \<notin> drawn_ids ops2"
    and s2: "s2 = foldl (store_step save load) s1 ops1"
    and s3: "s3 = foldl (store_step save load) (fst (load t1 k s2)) ops2"
  shows "snd (load t1 k s2) = (if t1 \<le> now + ttl then Some rcd else None) \<and> snd (load t2 k s3) = None"
proof -
  have "snd (load t1 k s2) = (if t1 \<le> now + ttl then Some rcd else None)"
    by (simp add: load_result s2 other_operations [OF before] save_content [OF saved])
  moreover have "snd (load t2 k s3) = None"
    unfolding load_result s3 by (rule gone_stays [OF after]) (simp add: load_content)
  ultimately show ?thesis by blast
qed

end

text \<open>The in-memory store is one.\<close>

definition mem_content :: "int \<Rightarrow> mem_store \<Rightarrow> jsstring \<Rightarrow> key_record option" where
  "mem_content now m k =
     (case m k of None \<Rightarrow> None | Some entry \<Rightarrow> if entry_expiry entry < now then None else Some (entry_rec entry))"

interpretation mem: onetime_store mem_save mem_load mem_content
  by unfold_locales
     (auto simp: mem_save_def mem_load_def mem_content_def Let_def split: option.splits if_splits)

section \<open>Properties\<close>

text \<open>C11: A private key is handed out at most once. After a save has returned an ID, and whatever other
  saves and loads happen that neither load nor draw this ID again, the first load of it returns the record
  if it comes no later than the expiry and nothing afterwards; every later load returns nothing.\<close>
theorem key_read_once:
  assumes "mem_save random now rcd ttl m = (m1, Some k)"
    and "k \<notin> drawn_ids ops1" and "k \<notin> loaded_ids ops1" and "k \<notin> drawn_ids ops2"
    and "m2 = foldl (store_step mem_save mem_load) m1 ops1"
    and "m3 = foldl (store_step mem_save mem_load) (fst (mem_load first k m2)) ops2"
  shows "snd (mem_load first k m2) = (if first \<le> now + ttl then Some rcd else None) \<and> snd (mem_load later k m3) = None"
  by (rule mem.one_read [OF assms])

theorem key_read_once_witness:
  "snd (mem_load 59 (hex_encode [1]) (foldl (store_step mem_save mem_load)
       (newMemKeyStore(hex_encode [1] \<mapsto> \<lparr>entry_rec = \<lparr>PrivPEM = [], CreatedAt = 0\<rparr>, entry_expiry = 60\<rparr>))
       [LoadOp 5 (hex_encode [2])])) = Some \<lparr>PrivPEM = [], CreatedAt = 0\<rparr>"
proof -
  have "mem_save (Some [1]) 0 \<lparr>PrivPEM = [], CreatedAt = 0\<rparr> 60 newMemKeyStore =
      (newMemKeyStore(hex_encode [1] \<mapsto> \<lparr>entry_rec = \<lparr>PrivPEM = [], CreatedAt = 0\<rparr>, entry_expiry = 60\<rparr>),
       Some (hex_encode [1]))"
    by (simp add: mem_save_def randomID_def)
  note saved = this
  have ne: "hex_encode [1] \<noteq> hex_encode [2]" using hex_encode_inj [of "[1]" "[2]"] by auto
  then have other: "hex_encode [1] \<notin> drawn_ids [LoadOp 5 (hex_encode [2])]"
    "hex_encode [1] \<notin> loaded_ids [LoadOp 5 (hex_encode [2])]" "hex_encode [1] \<notin> drawn_ids []"
    by (simp_all del: hex_encode.simps)
  have "(59 :: int) \<le> 0 + 60" by simp
  with key_read_once [OF saved other refl refl, where first = 59] show ?thesis by presburger
qed

text \<open>Key IDs are what the browser expects: 16 random bytes give 32 lowercase hexadecimal digits, which
  need no escaping in a path, and different random bytes give different IDs.\<close>
theorem key_ids:
  assumes "randomID (Some bs) = Some keyId" and "length bs = 16"
  shows "hex_id keyId \<and> encodeURIComponent keyId = Inr keyId \<and>
     (randomID (Some cs) = Some keyId \<longleftrightarrow> cs = bs)"
proof -
  have k: "keyId = hex_encode bs" using assms(1) by (simp add: randomID_def)
  then have "hex_id keyId" using hex_encode_hex_id [OF assms(2)] by simp
  moreover from this have "encodeURIComponent keyId = Inr keyId"
    by (simp add: encodeURIComponent_plain hex_id_alnum)
  ultimately show ?thesis using hex_encode_inj [of cs bs] by (auto simp: k randomID_def)
qed

theorem key_ids_witness: "hex_id (hex_encode (replicate 16 255))"
  using key_ids [of "replicate 16 255" "hex_encode (replicate 16 255)"] by (simp add: randomID_def)

end
