(* ===== verification/GoTime.thy ===== *)
theory GoTime
  imports GoJson
begin

text \<open>
  The text of a time in a record, as \<open>MarshalJSON\<close> and \<open>UnmarshalJSON\<close> of Go's standard library write and read it
  (RFC 3339). A time is an instant, in nanoseconds since 1970; the local time zone is a function from instants
  to offsets in seconds, since \<open>time.Now\<close> gives a local time. Days are counted from the first of January of
  the year 1. Texts that the strict reader does not take go to Go's older, more lenient one, which is an
  argument of \<open>read_time\<close>: what it does with texts that no writer produces does not matter here.
\<close>

section \<open>What a record needs\<close>

text \<open>
  What a record needs of the two functions: the text of a time consists of digits and the signs of RFC 3339,
  none of which JSON escapes, and reading it gives the time.
\<close>

definition time_codec_ok :: "(int \<Rightarrow> jsstring option) \<Rightarrow> (jsstring \<Rightarrow> int option) \<Rightarrow> bool" where
  "time_codec_ok showTime readTime \<longleftrightarrow>
     (\<forall>t x. showTime t = Some x \<longrightarrow> readTime x = Some t \<and>
        list_all (\<lambda>u. short_escape u = None \<and> \<not> html_or_control u) x)"

lemma digit_plain: "json_digit u \<Longrightarrow> short_escape u = None \<and> \<not> html_or_control u"
  by (auto simp: json_digit_def short_escape_def html_or_control_def word_le_nat_alt word_less_nat_alt)

section \<open>Dates\<close>

definition is_leap :: "int \<Rightarrow> bool" where
  "is_leap year \<longleftrightarrow> year mod 4 = 0 \<and> (year mod 100 \<noteq> 0 \<or> year mod 400 = 0)"

definition days_before :: "int list" where
  "days_before = [0, 31, 59, 90, 120, 151, 181, 212, 243, 273, 304, 334, 365]"

text \<open>The year of a day, and the day in it: the cycles of 400, 100, 4 and 1 years are cut off; the last cycle of
  100 years and the last year of four have one day more.\<close>

definition year_of_day :: "int \<Rightarrow> int \<times> int" where
  "year_of_day d =
     (let n400 = d div 146097; d1 = d mod 146097;
          n100 = d1 div 36524 - d1 div 36524 div 4; d2 = d1 - 36524 * n100;
          n4 = d2 div 1461; d3 = d2 - 1461 * n4;
          n1 = d3 div 365 - d3 div 365 div 4
      in (400 * n400 + 100 * n100 + 4 * n4 + n1 + 1, d3 - 365 * n1))"

definition month_of_day :: "bool \<Rightarrow> int \<Rightarrow> int \<times> int" where
  "month_of_day leap yday =
     (if leap \<and> yday = 59 then (2, 29)
      else
        (let d = (if leap \<and> 59 < yday then yday - 1 else yday);
             m = nat (d div 31);
             e = days_before ! (m + 1)
         in if e \<le> d then (int m + 2, d - e + 1) else (int m + 1, d - days_before ! m + 1)))"

definition days_to_year :: "int \<Rightarrow> int" where
  "days_to_year year =
     (let y = year - 1
      in 146097 * (y div 400) + 36524 * (y mod 400 div 100) + 1461 * (y mod 100 div 4) + 365 * (y mod 4))"

definition days_in :: "bool \<Rightarrow> int \<Rightarrow> int" where
  "days_in leap m =
     (if m = 2 \<and> leap then 29 else days_before ! nat m - days_before ! nat (m - 1))"

definition day_number :: "int \<Rightarrow> int \<Rightarrow> int \<Rightarrow> int" where
  "day_number year m d =
     days_to_year year + days_before ! nat (m - 1) + (if is_leap year \<and> 3 \<le> m then 1 else 0) + d - 1"

text \<open>Cutting off cycles of \<open>c\<close> days, of which the fourth has one day more.\<close>

lemma cut_cycles:
  assumes "0 < (c :: int)" and "0 \<le> x" and "x \<le> 4 * c" and n: "n = x div c - x div c div 4"
  shows "0 \<le> n" "n \<le> 3" "0 \<le> x - c * n" "x - c * n \<le> c" "n < 3 \<Longrightarrow> x - c * n < c" "x < 4 * c \<Longrightarrow> x - c * n < c"
proof -
  have div: "x = c * (x div c) + x mod c" "0 \<le> x mod c" "x mod c < c" using assms(1) by simp_all
  have "0 \<le> x div c" using assms(1,2) by (simp add: pos_imp_zdiv_nonneg_iff)
  moreover have "x div c \<le> 4 * c div c" using assms(1,3) by (intro zdiv_mono1)
  moreover have "4 * c div c = 4" using assms(1) by simp
  ultimately consider "x div c = 4" | "0 \<le> x div c" "x div c \<le> 3" by linarith
  then have "0 \<le> n \<and> n \<le> 3 \<and> 0 \<le> x - c * n \<and> x - c * n \<le> c \<and> (n < 3 \<longrightarrow> x - c * n < c) \<and> (x < 4 * c \<longrightarrow> x - c * n < c)"
  proof cases
    case 1
    then have "n = 3" "x = 4 * c + x mod c" using n div(1) by simp_all
    then have "x = 4 * c" using div(2) assms(3) by linarith
    then show ?thesis using \<open>n = 3\<close> assms(1) by simp
  next
    case 2
    then have "n = x div c" using n by simp
    moreover have "x - c * (x div c) = x mod c" using div(1) by linarith
    ultimately show ?thesis using 2 div(2,3) by simp
  qed
  then show "0 \<le> n" "n \<le> 3" "0 \<le> x - c * n" "x - c * n \<le> c" "n < 3 \<Longrightarrow> x - c * n < c" "x < 4 * c \<Longrightarrow> x - c * n < c"
    by blast+
qed

lemma year_of_day_inverse:
  assumes "year_of_day d = (year, yday)"
  shows "days_to_year year + yday = d" "0 \<le> yday" "yday < (if is_leap year then 366 else 365)"
proof -
  define n400 d1 where "n400 = d div 146097" and "d1 = d mod 146097"
  define n100 where "n100 = d1 div 36524 - d1 div 36524 div 4"
  define d2 where "d2 = d1 - 36524 * n100"
  define n4 d3 where "n4 = d2 div 1461" and "d3 = d2 - 1461 * n4"
  define n1 where "n1 = d3 div 365 - d3 div 365 div 4"
  have parts: "year_of_day d = (400 * n400 + 100 * n100 + 4 * n4 + n1 + 1, d3 - 365 * n1)"
    by (simp only: year_of_day_def Let_def n400_def d1_def n100_def d2_def n4_def d3_def n1_def)
  have y: "year = 400 * n400 + (100 * n100 + (4 * n4 + n1)) + 1" "yday = d3 - 365 * n1"
    using assms parts by simp_all
  have "0 \<le> d1" "d1 \<le> 4 * 36524" using pos_mod_bound [of 146097 d] by (simp_all add: d1_def)
  note n100 = cut_cycles [OF _ this n100_def, folded d2_def, simplified]
  have "d2 = 1461 * n4 + d2 mod 1461" "0 \<le> d2 mod 1461" "d2 mod 1461 < 1461" by (simp_all add: n4_def)
  then have n4: "0 \<le> n4" "n4 \<le> 24" "0 \<le> d3" "d3 \<le> 4 * 365" "n4 = 24 \<Longrightarrow> n100 < 3 \<Longrightarrow> d3 < 1460"
    using n100 unfolding d3_def by linarith+
  note n1 = cut_cycles [OF _ n4(3,4) n1_def, simplified]
  let ?y = "year - 1"
  have parts: "?y div 400 = n400" "?y mod 400 div 100 = n100" "?y mod 100 div 4 = n4" "?y mod 4 = n1"
  proof -
    have "?y mod 400 = 100 * n100 + (4 * n4 + n1)"
      by (rule int_mod_pos_eq [where q = n400], insert y(1) n100(1,2) n4(1,2) n1(1,2)) linarith+
    moreover have "?y mod 100 = 4 * n4 + n1"
      by (rule int_mod_pos_eq [where q = "4 * n400 + n100", unfolded distrib_left], insert y(1) n4(1,2) n1(1,2)) linarith+
    moreover have "(100 * n100 + (4 * n4 + n1)) div 100 = n100"
      by (rule int_div_pos_eq [where r = "4 * n4 + n1"], insert n4(1,2) n1(1,2)) linarith+
    moreover have "(4 * n4 + n1) div 4 = n4"
      by (rule int_div_pos_eq [where r = n1], insert n1(1,2)) linarith+
    moreover show "?y div 400 = n400"
      by (rule int_div_pos_eq [where r = "100 * n100 + (4 * n4 + n1)"], insert y(1) n100(1,2) n4(1,2) n1(1,2)) linarith+
    moreover show "?y mod 4 = n1"
      by (rule int_mod_pos_eq [where q = "100 * n400 + 25 * n100 + n4", unfolded distrib_left], insert y(1) n1(1,2)) linarith+
    ultimately show "?y mod 400 div 100 = n100" "?y mod 100 div 4 = n4" by simp_all
  qed
  have "d = 146097 * n400 + d1" by (simp add: n400_def d1_def)
  then show "days_to_year year + yday = d"
    unfolding days_to_year_def Let_def parts y(2) by (simp add: d2_def d3_def)
  show "0 \<le> yday" unfolding y(2) using n1(3) by simp
  have leap: "is_leap year" if "\<not> d3 - 365 * n1 < 365"
  proof -
    have "n1 = 3" "\<not> d3 < 1460" using that n1(2,5,6) by linarith+
    then have last: "n4 \<noteq> 24 \<or> n100 = 3" using n4(5) n100(2) by linarith
    show ?thesis
    proof -
      let ?q = "100 * n400 + 25 * n100 + n4 + 1"
      have four: "year = 4 * ?q" using y(1) \<open>n1 = 3\<close> by simp
      then have "year mod 4 = 0" by simp
      moreover have "year mod 400 = 0" if "year mod 100 = 0"
      proof -
        have "year = 100 * (4 * n400 + n100) + (4 * n4 + 4)" using four by simp
        then have "year mod 100 = (4 * n4 + 4) mod 100" by (simp only: mod_mult_self4)
        moreover have "(4 * n4 + 4) mod 100 = 4 * n4 + 4" if "n4 \<noteq> 24"
          using that n4(1,2) by (intro mod_pos_pos_trivial) linarith+
        ultimately have "n4 = 24" using that n4(1) by fastforce
        then have "n100 = 3" using last by simp
        then have "year = 400 * (n400 + 1)" using four \<open>n4 = 24\<close> by simp
        then show ?thesis by simp
      qed
      ultimately show ?thesis unfolding is_leap_def by (cases "year mod 100 = 0") simp_all
    qed
  qed
  show "yday < (if is_leap year then 366 else 365)"
    unfolding y(2) using n1(4) leap by (cases "d3 - 365 * n1 < 365") (auto split: if_split)
qed

text \<open>A year is checked day by day.\<close>

definition day_ok :: "bool \<Rightarrow> int \<Rightarrow> bool" where
  "day_ok leap yday =
     (case month_of_day leap yday of
        (m, d) \<Rightarrow> 1 \<le> m \<and> m \<le> 12 \<and> 1 \<le> d \<and> d \<le> days_in leap m \<and>
          days_before ! nat (m - 1) + (if leap \<and> 3 \<le> m then 1 else 0) + d - 1 = yday)"

lemma days_ok: "list_all (day_ok True) [0..365]" "list_all (day_ok False) [0..364]"
  by code_simp+

lemma month_of_day_inverse:
  assumes "0 \<le> yday" and "yday < (if leap then 366 else 365)"
  shows "day_ok leap yday"
proof (cases leap)
  case True
  then have "yday \<in> set [0..365]" using assms by simp
  with days_ok(1) True show ?thesis by (simp add: list_all_iff)
next
  case False
  then have "yday \<in> set [0..364]" using assms by simp
  with days_ok(2) False show ?thesis by (simp add: list_all_iff)
qed

section \<open>Writing\<close>

fun digits :: "nat \<Rightarrow> nat \<Rightarrow> jsstring" where
  "digits 0 n = []"
| "digits (Suc w) n = digits w (n div 10) @ [of_nat (48 + n mod 10)]"

text \<open>The nanoseconds without the zeros at their end, and nothing if all are zeros.\<close>

definition fraction_text :: "nat \<Rightarrow> jsstring" where
  "fraction_text ns =
     (let ds = rev (dropWhile (\<lambda>u. u = 48) (rev (digits 9 ns))) in if ds = [] then [] else 46 # ds)"

definition zone_text :: "int \<Rightarrow> jsstring" where
  "zone_text offset =
     (let zone = nat (\<bar>offset\<bar> div 60)
      in if offset = 0 then [90]
         else (if offset \<le> -60 then 45 else 43) # digits 2 (zone div 60) @ 58 # digits 2 (zone mod 60))"

text \<open>A date and a time of day, as in \<open>2006-01-02T15:04:05\<close>.\<close>

definition date_text :: "nat \<Rightarrow> nat \<Rightarrow> nat \<Rightarrow> nat \<Rightarrow> nat \<Rightarrow> nat \<Rightarrow> jsstring" where
  "date_text year m d h mi sec =
     digits 4 year @ 45 # digits 2 m @ 45 # digits 2 d @ 84 # digits 2 h @ 58 # digits 2 mi @ 58 # digits 2 sec"

text \<open>Years of four digits and offsets below a day can be written.\<close>

definition epoch_day :: int where
  "epoch_day = 719162"

definition show_time :: "(int \<Rightarrow> int) \<Rightarrow> int \<Rightarrow> jsstring option" where
  "show_time zone t =
     (let offset = zone t;
          local_time = t + offset * second;
          secs = local_time div second;
          sod = nat (secs mod 86400);
          (year, yday) = year_of_day (secs div 86400 + epoch_day);
          (m, d) = month_of_day (is_leap year) yday
      in if year < 0 \<or> 9999 < year \<or> 24 * 3600 \<le> \<bar>offset\<bar> then None
         else Some (date_text (nat year) (nat m) (nat d) (sod div 3600) (sod mod 3600 div 60) (sod mod 60) @
           fraction_text (nat (local_time mod second)) @ zone_text offset))"

section \<open>Reading\<close>

definition parse_uint :: "int \<Rightarrow> int \<Rightarrow> jsstring \<Rightarrow> int option" where
  "parse_uint low high s =
     (let x = int (digits_value s) in if list_all json_digit s \<and> low \<le> x \<and> x \<le> high then Some x else None)"

definition part :: "nat \<Rightarrow> nat \<Rightarrow> jsstring \<Rightarrow> jsstring" where
  "part i n s = take n (drop i s)"

text \<open>At most nine digits count.\<close>

definition read_fraction :: "jsstring \<Rightarrow> int \<times> jsstring" where
  "read_fraction s =
     (if 2 \<le> length s \<and> hd s = 46 \<and> json_digit (s ! 1) then
        (let ds = take 9 (takeWhile json_digit (tl s))
         in (int (digits_value ds * 10 ^ (9 - length ds)), dropWhile json_digit (tl s)))
      else (0, s))"

definition read_zone :: "jsstring \<Rightarrow> int option" where
  "read_zone s =
     (if s = [90] then Some 0
      else if length s \<noteq> 6 then None
      else
        Option.bind (parse_uint 0 23 (part 1 2 s)) (\<lambda>h.
        Option.bind (parse_uint 0 59 (part 4 2 s)) (\<lambda>mi.
          if (hd s = 45 \<or> hd s = 43) \<and> s ! 3 = 58
          then Some (if hd s = 45 then - ((h * 60 + mi) * 60) else (h * 60 + mi) * 60) else None)))"

text \<open>A date and a time of day as seconds since 1970.\<close>

definition read_date :: "jsstring \<Rightarrow> int option" where
  "read_date s =
     Option.bind (parse_uint 0 9999 (part 0 4 s)) (\<lambda>year.
     Option.bind (parse_uint 1 12 (part 5 2 s)) (\<lambda>m.
     Option.bind (parse_uint 1 (days_in (is_leap year) m) (part 8 2 s)) (\<lambda>d.
     Option.bind (parse_uint 0 23 (part 11 2 s)) (\<lambda>h.
     Option.bind (parse_uint 0 59 (part 14 2 s)) (\<lambda>mi.
     Option.bind (parse_uint 0 59 (part 17 2 s)) (\<lambda>sec.
       if s ! 4 = 45 \<and> s ! 7 = 45 \<and> s ! 10 = 84 \<and> s ! 13 = 58 \<and> s ! 16 = 58
       then Some ((day_number year m d - epoch_day) * 86400 + h * 3600 + mi * 60 + sec) else None))))))"

definition parseRFC3339 :: "jsstring \<Rightarrow> int option" where
  "parseRFC3339 s =
     (if length s < 19 then None
      else
        Option.bind (read_date s) (\<lambda>secs.
          (let (ns, rest) = read_fraction (drop 19 s)
           in map_option (\<lambda>offset. (secs - offset) * second + ns) (read_zone rest))))"

definition read_time :: "(jsstring \<Rightarrow> int option) \<Rightarrow> jsstring \<Rightarrow> int option" where
  "read_time lenient s = (case parseRFC3339 s of Some t \<Rightarrow> Some t | None \<Rightarrow> lenient s)"

section \<open>What is written is read\<close>

lemma length_digits [simp]: "length (digits w n) = w"
  by (induction w n rule: digits.induct) simp_all

lemma digits_all: "list_all json_digit (digits w n)"
  by (induction w n rule: digits.induct) (simp_all add: json_digit_iff unat_digit del: of_nat_add)

lemma digits_value_snoc: "digits_value (xs @ [u]) = digits_value xs * 10 + (unat u - 48)"
  by (simp add: digits_value_def)

lemma digits_value_digits: "n < 10 ^ w \<Longrightarrow> digits_value (digits w n) = n"
proof (induction w n rule: digits.induct)
  case (2 w n)
  then have "n div 10 < 10 ^ w" by (simp add: less_mult_imp_div_less mult.commute)
  with 2 show ?case by (simp add: digits_value_snoc unat_digit del: of_nat_add)
qed (simp add: digits_value_def)

lemma parse_uint_digits:
  "n < 10 ^ w \<Longrightarrow> low \<le> int n \<Longrightarrow> int n \<le> high \<Longrightarrow> parse_uint low high (digits w n) = Some (int n)"
  by (simp add: parse_uint_def digits_all digits_value_digits)

lemma digits_value_zeros: "digits_value (xs @ replicate k 48) = digits_value xs * 10 ^ k"
proof (induction k)
  case (Suc k)
  have "xs @ replicate (Suc k) 48 = (xs @ replicate k 48) @ [48]" by (simp add: replicate_append_same)
  then show ?case using Suc by (simp only: digits_value_snoc) simp
qed simp

lemma read_fraction_text:
  assumes "ns < 10 ^ 9" and "rest \<noteq> []" and "\<not> json_digit (hd rest)" and "hd rest \<noteq> 46"
  shows "read_fraction (fraction_text ns @ rest) = (int ns, rest)"
proof -
  define ds where "ds = rev (dropWhile (\<lambda>u. u = 48) (rev (digits 9 ns)))"
  define k where "k = length (takeWhile (\<lambda>u. u = 48) (rev (digits 9 ns)))"
  have "takeWhile (\<lambda>u. u = 48) (rev (digits 9 ns)) = replicate k 48"
    unfolding k_def by (metis (mono_tags, lifting) replicate_eqI set_takeWhileD)
  then have split: "digits 9 ns = ds @ replicate k 48"
    unfolding ds_def by (metis rev_append rev_replicate rev_rev_ident takeWhile_dropWhile_id)
  have ns: "ns = digits_value ds * 10 ^ k"
    using digits_value_digits [OF assms(1)] unfolding split digits_value_zeros by simp
  have len: "9 = length ds + k" using arg_cong [OF split, of length] by simp
  have all: "list_all json_digit ds" using digits_all [of 9 ns] unfolding split by simp
  show ?thesis
  proof (cases "ds = []")
    case True
    then have "ns = 0" using ns by (simp add: digits_value_def)
    moreover have "fraction_text ns = []" using True by (simp add: fraction_text_def ds_def)
    ultimately show ?thesis using assms(2-4) by (simp add: read_fraction_def)
  next
    case False
    then obtain e es where ees: "ds = e # es" by (cases ds) auto
    have "takeWhile json_digit (ds @ rest) = ds" "dropWhile json_digit (ds @ rest) = rest"
      using all assms(2,3) by (cases rest; simp add: list_all_iff takeWhile_append dropWhile_append)+
    moreover have "json_digit e" using all ees by simp
    moreover have "9 - length ds = k" "length ds \<le> 9" using len by simp_all
    moreover have "fraction_text ns = 46 # ds" using False by (simp add: fraction_text_def ds_def)
    ultimately have "read_fraction (fraction_text ns @ rest) = (int (digits_value ds * 10 ^ k), rest)"
      using ees by (simp add: read_fraction_def Let_def)
    then show ?thesis by (simp only: ns [symmetric])
  qed
qed

lemma read_zone_text:
  assumes "60 dvd offset" and "\<bar>offset\<bar> < 24 * 3600"
  shows "read_zone (zone_text offset) = Some offset"
proof (cases "offset = 0")
  case True
  then show ?thesis by (simp add: zone_text_def read_zone_def)
next
  case False
  obtain k where k: "offset = 60 * k" using assms(1) by (rule dvdE)
  define z where "z = nat \<bar>k\<bar>"
  have abs: "\<bar>offset\<bar> div 60 = int z" "z < 24 * 60" using k assms(2) by (simp_all add: z_def abs_mult)
  have "parse_uint 0 23 (digits 2 (z div 60)) = Some (int (z div 60))"
    "parse_uint 0 59 (digits 2 (z mod 60)) = Some (int (z mod 60))"
    by (rule parse_uint_digits; use abs(2) in simp)+
  moreover have "(int (z div 60) * 60 + int (z mod 60)) * 60 = \<bar>offset\<bar>"
  proof -
    have "int (z div 60) * 60 + int (z mod 60) = int z"
      by (metis div_mult_mod_eq of_nat_add of_nat_mult of_nat_numeral)
    then show ?thesis using k by (simp add: z_def abs_mult)
  qed
  moreover have "offset \<le> - 60 \<longleftrightarrow> offset < 0" using k by auto
  ultimately show ?thesis
    using False by (auto simp: zone_text_def read_zone_def abs part_def Let_def nth_append simp del: digits.simps)
qed

text \<open>The fields of a date are found by their places.\<close>

lemma read_date_parts:
  assumes "length y = 4" "length m = 2" "length d = 2" "length h = 2" "length mi = 2" "length sec = 2"
    and "parse_uint 0 9999 y = Some year" "parse_uint 1 12 m = Some month"
    and "parse_uint 1 (days_in (is_leap year) month) d = Some day" "parse_uint 0 23 h = Some hours"
    and "parse_uint 0 59 mi = Some minutes" "parse_uint 0 59 sec = Some seconds"
  shows "read_date ((y @ 45 # m @ 45 # d @ 84 # h @ 58 # mi @ 58 # sec) @ rest) =
    Some ((day_number year month day - epoch_day) * 86400 + hours * 3600 + minutes * 60 + seconds)"
  using assms by (simp add: read_date_def part_def nth_append)

lemma read_date_text:
  assumes "day_ok (is_leap year) yday" and "month_of_day (is_leap year) yday = (m, d)"
    and "0 \<le> year" and "year \<le> 9999" and "sod < 86400"
  shows "read_date (date_text (nat year) (nat m) (nat d) (sod div 3600) (sod mod 3600 div 60) (sod mod 60) @ rest) =
    Some ((days_to_year year + yday - epoch_day) * 86400 + int sod)"
proof -
  have day: "1 \<le> m" "m \<le> 12" "1 \<le> d" "d \<le> days_in (is_leap year) m" "day_number year m d = days_to_year year + yday"
    using assms(1,2) by (auto simp: day_ok_def day_number_def)
  have short: "days_in leap k \<le> 31" if "k \<in> {1..12}" for leap k
  proof -
    have "list_all (\<lambda>l. list_all (\<lambda>k. days_in l k \<le> 31) [1..12]) [True, False]" by code_simp
    then show ?thesis using that by (cases leap) (simp_all add: list_all_iff)
  qed
  have "d \<le> 31" using short [of m "is_leap year"] day by simp
  have year: "parse_uint 0 9999 (digits 4 (nat year)) = Some year"
    using parse_uint_digits [of "nat year" 4 0 9999] assms(3,4) by simp
  have month: "parse_uint 1 12 (digits 2 (nat m)) = Some m"
    using parse_uint_digits [of "nat m" 2 1 12] day by simp
  have dom: "parse_uint 1 (days_in (is_leap year) m) (digits 2 (nat d)) = Some d"
    using parse_uint_digits [of "nat d" 2 1 "days_in (is_leap year) m"] day \<open>d \<le> 31\<close> by simp
  have "sod div 3600 < 24" "sod mod 3600 div 60 < 60" using assms(5) by (simp_all add: less_mult_imp_div_less)
  then have time: "parse_uint 0 23 (digits 2 (sod div 3600)) = Some (int (sod div 3600))"
    "parse_uint 0 59 (digits 2 (sod mod 3600 div 60)) = Some (int (sod mod 3600 div 60))"
    "parse_uint 0 59 (digits 2 (sod mod 60)) = Some (int (sod mod 60))"
    by (intro parse_uint_digits; simp)+
  have "sod div 3600 * 3600 + sod mod 3600 div 60 * 60 + sod mod 60 = sod"
  proof -
    have "sod mod 3600 mod 60 = sod mod 60" by (rule mod_mod_cancel) simp
    then show ?thesis using div_mult_mod_eq [of sod 3600] div_mult_mod_eq [of "sod mod 3600" 60] by linarith
  qed
  from arg_cong [OF this, of int] have "int (sod div 3600) * 3600 + int (sod mod 3600 div 60) * 60 + int (sod mod 60) = int sod"
    by (simp only: of_nat_add of_nat_mult of_nat_numeral)
  then have total: "(days_to_year year + yday - epoch_day) * 86400 + int (sod div 3600) * 3600 + int (sod mod 3600 div 60) * 60 +
      int (sod mod 60) = (days_to_year year + yday - epoch_day) * 86400 + int sod" by linarith
  have "length (digits w n) = w" for w n by simp
  from read_date_parts [OF this this this this this this year month dom time] show ?thesis
    unfolding date_text_def day(5) total .
qed

lemma show_time_read:
  assumes "show_time zone t = Some x" and "60 dvd zone t"
  shows "parseRFC3339 x = Some t"
proof -
  define offset where "offset = zone t"
  define local_time where "local_time = t + offset * second"
  define secs where "secs = local_time div second"
  define sod where "sod = nat (secs mod 86400)"
  obtain year yday where year: "year_of_day (secs div 86400 + epoch_day) = (year, yday)" by fastforce
  obtain m d where month: "month_of_day (is_leap year) yday = (m, d)" by fastforce
  let ?ns = "nat (local_time mod second)"
  let ?date = "date_text (nat year) (nat m) (nat d) (sod div 3600) (sod mod 3600 div 60) (sod mod 60)"
  have shown: "0 \<le> year" "year \<le> 9999" "\<bar>offset\<bar> < 24 * 3600" "x = ?date @ fraction_text ?ns @ zone_text offset"
    using assms(1) year month
    by (auto simp: show_time_def Let_def secs_def sod_def local_time_def offset_def split: if_splits)
  note inverse = year_of_day_inverse [OF year]
  have sod: "sod < 86400" "int sod = secs mod 86400" by (simp_all add: sod_def)
  have date: "read_date x = Some ((days_to_year year + yday - epoch_day) * 86400 + int sod)"
    unfolding shown(4) by (rule read_date_text [OF month_of_day_inverse [OF inverse(2,3)] month shown(1,2) sod(1)])
  have "(days_to_year year + yday - epoch_day) * 86400 + int sod = secs" by (simp add: inverse(1) sod(2))
  then have date: "read_date x = Some secs" using date by simp
  have ns: "int ?ns = local_time mod second" "?ns < 10 ^ 9" by (simp_all add: second_def)
  have "zone_text offset \<noteq> [] \<and> \<not> json_digit (hd (zone_text offset)) \<and> hd (zone_text offset) \<noteq> 46"
    by (simp add: zone_text_def Let_def json_digit_def)
  then have fraction: "read_fraction (fraction_text ?ns @ zone_text offset) = (int ?ns, zone_text offset)"
    using read_fraction_text [OF ns(2)] by blast
  have "length ?date = 19" by (simp add: date_text_def del: digits.simps)
  then have rest: "drop 19 x = fraction_text ?ns @ zone_text offset" "\<not> length x < 19" unfolding shown(4) by simp_all
  have "60 dvd offset" using assms(2) by (simp add: offset_def)
  then have "parseRFC3339 x = Some ((secs - offset) * second + local_time mod second)"
    using shown(3) by (simp add: parseRFC3339_def rest date fraction read_zone_text ns(1) del: int_nat_eq)
  moreover have "secs * second + local_time mod second = t + offset * second"
    unfolding secs_def local_time_def by (rule div_mult_mod_eq)
  then have "(secs - offset) * second + local_time mod second = t" by (simp add: left_diff_distrib)
  ultimately show ?thesis by simp
qed

text \<open>JSON escapes none of the characters.\<close>

definition plain_unit :: "code_unit \<Rightarrow> bool" where
  "plain_unit u \<longleftrightarrow> short_escape u = None \<and> \<not> html_or_control u"

lemma plain_marks: "plain_unit 43" "plain_unit 45" "plain_unit 46" "plain_unit 58" "plain_unit 84" "plain_unit 90"
  by (simp_all add: plain_unit_def short_escape_def html_or_control_def)

lemma plain_digits: "list_all plain_unit (digits w n)"
  using digits_all [of w n] digit_plain by (auto simp: list_all_iff plain_unit_def)

lemma plain_fraction: "list_all plain_unit (fraction_text ns)"
proof -
  have "list_all plain_unit (rev (dropWhile (\<lambda>u. u = 48) (rev (digits 9 ns))))"
    using plain_digits [of 9 ns] by (auto simp: list_all_iff dest: set_dropWhileD)
  then show ?thesis by (simp add: fraction_text_def Let_def plain_marks)
qed

lemma plain_zone: "list_all plain_unit (zone_text offset)"
  by (simp add: zone_text_def Let_def plain_marks plain_digits)

lemma plain_date: "list_all plain_unit (date_text year m d h mi sec)"
  by (simp add: date_text_def plain_marks plain_digits)

text \<open>The two functions are what a record needs, when the offsets are whole minutes.\<close>

definition whole_minutes_zone :: "(int \<Rightarrow> int) \<Rightarrow> bool" where
  "whole_minutes_zone zone \<longleftrightarrow> (\<forall>t. 60 dvd zone t)"

lemma rfc3339_ok: "whole_minutes_zone zone \<Longrightarrow> time_codec_ok (show_time zone) (read_time lenient)"
proof -
  assume zone: "whole_minutes_zone zone"
  have "list_all (\<lambda>u. short_escape u = None \<and> \<not> html_or_control u) x" if "show_time zone t = Some x" for t x
  proof -
    have "list_all plain_unit x"
      using that plain_date plain_fraction plain_zone
      by (auto simp: show_time_def Let_def split: prod.splits if_splits)
    then show ?thesis unfolding plain_unit_def [abs_def] .
  qed
  then show ?thesis
    using show_time_read zone unfolding time_codec_ok_def whole_minutes_zone_def read_time_def by auto
qed

end
