(* ===== verification/RedisStore.thy ===== *)
theory RedisStore
  imports RedisDb KeyStore GoTime
begin

text \<open>
  \<open>redisKeyStore\<close> of \<open>store.go\<close>: records as JSON, saved with \<open>SET\<close> and loaded with \<open>GETDEL\<close>. The commands of
  Redis and the fate of each attempt of a command are arguments, as in \<open>RedisDb\<close>; the text of a time (\<open>GoTime\<close>)
  is an argument too, so that the local time zone is open. The texts the
  program saves are ASCII.
\<close>

section \<open>Records as JSON\<close>

definition encode_record :: "(int \<Rightarrow> jsstring option) \<Rightarrow> key_record \<Rightarrow> jsstring option" where
  "encode_record showTime rcd =
     map_option (\<lambda>t. json_object
         [(js ''priv_pem'', json_string (PrivPEM rcd)), (js ''created_at'', [34] @ t @ [34])])
       (showTime (CreatedAt rcd))"

text \<open>The zero value: the zero time is the first of January of the year 1.\<close>

definition zero_record :: key_record where
  "zero_record = \<lparr>PrivPEM = [], CreatedAt = -62135596800 * 10 ^ 9\<rparr>"

text \<open>
  One member of the object. Unknown names and \<open>null\<close> change nothing; a value of the wrong kind is an
  error. A time is read from the raw characters of its literal.
\<close>

definition raw_text :: "json_char list \<Rightarrow> jsstring option" where
  "raw_text cs = those (map (\<lambda>c. case c of Raw u \<Rightarrow> Some u | Esc _ \<Rightarrow> None) cs)"

definition decode_member ::
  "(jsstring \<Rightarrow> int option) \<Rightarrow> key_record \<Rightarrow> json_char list \<times> json \<Rightarrow> key_record option"
where
  "decode_member readTime rcd m =
     (if field_is ''priv_pem'' (fst m) then
        (case snd m of
           JStr cs \<Rightarrow> Some (rcd\<lparr>PrivPEM := go_text cs\<rparr>)
         | JNull \<Rightarrow> Some rcd
         | _ \<Rightarrow> None)
      else if field_is ''created_at'' (fst m) then
        (case snd m of
           JStr cs \<Rightarrow> map_option (\<lambda>t. rcd\<lparr>CreatedAt := t\<rparr>) (Option.bind (raw_text cs) readTime)
         | JNull \<Rightarrow> Some rcd
         | _ \<Rightarrow> None)
      else Some rcd)"

definition decode_record :: "(jsstring \<Rightarrow> int option) \<Rightarrow> jsstring \<Rightarrow> key_record option" where
  "decode_record readTime input =
     (case json_parse input of
        Some (JObj ms) \<Rightarrow>
          foldl (\<lambda>acc m. Option.bind acc (\<lambda>rcd. decode_member readTime rcd m)) (Some zero_record) ms
      | Some JNull \<Rightarrow> Some zero_record
      | _ \<Rightarrow> None)"

section \<open>Save and Load\<close>

datatype store_error = RedisError | RecordError

definition redis_save ::
  "'s redis_ops \<Rightarrow> (int \<Rightarrow> jsstring option) \<Rightarrow> attempt list \<Rightarrow> bytes option \<Rightarrow> key_record \<Rightarrow> int \<Rightarrow> 's \<Rightarrow>
   's \<times> jsstring option"
where
  "redis_save R showTime attempts random rcd ttl s =
     (case randomID random of
        None \<Rightarrow> (s, None)
      | Some keyId \<Rightarrow>
          (case encode_record showTime rcd of
             None \<Rightarrow> (s, None)
           | Some payload \<Rightarrow>
               (case redis_call (\<lambda>s. (r_set R keyId payload ttl s, ())) attempts s of
                  (s', None) \<Rightarrow> (s', None)
                | (s', Some _) \<Rightarrow> (s', Some keyId))))"

text \<open>\<open>goredis.Nil\<close> is a reply without a text.\<close>

definition redis_load ::
  "'s redis_ops \<Rightarrow> (jsstring \<Rightarrow> int option) \<Rightarrow> attempt list \<Rightarrow> jsstring \<Rightarrow> 's \<Rightarrow>
   's \<times> (store_error + key_record option)"
where
  "redis_load R readTime attempts keyId s =
     (case redis_call (r_getdel R keyId) attempts s of
        (s', None) \<Rightarrow> (s', Inl RedisError)
      | (s', Some None) \<Rightarrow> (s', Inr None)
      | (s', Some (Some val)) \<Rightarrow>
          (case decode_record readTime val of
             None \<Rightarrow> (s', Inl RecordError)
           | Some rcd \<Rightarrow> (s', Inr (Some rcd))))"

section \<open>Records read back\<close>

lemma plain_json_string:
  "list_all (\<lambda>u. short_escape u = None \<and> \<not> html_or_control u) x \<Longrightarrow> json_string x = [34] @ x @ [34]"
proof (induction x)
  case (Cons u x)
  then have "concat (map json_escape x) = x" by (simp add: json_string_def)
  with Cons.prems show ?case by (simp add: json_string_def json_escape_def)
qed (simp add: json_string_def)

lemma plain_raw_text:
  "list_all (\<lambda>u. short_escape u = None \<and> \<not> html_or_control u) x \<Longrightarrow> raw_text (map written_char x) = Some x"
  by (induction x) (simp_all add: raw_text_def written_char_def)

lemma field_names:
  "field_is ''priv_pem'' (map written_char (js ''priv_pem''))"
  "\<not> field_is ''priv_pem'' (map written_char (js ''created_at''))"
  "field_is ''created_at'' (map written_char (js ''created_at''))"
  unfolding field_is_written by (simp_all add: lower_def js_simps)

lemma decode_encode:
  assumes "time_codec_ok showTime readTime" and "encode_record showTime rcd = Some payload"
  shows "decode_record readTime payload = Some rcd"
proof -
  obtain t where t: "showTime (CreatedAt rcd) = Some t" "readTime t = Some (CreatedAt rcd)"
    and plain: "list_all (\<lambda>u. short_escape u = None \<and> \<not> html_or_control u) t"
    and payload: "payload = json_object
      [(js ''priv_pem'', json_string (PrivPEM rcd)), (js ''created_at'', json_string t)]"
    using assms by (auto simp: encode_record_def time_codec_ok_def plain_json_string)
  let ?ms = "[(js ''priv_pem'', json_string (PrivPEM rcd), JStr (map written_char (PrivPEM rcd))),
      (js ''created_at'', json_string t, JStr (map written_char t))]"
  have "json_parse payload = Some (JObj [(map written_char (js ''priv_pem''), JStr (map written_char (PrivPEM rcd))),
      (map written_char (js ''created_at''), JStr (map written_char t))])"
    using parse_object [of ?ms] by (simp add: payload reads_string)
  then show ?thesis
    by (simp add: decode_record_def decode_member_def field_names plain_raw_text [OF plain] t(2))
qed

text \<open>A counter is not a record.\<close>

lemma decimal_no_record: "decode_record readTime (decimal n) = None"
proof -
  obtain m where m: "number_complete m"
    "json_read ([], BeginValue) (decimal n @ []) = json_read ([], InNumber m (decimal n)) []"
    using read_decimal by blast
  then have "json_parse (decimal n) = Some (JNum (decimal n))" by (simp add: json_parse_def)
  then show ?thesis by (simp add: decode_record_def)
qed

section \<open>Calls under faults\<close>

text \<open>The first attempt that is executed decides. After a lost reply the next one finds the key gone.\<close>

definition first_executed :: "attempt list \<Rightarrow> attempt list" where
  "first_executed as = dropWhile (\<lambda>a. a = Unreachable) as"

definition getdel_reply :: "attempt list \<Rightarrow> jsstring option \<Rightarrow> jsstring option option" where
  "getdel_reply as present =
     (case first_executed as of
        [] \<Rightarrow> None
      | a # rest \<Rightarrow> if a = Delivered then Some present else if Delivered \<in> set rest then Some None else None)"

definition load_result ::
  "(jsstring \<Rightarrow> int option) \<Rightarrow> jsstring option option \<Rightarrow> store_error + key_record option"
where
  "load_result readTime reply =
     (case reply of
        None \<Rightarrow> Inl RedisError
      | Some None \<Rightarrow> Inr None
      | Some (Some val) \<Rightarrow>
          (case decode_record readTime val of None \<Rightarrow> Inl RecordError | Some rcd \<Rightarrow> Inr (Some rcd)))"

lemma redis_load_result:
  "redis_load R readTime as k s =
     (fst (redis_call (r_getdel R k) as s), load_result readTime (snd (redis_call (r_getdel R k) as s)))"
  by (simp add: redis_load_def load_result_def split: prod.split option.split)

lemma first_executed_simps [simp]:
  "first_executed [] = []"
  "first_executed (Unreachable # as) = first_executed as"
  "first_executed (Delivered # as) = Delivered # as"
  "first_executed (ReplyLost # as) = ReplyLost # as"
  by (simp_all add: first_executed_def)

lemma getdel_reply_absent: "getdel_reply as None = (if Delivered \<in> set as then Some None else None)"
  unfolding getdel_reply_def
  by (induction as) (auto simp: first_executed_def split: list.splits)

context redis_server
begin

lemma getdel_call:
  "ok s \<Longrightarrow>
   ok (fst (redis_call (r_getdel R k) as s)) \<and>
   view (fst (redis_call (r_getdel R k) as s)) = (if first_executed as = [] then view s else (view s)(k := None)) \<and>
   snd (redis_call (r_getdel R k) as s) = getdel_reply as (map_option fst (view s k))"
proof (induction "r_getdel R k" as s rule: redis_call.induct)
  case (1 s)
  then show ?case by (simp add: getdel_reply_def)
next
  case (2 as s)
  then show ?case by (simp add: getdel_ok getdel_simps getdel_reply_def)
next
  case (3 as s)
  then show ?case
    using getdel_reply_absent [of as] by (simp add: getdel_ok getdel_simps) (simp add: getdel_reply_def)
next
  case (4 as s)
  then show ?case by (simp add: getdel_reply_def)
qed

lemma set_call:
  assumes "positive_duration ttl"
  shows "ok s \<Longrightarrow>
   ok (fst (redis_call (\<lambda>s. (r_set R k v ttl s, ())) as s)) \<and>
   view (fst (redis_call (\<lambda>s. (r_set R k v ttl s, ())) as s)) =
     (if first_executed as = [] then view s else view_set k v (sent_ttl ttl) (view s)) \<and>
   (snd (redis_call (\<lambda>s. (r_set R k v ttl s, ())) as s) \<noteq> None \<longleftrightarrow> Delivered \<in> set as)"
proof (induction "\<lambda>s. (r_set R k v ttl s, ())" as s rule: redis_call.induct)
  case (3 as s)
  then show ?case using assms by (simp add: set_ok set_view view_set_def)
qed (use assms in \<open>simp_all add: set_ok set_view\<close>)

text \<open>Saving and loading, whatever the attempts.\<close>

lemma load_faults:
  assumes "ok s"
  shows "view (fst (redis_load R readTime as k s)) = (if first_executed as = [] then view s else (view s)(k := None))"
    and "snd (redis_load R readTime as k s) = load_result readTime (getdel_reply as (map_option fst (view s k)))"
    and "ok (fst (redis_load R readTime as k s))"
  using getdel_call [OF assms, of k as] by (simp_all add: redis_load_result)

lemma save_view:
  assumes "ok s" and "positive_duration ttl" and "redis_save R showTime as random rcd ttl s = (s', Some k)"
  obtains payload where "encode_record showTime rcd = Some payload" "randomID random = Some k"
    "ok s'" "view s' = view_set k payload (sent_ttl ttl) (view s)"
proof -
  obtain payload where p: "randomID random = Some k" "encode_record showTime rcd = Some payload"
    "redis_call (\<lambda>s. (r_set R k payload ttl s, ())) as s = (s', Some ())"
    using assms(3) by (auto simp: redis_save_def split: option.splits prod.splits)
  then have "Delivered \<in> set as" using set_call [OF assms(2,1), of k payload as] by auto
  then have "first_executed as \<noteq> []" by (auto simp: first_executed_def)
  with p set_call [OF assms(2,1), of k payload as] that show thesis by auto
qed

lemma load_absent:
  assumes "ok s" and "view s k = None"
  shows "snd (redis_load R readTime as k s) \<in> {Inr None, Inl RedisError}"
  using load_faults(2) [OF assms(1), of readTime as k] assms(2)
  by (simp add: getdel_reply_absent load_result_def)

lemma load_forgets:
  assumes "ok s" and "snd (redis_load R readTime as k s) \<noteq> Inl RedisError"
  shows "view (fst (redis_load R readTime as k s)) k = None"
proof -
  have "first_executed as \<noteq> []"
    using assms load_faults(2) [OF assms(1)] by (auto simp: getdel_reply_def load_result_def)
  with load_faults(1) [OF assms(1)] show ?thesis by simp
qed

lemma saved_then_loaded:
  assumes "ok s" and "positive_duration ttl" and "0 \<le> d" and time: "time_codec_ok showTime readTime"
    and saved: "redis_save R showTime as random rcd ttl s = (s1, Some k)"
    and delivered: "first_executed bs = Delivered # rest"
  shows "snd (redis_load R readTime bs k (r_elapse R d s1)) = Inr (if d < sent_ttl ttl then Some rcd else None)"
proof -
  obtain payload where p: "encode_record showTime rcd = Some payload" and ok: "ok s1"
    and view: "view s1 = view_set k payload (sent_ttl ttl) (view s)"
    by (rule save_view [OF assms(1,2) saved])
  have "map_option fst (view (r_elapse R d s1) k) = (if d < sent_ttl ttl then Some payload else None)"
    by (simp add: elapse_view [OF ok assms(3)] view view_set_def view_elapse_def)
  then show ?thesis
    using delivered decode_encode [OF time p]
    by (simp add: load_faults(2) [OF elapse_ok [OF ok assms(3)]] getdel_reply_def load_result_def)
qed

end

section \<open>Properties\<close>

text \<open>An example: an empty miniredis, and times in UTC.\<close>

definition empty_redis :: redis_db where
  "empty_redis = \<lparr>db_keys = Map.empty, db_strings = Map.empty, db_ttl = Map.empty\<rparr>"

lemma minute_durations: "positive_duration (60 * second)" "0 \<le> 59 * second" "59 * second < 60 * second"
  by (simp_all add: positive_duration_def second_def)

lemma empty_redis_ok: "db_ok empty_redis"
  by (simp add: empty_redis_def db_ok_def)

lemma empty_redis_view: "db_view empty_redis = Map.empty"
  by (rule ext) (simp add: db_view_def empty_redis_def)

lemma example_time_ok: "whole_minutes_zone (\<lambda>_. 0)"
  by (simp add: whole_minutes_zone_def)

lemma example_time_shown: "show_time (\<lambda>_. 0) 0 = Some (js ''1970-01-01T00:00:00Z'')"
  by code_simp

text \<open>C40: A lost reply loses the key. When Redis executes the \<open>GETDEL\<close> of a load but its answer does not arrive,
  the key is gone and no record is returned: a retry that is answered reports that there is no such key, as
  though the note had been opened, and otherwise the load fails.\<close>
theorem lost_reply_loses_key:
  assumes "redis_server R view ok" and "ok s" and "first_executed attempts = ReplyLost # rest"
    and "redis_load R readTime attempts k s = (s', r)"
  shows "view s' k = None \<and> r = (if Delivered \<in> set rest then Inr None else Inl RedisError)"
  using redis_server.load_faults(1,2) [OF assms(1,2), of readTime attempts k] assms(3,4)
  by (auto simp: getdel_reply_def load_result_def)

theorem lost_reply_loses_key_witness:
  "snd (redis_load miniredis (read_time (\<lambda>_. None)) [ReplyLost, Delivered] (hex_encode [1])
      (fst (redis_save miniredis (show_time (\<lambda>_. 0)) [Delivered] (Some [1])
        \<lparr>PrivPEM = js ''k'', CreatedAt = 0\<rparr> (60 * second) empty_redis))) = Inr None"
proof -
  obtain s1 where saved: "redis_save miniredis (show_time (\<lambda>_. 0)) [Delivered] (Some [1])
      \<lparr>PrivPEM = js ''k'', CreatedAt = 0\<rparr> (60 * second) empty_redis = (s1, Some (hex_encode [1]))"
    by (simp add: redis_save_def randomID_def encode_record_def example_time_shown)
  obtain s2 r where load: "redis_load miniredis (read_time (\<lambda>_. None)) [ReplyLost, Delivered] (hex_encode [1]) s1 = (s2, r)"
    by fastforce
  have "db_ok s1" by (rule mini.save_view [OF empty_redis_ok minute_durations(1) saved])
  from lost_reply_loses_key [OF mini.redis_server_axioms this _ load] show ?thesis
    by (simp add: saved load del: hex_encode.simps)
qed

end
