(* ===== verification/RateLimit.thy ===== *)
theory RateLimit
  imports RedisStore
begin

text \<open>
  \<open>ratelimit.go\<close>: the fixed-window counter per client address, in the same Redis database as the keys; then
  sequences of everything the server does to that database, for the bound on allowed requests and for the single
  read of a key.
\<close>

section \<open>The limiter\<close>

definition limiter_key :: "jsstring \<Rightarrow> jsstring \<Rightarrow> jsstring" where
  "limiter_key bucket ip = js ''rl:'' @ bucket @ js '':'' @ ip"

text \<open>\<open>Allow\<close>: an error of Redis, after all attempts or as a reply, blocks the request.\<close>

definition allow :: "'s redis_ops \<Rightarrow> attempt list \<Rightarrow> jsstring \<Rightarrow> int \<Rightarrow> jsstring \<Rightarrow> 's \<Rightarrow> 's \<times> bool" where
  "allow R attempts bucket limit ip s =
     (case redis_call (r_count R (limiter_key bucket ip)) attempts s of
        (s', Some (Some count)) \<Rightarrow> (s', count \<le> limit)
      | (s', _) \<Rightarrow> (s', False))"

definition noop_allow :: "jsstring \<Rightarrow> bool" where
  "noop_allow ip = True"

section \<open>Everything the server does to the database\<close>

datatype db_op =
    Saving "attempt list" "bytes option" key_record int
  | Loading "attempt list" jsstring
  | Allowing "attempt list" jsstring jsstring
  | Elapsing int

datatype outcome =
    Saved "jsstring option"
  | Loaded "store_error + key_record option"
  | Allowed bool
  | Elapsed

definition db_op_step ::
  "'s redis_ops \<Rightarrow> (int \<Rightarrow> jsstring option) \<Rightarrow> (jsstring \<Rightarrow> int option) \<Rightarrow> (jsstring \<Rightarrow> int) \<Rightarrow> db_op \<Rightarrow> 's \<Rightarrow>
   's \<times> outcome"
where
  "db_op_step R showTime readTime limit oper s =
     (case oper of
        Saving as random rcd ttl \<Rightarrow> map_prod id Saved (redis_save R showTime as random rcd ttl s)
      | Loading as keyId \<Rightarrow> map_prod id Loaded (redis_load R readTime as keyId s)
      | Allowing as bucket ip \<Rightarrow> map_prod id Allowed (allow R as bucket (limit bucket) ip s)
      | Elapsing d \<Rightarrow> (r_elapse R d s, Elapsed))"

fun run_ops ::
  "'s redis_ops \<Rightarrow> (int \<Rightarrow> jsstring option) \<Rightarrow> (jsstring \<Rightarrow> int option) \<Rightarrow> (jsstring \<Rightarrow> int) \<Rightarrow> db_op list \<Rightarrow> 's \<Rightarrow>
   's \<times> outcome list"
where
  "run_ops R showTime readTime limit [] s = (s, [])"
| "run_ops R showTime readTime limit (oper # opers) s =
     (let (s1, out) = db_op_step R showTime readTime limit oper s;
          (s2, outs) = run_ops R showTime readTime limit opers s1
      in (s2, out # outs))"

text \<open>The time that passes, and how often one client was allowed.\<close>

fun op_time :: "db_op \<Rightarrow> int" where
  "op_time (Elapsing d) = d"
| "op_time _ = 0"

fun op_valid :: "db_op \<Rightarrow> bool" where
  "op_valid (Saving as random rcd ttl) \<longleftrightarrow> positive_duration ttl"
| "op_valid (Elapsing d) \<longleftrightarrow> 0 \<le> d"
| "op_valid _ \<longleftrightarrow> True"

fun is_load_of :: "jsstring \<Rightarrow> db_op \<Rightarrow> bool" where
  "is_load_of k (Loading as keyId) \<longleftrightarrow> keyId = k"
| "is_load_of k _ \<longleftrightarrow> False"

fun was_allowed :: "jsstring \<Rightarrow> jsstring \<Rightarrow> db_op \<times> outcome \<Rightarrow> bool" where
  "was_allowed bucket ip (Allowing as b i, Allowed True) \<longleftrightarrow> b = bucket \<and> i = ip"
| "was_allowed bucket ip _ \<longleftrightarrow> False"

lemma was_allowed_iff [simp]:
  "was_allowed bucket ip (Allowing as b i, Allowed x) \<longleftrightarrow> x \<and> b = bucket \<and> i = ip"
  by (cases x) simp_all

definition allowed_count :: "jsstring \<Rightarrow> jsstring \<Rightarrow> db_op list \<Rightarrow> outcome list \<Rightarrow> nat" where
  "allowed_count bucket ip opers outs = length (filter (was_allowed bucket ip) (zip opers outs))"

section \<open>Counters\<close>

text \<open>The counter of a key stands at \<open>n\<close> with the time \<open>t\<close> left; 0 is an absent key.\<close>

definition counter_is :: "redis_view \<Rightarrow> jsstring \<Rightarrow> nat \<Rightarrow> int \<Rightarrow> bool" where
  "counter_is V k n t \<longleftrightarrow>
     (if n = 0 then V k = None \<and> t = window else int n < 2 ^ 63 \<and> V k = Some (decimal n, Some t))"

lemma count_counter:
  assumes "counter_is V k n t"
  shows "if int n < 2 ^ 63 - 1
    then counter_is (fst (view_count k V)) k (Suc n) t \<and> snd (view_count k V) = Some (int (Suc n))
    else view_count k V = (V, None)"
proof (cases "n = 0")
  case True
  with assms show ?thesis by (simp add: counter_is_def view_count_def)
next
  case False
  with assms have "int n < 2 ^ 63" "V k = Some (decimal n, Some t)" by (simp_all add: counter_is_def)
  then show ?thesis
    using False parse_int64_decimal [of n] by (auto simp: counter_is_def view_count_def)
qed

lemma count_other: "i \<noteq> k \<Longrightarrow> fst (view_count k V) i = V i"
  by (simp add: view_count_def split: option.split prod.split)

lemma elapse_counter:
  "counter_is V k n t \<Longrightarrow> d < t \<Longrightarrow> counter_is (view_elapse d V) k n (if n = 0 then window else t - d)"
  by (auto simp: counter_is_def view_elapse_def)

text \<open>IDs are hexadecimal, so no save touches a counter.\<close>

lemma id_no_counter: "randomID random = Some k \<Longrightarrow> k \<noteq> limiter_key bucket ip"
proof
  assume k: "randomID random = Some k" and eq: "k = limiter_key bucket ip"
  obtain bs where "k = hex_encode bs" using k by (auto simp: randomID_def)
  then have "hex_encode bs = 114 # 108 # 58 # bucket @ 58 # ip" using eq by (simp add: limiter_key_def js_simps)
  with hex_encode_digits [of bs] have "(48 \<le> unat (114 :: code_unit) \<and> unat (114 :: code_unit) \<le> 57) \<or>
      (97 \<le> unat (114 :: code_unit) \<and> unat (114 :: code_unit) \<le> 102)"
    by (metis (mono_tags, lifting) list.pred_inject(2))
  then show False by simp
qed

lemma op_time_nonneg: "op_valid oper \<Longrightarrow> 0 \<le> op_time oper"
  by (cases oper) simp_all

lemma ops_time_nonneg: "list_all op_valid opers \<Longrightarrow> 0 \<le> sum_list (map op_time opers)"
  by (induction opers) (auto dest: op_time_nonneg)

text \<open>
  How often a counter with the time \<open>t\<close> left starts anew while the time \<open>T\<close> passes, and how many requests it then lets
  through, when it stood at \<open>n\<close> and was loaded some times.
\<close>

definition renewals :: "int \<Rightarrow> int \<Rightarrow> nat" where
  "renewals t T = (if T < t then 0 else Suc (nat ((T - t) div window)))"

definition allowance :: "nat \<Rightarrow> nat \<Rightarrow> int \<Rightarrow> int \<Rightarrow> nat \<Rightarrow> nat" where
  "allowance lim n t T loads = (lim - n) + lim * (renewals t T + loads)"

lemma renewals_mono: "T - t \<le> T' - t' \<Longrightarrow> renewals t T \<le> renewals t' T'"
  by (auto simp: renewals_def window_def intro!: nat_mono zdiv_mono1)

lemma renewals_expired:
  assumes "t \<le> d" and "0 \<le> rest"
  shows "Suc (renewals window rest) \<le> renewals t (d + rest)"
proof -
  have "renewals window rest = nat (rest div window)"
  proof (cases "rest < window")
    case False
    have "rest div window = (rest - window) div window + 1"
      using div_add_self2 [of window "rest - window"] by (simp add: window_def)
    moreover have "0 \<le> (rest - window) div window" using False by (simp add: pos_imp_zdiv_nonneg_iff window_def)
    ultimately show ?thesis using False by (simp add: renewals_def nat_add_distrib)
  qed (use assms(2) in \<open>simp add: renewals_def\<close>)
  moreover have "nat (rest div window) \<le> nat ((d + rest - t) div window)"
    using assms by (intro nat_mono zdiv_mono1) (simp_all add: window_def)
  ultimately show ?thesis using assms by (simp add: renewals_def)
qed

text \<open>A state after some requests pays for them, \<open>k\<close> of the renewals and loads being used up.\<close>

lemma allowance_pays:
  assumes "c + (lim - n') \<le> (lim - n) + lim * k" and "renewals t' T' + loads' + k \<le> renewals t T + loads"
  shows "c + allowance lim n' t' T' loads' \<le> allowance lim n t T loads"
proof -
  have "lim * (renewals t' T' + loads' + k) \<le> lim * (renewals t T + loads)" by (rule mult_le_mono2 [OF assms(2)])
  then have "lim * (renewals t' T' + loads') + lim * k \<le> lim * (renewals t T + loads)" by (simp only: add_mult_distrib2)
  with assms(1) show ?thesis unfolding allowance_def by linarith
qed

context redis_server
begin

text \<open>One logical call counts any number of times; when it is answered, the answer is where the counter stands.\<close>

lemma counter_call:
  "ok s \<Longrightarrow> counter_is (view s) k n t \<Longrightarrow>
   ok (fst (redis_call (r_count R k) as s)) \<and>
   (\<exists>m. counter_is (view (fst (redis_call (r_count R k) as s))) k (n + m) t \<and>
        (\<forall>c. snd (redis_call (r_count R k) as s) = Some (Some c) \<longrightarrow> 0 < m \<and> c = int (n + m)))"
proof (induction "r_count R k" as s arbitrary: n rule: redis_call.induct)
  case (1 s)
  then show ?case by (auto intro: exI [of _ 0])
next
  case (2 as s)
  then show ?case
    using count_counter [OF "2.prems"(2)] count_simps [OF "2.prems"(1), of k] count_ok
    by (cases "int n < 2 ^ 63 - 1") (auto intro: exI [of _ 1] exI [of _ 0])
next
  case (3 as s)
  show ?case
  proof (cases "int n < 2 ^ 63 - 1")
    case True
    then have "counter_is (view (fst (r_count R k s))) k (Suc n) t"
      using count_counter [OF "3.prems"(2)] count_simps(1) [OF "3.prems"(1)] by simp
    from "3.hyps" [OF count_ok [OF "3.prems"(1)] this] show ?thesis
      by (metis add_Suc_shift redis_call.simps(3) zero_less_Suc)
  next
    case False
    then have "counter_is (view (fst (r_count R k s))) k n t"
      using count_counter [OF "3.prems"(2)] count_simps(1) [OF "3.prems"(1)] "3.prems"(2) by simp
    from "3.hyps" [OF count_ok [OF "3.prems"(1)] this] show ?thesis by simp
  qed
next
  case (4 as s)
  then show ?case by simp
qed

lemma counter_call_other:
  "ok s \<Longrightarrow> i \<noteq> k \<Longrightarrow> view (fst (redis_call (r_count R k) as s)) i = view s i"
  by (induction "r_count R k" as s rule: redis_call.induct) (simp_all add: count_simps count_other count_ok)

lemma allow_call:
  "allow R as bucket limit ip s =
     (fst (redis_call (r_count R (limiter_key bucket ip)) as s),
      case snd (redis_call (r_count R (limiter_key bucket ip)) as s) of Some (Some c) \<Rightarrow> c \<le> limit | _ \<Rightarrow> False)"
  by (simp add: allow_def split: prod.split option.split)

lemma op_ok:
  "ok s \<Longrightarrow> op_valid oper \<Longrightarrow> ok (fst (db_op_step R showTime readTime limit oper s))"
proof (cases oper)
  case (Saving as random rcd ttl)
  assume "ok s" and "op_valid oper"
  then show ?thesis
    using Saving set_call by (simp add: db_op_step_def redis_save_def split: option.split prod.split) (metis fst_conv)
qed (simp_all add: db_op_step_def load_faults(3) allow_call call_ok [OF count_ok] elapse_ok)

lemma save_other:
  assumes "ok s" and "positive_duration ttl" and "randomID random \<noteq> Some i"
  shows "view (fst (redis_save R showTime as random rcd ttl s)) i = view s i"
proof (cases "\<exists>k payload. randomID random = Some k \<and> encode_record showTime rcd = Some payload")
  case True
  then obtain k payload where "randomID random = Some k" "encode_record showTime rcd = Some payload" by blast
  then show ?thesis
    using set_call [OF assms(2,1), of k payload as] assms(3)
    by (simp add: redis_save_def view_set_def split_beta split: option.split if_splits)
next
  case False
  then show ?thesis by (auto simp: redis_save_def split: option.split)
qed

text \<open>One operation, seen from a counter that no load deletes and that does not expire.\<close>

lemma counter_op:
  assumes "ok s" and counter: "counter_is (view s) (limiter_key bucket ip) n t" and valid: "op_valid oper"
    and kept: "\<not> is_load_of (limiter_key bucket ip) oper" and time: "op_time oper < t"
  shows "\<exists>m t'. counter_is (view (fst (db_op_step R showTime readTime limit oper s))) (limiter_key bucket ip) (n + m) t' \<and>
    t - op_time oper \<le> t' \<and> (t \<le> window \<longrightarrow> t' \<le> window) \<and>
    (was_allowed bucket ip (oper, snd (db_op_step R showTime readTime limit oper s)) \<longrightarrow>
       0 < m \<and> int (n + m) \<le> limit bucket)"
proof (cases oper)
  case (Saving as random rcd ttl)
  then have "view (fst (redis_save R showTime as random rcd ttl s)) (limiter_key bucket ip) = view s (limiter_key bucket ip)"
    using save_other [OF assms(1)] id_no_counter valid by fastforce
  with counter Saving show ?thesis
    by (intro exI [of _ "0 :: nat"] exI [of _ t]) (auto simp: db_op_step_def counter_is_def)
next
  case (Loading as keyId)
  with kept have "view (fst (redis_load R readTime as keyId s)) (limiter_key bucket ip) = view s (limiter_key bucket ip)"
    by (simp add: load_faults(1) [OF assms(1)])
  with counter Loading show ?thesis
    by (intro exI [of _ "0 :: nat"] exI [of _ t]) (auto simp: db_op_step_def counter_is_def)
next
  case (Allowing as b i)
  show ?thesis
  proof (cases "limiter_key b i = limiter_key bucket ip")
    case True
    obtain m where m: "counter_is (view (fst (redis_call (r_count R (limiter_key bucket ip)) as s))) (limiter_key bucket ip) (n + m) t"
      "\<forall>c. snd (redis_call (r_count R (limiter_key bucket ip)) as s) = Some (Some c) \<longrightarrow> 0 < m \<and> c = int (n + m)"
      using counter_call [OF assms(1) counter] by blast
    then show ?thesis
      using True Allowing
      by (intro exI [of _ m] exI [of _ t]) (auto simp: db_op_step_def allow_call split: option.splits)
  next
    case False
    then have "view (fst (redis_call (r_count R (limiter_key b i)) as s)) (limiter_key bucket ip) = view s (limiter_key bucket ip)"
      using counter_call_other [OF assms(1)] by metis
    with counter Allowing False show ?thesis
      by (intro exI [of _ "0 :: nat"] exI [of _ t]) (auto simp: db_op_step_def allow_call counter_is_def)
  qed
next
  case (Elapsing d)
  then have "counter_is (view (r_elapse R d s)) (limiter_key bucket ip) n (if n = 0 then window else t - d)"
    using elapse_counter [OF counter] time valid by (simp add: elapse_view [OF assms(1)])
  then show ?thesis
    using Elapsing counter valid
    by (intro exI [of _ "0 :: nat"] exI [of _ "if n = 0 then window else t - d"]) (auto simp: db_op_step_def counter_is_def)
qed

lemma counter_load:
  assumes "ok s" and counter: "counter_is (view s) k n t" and "t \<le> window"
  shows "\<exists>n' t'. counter_is (view (fst (redis_load R readTime as k s))) k n' t' \<and> t' \<le> window \<and> (n' = n \<and> t' = t \<or> n' = 0)"
proof (cases "first_executed as = []")
  case True
  with assms show ?thesis by (intro exI [of _ n] exI [of _ t]) (simp add: load_faults(1) [OF assms(1)])
next
  case False
  then show ?thesis
    by (intro exI [of _ 0] exI [of _ window]) (simp add: load_faults(1) [OF assms(1)] counter_is_def)
qed

text \<open>
  Any operation, seen from a counter: what it may still allow, and what it may allow after it expired or was loaded,
  pays for what it allows.
\<close>

lemma counter_step:
  assumes "ok s" and counter: "counter_is (view s) (limiter_key bucket ip) n t" and range: "t \<in> {0<..window}" and valid: "op_valid oper"
    and "0 \<le> rest"
  shows "\<exists>n' t'. counter_is (view (fst (db_op_step R showTime readTime limit oper s))) (limiter_key bucket ip) n' t' \<and>
    t' \<in> {0<..window} \<and>
    (if was_allowed bucket ip (oper, snd (db_op_step R showTime readTime limit oper s)) then 1 else 0) +
      allowance (nat (limit bucket)) n' t' rest loads \<le>
    allowance (nat (limit bucket)) n t (op_time oper + rest) ((if is_load_of (limiter_key bucket ip) oper then 1 else 0) + loads)"
proof (cases "is_load_of (limiter_key bucket ip) oper")
  case True
  then obtain as where oper: "oper = Loading as (limiter_key bucket ip)" by (cases oper) auto
  obtain n' t' where after: "counter_is (view (fst (redis_load R readTime as (limiter_key bucket ip) s))) (limiter_key bucket ip) n' t'"
    "t' \<le> window" "n' = n \<and> t' = t \<or> n' = 0"
    using counter_load [OF assms(1,2)] range by (metis greaterThanAtMost_iff)
  have positive: "0 < t'" using after(1,3) range by (auto simp: counter_is_def window_def)
  have "allowance (nat (limit bucket)) n' t' rest loads \<le> allowance (nat (limit bucket)) n t rest (Suc loads)"
    using after(3)
  proof
    assume "n' = 0"
    then have "t' = window" using after(1) by (simp add: counter_is_def)
    moreover have "renewals window rest \<le> renewals t rest" using range by (intro renewals_mono) simp
    ultimately show ?thesis
      using allowance_pays [of 0 _ n' n 1 t' rest loads t rest "Suc loads"] \<open>n' = 0\<close> by simp
  qed (simp add: allowance_def)
  with after(1,2) positive True show ?thesis
    by (intro exI [of _ n'] exI [of _ t']) (simp add: oper db_op_step_def)
next
  case load: False
  show ?thesis
  proof (cases "op_time oper < t")
    case True
    from counter_op [OF assms(1,2) valid load True, of showTime readTime limit] obtain m t' where
      m: "counter_is (view (fst (db_op_step R showTime readTime limit oper s))) (limiter_key bucket ip) (n + m) t'"
      "t - op_time oper \<le> t'" "t' \<le> window"
      "was_allowed bucket ip (oper, snd (db_op_step R showTime readTime limit oper s)) \<longrightarrow> 0 < m \<and> int (n + m) \<le> limit bucket"
      using range by auto
    have positive: "0 < t'" using m(2) True by simp
    have "renewals t' rest \<le> renewals t (op_time oper + rest)" using m(2) by (intro renewals_mono) simp
    moreover have "(if was_allowed bucket ip (oper, snd (db_op_step R showTime readTime limit oper s)) then 1 else 0) +
        (nat (limit bucket) - (n + m)) \<le> nat (limit bucket) - n"
      using m(4) by auto
    ultimately have "(if was_allowed bucket ip (oper, snd (db_op_step R showTime readTime limit oper s)) then 1 else 0) +
        allowance (nat (limit bucket)) (n + m) t' rest loads \<le> allowance (nat (limit bucket)) n t (op_time oper + rest) loads"
      using allowance_pays [where k = 0] by simp
    with m positive load show ?thesis
      by (intro exI [of _ "n + m"] exI [of _ t']) simp
  next
    case False
    then obtain d where oper: "oper = Elapsing d" "t \<le> d"
      using counter range by (cases oper) (auto simp: counter_is_def window_def split: if_splits)
    have "view_elapse d (view s) (limiter_key bucket ip) = None"
      using counter oper(2) by (auto simp: counter_is_def view_elapse_def split: if_splits)
    then have "counter_is (view (r_elapse R d s)) (limiter_key bucket ip) 0 window"
      using oper valid by (simp add: elapse_view [OF assms(1)] counter_is_def)
    moreover have "allowance (nat (limit bucket)) 0 window rest loads \<le> allowance (nat (limit bucket)) n t (d + rest) loads"
    proof (cases "n = 0")
      case True
      then have "t = window" using counter by (simp add: counter_is_def)
      moreover have "renewals window rest \<le> renewals window (d + rest)" using oper valid by (intro renewals_mono) simp
      ultimately show ?thesis using True allowance_pays [of 0 _ 0 0 0 window rest loads window "d + rest" loads] by simp
    next
      case n: False
      have "Suc (renewals window rest) \<le> renewals t (d + rest)" by (rule renewals_expired [OF oper(2) assms(5)])
      then show ?thesis using allowance_pays [of 0 _ 0 n 1 window rest loads t "d + rest" loads] by simp
    qed
    ultimately show ?thesis
      by (intro exI [of _ 0] exI [of _ window]) (simp add: oper db_op_step_def window_def)
  qed
qed

lemma allowed_in_time:
  assumes "ok s" and "counter_is (view s) (limiter_key bucket ip) n t" and "t \<in> {0<..window}" and "list_all op_valid opers"
  shows "allowed_count bucket ip opers (snd (run_ops R showTime readTime limit opers s)) \<le>
    allowance (nat (limit bucket)) n t (sum_list (map op_time opers)) (length (filter (is_load_of (limiter_key bucket ip)) opers))"
  using assms
proof (induction opers arbitrary: s n t)
  case Nil
  then show ?case by (simp add: allowed_count_def)
next
  case (Cons oper opers)
  let ?s = "fst (db_op_step R showTime readTime limit oper s)"
  have valid: "op_valid oper" "list_all op_valid opers" using Cons.prems(4) by simp_all
  obtain n' t' where after: "counter_is (view ?s) (limiter_key bucket ip) n' t'" "t' \<in> {0<..window}"
    "(if was_allowed bucket ip (oper, snd (db_op_step R showTime readTime limit oper s)) then 1 else 0) +
      allowance (nat (limit bucket)) n' t' (sum_list (map op_time opers)) (length (filter (is_load_of (limiter_key bucket ip)) opers)) \<le>
     allowance (nat (limit bucket)) n t (op_time oper + sum_list (map op_time opers))
       ((if is_load_of (limiter_key bucket ip) oper then 1 else 0) + length (filter (is_load_of (limiter_key bucket ip)) opers))"
    using counter_step [OF Cons.prems(1-3) valid(1) ops_time_nonneg [OF valid(2)]] by blast
  have "allowed_count bucket ip opers (snd (run_ops R showTime readTime limit opers ?s)) \<le>
      allowance (nat (limit bucket)) n' t' (sum_list (map op_time opers)) (length (filter (is_load_of (limiter_key bucket ip)) opers))"
    by (rule Cons.IH [OF op_ok [OF Cons.prems(1) valid(1)] after(1,2) valid(2)])
  with after(3) show ?case by (auto simp: allowed_count_def split_beta Let_def split: if_splits)
qed

end

section \<open>One key over a sequence of operations\<close>

text \<open>A save that draws the ID, and whether a load of the ID returned a record.\<close>

fun is_save_of :: "jsstring \<Rightarrow> db_op \<Rightarrow> bool" where
  "is_save_of k (Saving as random rcd ttl) \<longleftrightarrow> randomID random = Some k"
| "is_save_of k _ \<longleftrightarrow> False"

fun handed_out :: "jsstring \<Rightarrow> db_op \<times> outcome \<Rightarrow> bool" where
  "handed_out k (Loading as keyId, Loaded r) \<longleftrightarrow> keyId = k \<and> (case r of Inr (Some rcd) \<Rightarrow> True | _ \<Rightarrow> False)"
| "handed_out k _ \<longleftrightarrow> False"

context redis_server
begin

lemma op_elsewhere:
  assumes "ok s" and "op_valid oper" and "\<not> is_load_of k oper" and "\<not> is_save_of k oper"
    and "\<And>bucket ip. k \<noteq> limiter_key bucket ip"
  shows "view (fst (db_op_step R showTime readTime limit oper s)) k =
    (case oper of Elapsing d \<Rightarrow> view_elapse d (view s) k | _ \<Rightarrow> view s k)"
proof (cases oper)
  case (Saving as random rcd ttl)
  then show ?thesis
    using save_other [OF assms(1), of ttl random k showTime as rcd] assms(2,4) by (simp add: db_op_step_def)
next
  case (Loading as keyId)
  with assms(3) show ?thesis by (simp add: db_op_step_def load_faults(1) [OF assms(1)])
next
  case (Allowing as bucket ip)
  then show ?thesis
    using counter_call_other [OF assms(1) assms(5)] by (simp add: db_op_step_def allow_call)
next
  case (Elapsing d)
  with assms(1,2) show ?thesis by (simp add: db_op_step_def elapse_view)
qed

lemma run_ok: "ok s \<Longrightarrow> list_all op_valid opers \<Longrightarrow> ok (fst (run_ops R showTime readTime limit opers s))"
  by (induction opers arbitrary: s) (simp_all add: op_ok split_beta Let_def)

text \<open>A value that nobody loads or replaces ages and expires; an ID that nobody draws again stays absent.\<close>

lemma run_absent:
  assumes "ok s" and "list_all op_valid opers" and "list_all (\<lambda>oper. \<not> is_save_of k oper) opers"
    and "\<And>bucket ip. k \<noteq> limiter_key bucket ip" and "view s k = None"
  shows "view (fst (run_ops R showTime readTime limit opers s)) k = None"
    and "list_all (\<lambda>x. \<not> handed_out k x) (zip opers (snd (run_ops R showTime readTime limit opers s)))"
proof -
  have "view (fst (run_ops R showTime readTime limit opers s)) k = None \<and>
      list_all (\<lambda>x. \<not> handed_out k x) (zip opers (snd (run_ops R showTime readTime limit opers s)))"
    using assms
  proof (induction opers arbitrary: s)
    case (Cons oper opers)
    let ?step = "db_op_step R showTime readTime limit oper s"
    have valid: "op_valid oper" and other: "\<not> is_save_of k oper" using Cons.prems(2,3) by simp_all
    have "view (fst ?step) k = None \<and> \<not> handed_out k (oper, snd ?step)"
    proof (cases "is_load_of k oper")
      case True
      then obtain as where oper: "oper = Loading as k" by (cases oper) auto
      have "view (fst (redis_load R readTime as k s)) k = None"
        using Cons.prems(5) by (simp add: load_faults(1) [OF Cons.prems(1)])
      moreover have "snd (redis_load R readTime as k s) \<in> {Inr None, Inl RedisError}"
        by (rule load_absent [OF Cons.prems(1,5)])
      ultimately show ?thesis by (auto simp: oper db_op_step_def)
    next
      case False
      have "view (fst ?step) k = None"
        using op_elsewhere [OF Cons.prems(1) valid False other Cons.prems(4), of showTime readTime limit] Cons.prems(5)
        by (cases oper) (simp_all add: view_elapse_def)
      moreover have "\<not> handed_out k (oper, snd ?step)"
        using False by (cases oper) (simp_all add: db_op_step_def)
      ultimately show ?thesis by blast
    qed
    with Cons.IH [OF op_ok [OF Cons.prems(1) valid, of showTime readTime limit]] Cons.prems show ?case
      by (simp add: split_beta Let_def)
  qed simp
  then show "view (fst (run_ops R showTime readTime limit opers s)) k = None"
    and "list_all (\<lambda>x. \<not> handed_out k x) (zip opers (snd (run_ops R showTime readTime limit opers s)))" by blast+
qed

lemma run_elsewhere:
  assumes "ok s" and "list_all op_valid opers" and "list_all (\<lambda>oper. \<not> is_load_of k oper \<and> \<not> is_save_of k oper) opers"
    and "\<And>bucket ip. k \<noteq> limiter_key bucket ip" and "view s k = Some (v, Some t)" and "0 < t"
  shows "view (fst (run_ops R showTime readTime limit opers s)) k =
    (if sum_list (map op_time opers) < t then Some (v, Some (t - sum_list (map op_time opers))) else None)"
  using assms
proof (induction opers arbitrary: s t)
  case (Cons oper opers)
  let ?s = "fst (db_op_step R showTime readTime limit oper s)"
  have valid: "op_valid oper" "list_all op_valid opers" and kept: "\<not> is_load_of k oper" "\<not> is_save_of k oper"
    "list_all (\<lambda>oper. \<not> is_load_of k oper \<and> \<not> is_save_of k oper) opers"
    using Cons.prems(2,3) by simp_all
  have view: "view ?s k = (if op_time oper < t then Some (v, Some (t - op_time oper)) else None)"
    using op_elsewhere [OF Cons.prems(1) valid(1) kept(1,2) Cons.prems(4), of showTime readTime limit] Cons.prems(5,6)
    by (cases oper) (simp_all add: view_elapse_def)
  note ok' = op_ok [OF Cons.prems(1) valid(1), of showTime readTime limit]
  show ?case
  proof (cases "op_time oper < t")
    case True
    with view Cons.IH [OF ok' valid(2) kept(3) Cons.prems(4), of "t - op_time oper"] show ?thesis
      by (simp add: split_beta Let_def algebra_simps)
  next
    case False
    have "view (fst (run_ops R showTime readTime limit opers ?s)) k = None"
      by (rule run_absent(1) [OF ok' valid(2) _ Cons.prems(4)]) (use kept(3) view False in \<open>auto simp: list_all_iff\<close>)
    with False ops_time_nonneg [OF valid(2)] show ?thesis by (simp add: split_beta Let_def)
  qed
qed simp

end

section \<open>Properties\<close>

text \<open>C13: The rate limit. Over any sequence of saves, loads and limiter calls by all clients, with lost replies and
  retries, from a state where a client has no counter or one that stands at \<open>n\<close> with the time \<open>t\<close> left: the client is
  allowed what is left of its limit, and its limit once more for each time the counter runs out (after \<open>t\<close>, then at
  most once an hour) and for each load of the counter's own key as if it were an ID. So from a first request on,
  less than an hour allows no more than the limit, and any hour no more than twice the limit, if nobody loads the
  counter.\<close>
theorem limit_per_window:
  assumes "redis_server R view ok" and "ok s" and "counter_is (view s) (limiter_key bucket ip) n t" and "t \<in> {0<..window}"
    and "list_all op_valid opers"
  shows "allowed_count bucket ip opers (snd (run_ops R showTime readTime limit opers s)) \<le>
    (nat (limit bucket) - n) + nat (limit bucket) *
      (renewals t (sum_list (map op_time opers)) + length (filter (is_load_of (limiter_key bucket ip)) opers))"
  using redis_server.allowed_in_time [OF assms] by (simp add: allowance_def)

theorem limit_per_window_witness:
  "allowed_count (js ''create'') (js ''1'') [Allowing [Delivered] (js ''create'') (js ''1''), Elapsing 60,
      Allowing [ReplyLost, Delivered] (js ''create'') (js ''1'')]
     (snd (run_ops miniredis (show_time (\<lambda>_. 0)) (read_time (\<lambda>_. None)) (\<lambda>_. 1)
       [Allowing [Delivered] (js ''create'') (js ''1''), Elapsing 60,
        Allowing [ReplyLost, Delivered] (js ''create'') (js ''1'')] empty_redis)) \<le> 1"
proof -
  have "counter_is (db_view empty_redis) (limiter_key (js ''create'') (js ''1'')) 0 window"
    by (simp add: counter_is_def empty_redis_view)
  from limit_per_window [OF mini.redis_server_axioms empty_redis_ok this _, where limit = "\<lambda>_. 1"
      and opers = "[Allowing [Delivered] (js ''create'') (js ''1''), Elapsing 60,
        Allowing [ReplyLost, Delivered] (js ''create'') (js ''1'')]"]
  show ?thesis by (simp add: renewals_def window_def del: run_ops.simps)
qed

text \<open>C10: The Redis store keeps a key for its time to live and hands it out once. A record is saved, whatever attempts
  that took, and then anything happens to the database but a load of its ID or a save that draws the same ID.
  The next load of the ID gives an error and changes nothing if none of its attempts was executed. If the first
  executed attempt was answered, it gives the record, as it was saved, if less than the time to live has passed
  as the client sends it (in whole milliseconds), and nothing otherwise; if the reply of that attempt was lost, it
  gives nothing or an error. In both cases no later load returns a record, whatever its attempts and whatever else
  happens to the database, saves that draw the same ID excepted.\<close>
theorem redis_key_read_once:
  assumes "redis_server R view ok" and "ok s" and "positive_duration ttl" and "whole_minutes_zone zone"
    and "redis_save R (show_time zone) saveAttempts random rcd ttl s = (s1, Some k)"
    and "list_all op_valid opers" and "list_all (\<lambda>oper. \<not> is_load_of k oper \<and> \<not> is_save_of k oper) opers"
    and "run_ops R (show_time zone) (read_time lenient) limit opers s1 = (s2, outs)"
    and "redis_load R (read_time lenient) loadAttempts k s2 = (s3, r)"
    and "list_all op_valid laterOpers" and "list_all (\<lambda>oper. \<not> is_save_of k oper) laterOpers"
    and "run_ops R (show_time zone) (read_time lenient) limit laterOpers s3 = (s4, laterOuts)"
  shows "r = (case first_executed loadAttempts of
           [] \<Rightarrow> Inl RedisError
         | a # rest \<Rightarrow>
             if a = Delivered then Inr (if sum_list (map op_time opers) < sent_ttl ttl then Some rcd else None)
             else if Delivered \<in> set rest then Inr None else Inl RedisError) \<and>
    (if first_executed loadAttempts = [] then view s3 = view s2
     else list_all (\<lambda>x. \<not> handed_out k x) (zip laterOpers laterOuts))"
proof -
  obtain payload where p: "encode_record (show_time zone) rcd = Some payload" "randomID random = Some k" and ok1: "ok s1"
    and view1: "view s1 = view_set k payload (sent_ttl ttl) (view s)"
    by (rule redis_server.save_view [OF assms(1-3,5)])
  note no_counter = id_no_counter [OF p(2)]
  have view2: "view s2 k = (if sum_list (map op_time opers) < sent_ttl ttl
      then Some (payload, Some (sent_ttl ttl - sum_list (map op_time opers))) else None)"
    using redis_server.run_elsewhere [OF assms(1) ok1 assms(6,7) no_counter, of payload "sent_ttl ttl" "show_time zone"
        "read_time lenient" limit] sent_ttl_positive [OF positive_durationD(1) [OF assms(3)]]
    by (simp add: assms(8) view1 view_set_def)
  have ok2: "ok s2"
    using redis_server.run_ok [OF assms(1) ok1 assms(6), of "show_time zone" "read_time lenient" limit] by (simp add: assms(8))
  note load = redis_server.load_faults [OF assms(1) ok2, of "read_time lenient" loadAttempts k, unfolded assms(9), simplified]
  have "r = (case first_executed loadAttempts of
           [] \<Rightarrow> Inl RedisError
         | a # rest \<Rightarrow>
             if a = Delivered then Inr (if sum_list (map op_time opers) < sent_ttl ttl then Some rcd else None)
             else if Delivered \<in> set rest then Inr None else Inl RedisError)"
    using decode_encode [OF rfc3339_ok [OF assms(4), of lenient] p(1)]
    by (simp add: load(2) view2 getdel_reply_def load_result_def split: list.split)
  moreover have "list_all (\<lambda>x. \<not> handed_out k x) (zip laterOpers laterOuts)" if "first_executed loadAttempts \<noteq> []"
    using redis_server.run_absent(2) [OF assms(1) load(3) assms(10,11) no_counter, of "show_time zone" "read_time lenient" limit]
      that load(1) by (simp add: assms(12))
  ultimately show ?thesis using load(1) by simp
qed

theorem redis_key_read_once_witness:
  "snd (redis_load miniredis (read_time (\<lambda>_. None)) [Unreachable, Delivered] (hex_encode [1])
      (fst (run_ops miniredis (show_time (\<lambda>_. 0)) (read_time (\<lambda>_. None)) (\<lambda>_. 1)
        [Elapsing (30 * second), Loading [Delivered] (hex_encode [2]), Elapsing (29 * second)]
        (fst (redis_save miniredis (show_time (\<lambda>_. 0)) [ReplyLost, Delivered] (Some [1])
          \<lparr>PrivPEM = js ''k'', CreatedAt = 0\<rparr> (60 * second) empty_redis))))) =
    Inr (Some \<lparr>PrivPEM = js ''k'', CreatedAt = 0\<rparr>)"
proof -
  let ?opers = "[Elapsing (30 * second), Loading [Delivered] (hex_encode [2]), Elapsing (29 * second)]"
  let ?run = "run_ops miniredis (show_time (\<lambda>_. 0)) (read_time (\<lambda>_. None)) (\<lambda>_. 1)"
  obtain s1 where saved: "redis_save miniredis (show_time (\<lambda>_. 0)) [ReplyLost, Delivered] (Some [1])
      \<lparr>PrivPEM = js ''k'', CreatedAt = 0\<rparr> (60 * second) empty_redis = (s1, Some (hex_encode [1]))"
    by (simp add: redis_save_def randomID_def encode_record_def example_time_shown)
  obtain s2 outs where run: "?run ?opers s1 = (s2, outs)" by fastforce
  obtain s3 r where load: "redis_load miniredis (read_time (\<lambda>_. None)) [Unreachable, Delivered] (hex_encode [1]) s2 = (s3, r)"
    by fastforce
  have other: "hex_encode [2] \<noteq> hex_encode [1]" by (simp add: hex_lower_def)
  have time: "list_all op_valid ?opers" "sum_list (map op_time ?opers) < sent_ttl (60 * second)"
    using sent_ttl_seconds [of 60] by (simp_all add: second_def)
  have kept: "list_all (\<lambda>oper. \<not> is_load_of (hex_encode [1]) oper \<and> \<not> is_save_of (hex_encode [1]) oper) ?opers"
    using other by simp
  have none: "list_all op_valid []" "list_all (\<lambda>oper. \<not> is_save_of (hex_encode [1]) oper) []" "?run [] s3 = (s3, [])" by simp_all
  have "positive_duration (60 * second)" by (simp add: minute_durations)
  from redis_key_read_once [OF mini.redis_server_axioms empty_redis_ok this example_time_ok saved time(1) kept run load none]
  have "r = Inr (Some \<lparr>PrivPEM = js ''k'', CreatedAt = 0\<rparr>)" using time(2) by simp
  then show ?thesis by (simp only: saved run load fst_conv snd_conv)
qed

text \<open>C39: Fetching a counter resets the limit. A load of the ID that is the key of a client's counter fails,
  since the counter is no record, and deletes it: whatever the counter stood at, the client's next request
  is allowed again.\<close>
theorem fetching_counter_resets_limit:
  assumes "redis_server R view ok" and "ok s" and "view s (limiter_key bucket ip) = Some (decimal n, t)"
    and "redis_load R readTime [Delivered] (limiter_key bucket ip) s = (s', r)" and "1 \<le> limit"
  shows "r = Inl RecordError \<and> snd (allow R [Delivered] bucket limit ip s')"
proof -
  note load = redis_server.load_faults [OF assms(1,2), of readTime "[Delivered]" "limiter_key bucket ip"]
  have "r = Inl RecordError" "view s' (limiter_key bucket ip) = None" "ok s'"
    using load assms(3,4) by (simp_all add: getdel_reply_def load_result_def decimal_no_record)
  then show ?thesis
    using assms(5) redis_server.count_simps(2) [OF assms(1), of s' "limiter_key bucket ip"]
    by (simp add: allow_def view_count_def)
qed

theorem fetching_counter_resets_limit_witness:
  "snd (allow miniredis [Delivered] (js ''create'') 1 (js ''1'')
     (fst (redis_load miniredis (read_time (\<lambda>_. None)) [Delivered] (limiter_key (js ''create'') (js ''1''))
       (r_set miniredis (limiter_key (js ''create'') (js ''1'')) (decimal 30) (60 * second) empty_redis))))"
proof -
  let ?k = "limiter_key (js ''create'') (js ''1'')"
  let ?s = "r_set miniredis ?k (decimal 30) (60 * second) empty_redis"
  have "db_ok ?s" "db_view ?s ?k = Some (decimal 30, Some (60 * second))"
    using mini.set_ok [OF empty_redis_ok] mini.set_view [OF empty_redis_ok]
    by (simp_all add: view_set_def minute_durations sent_ttl_seconds)
  moreover obtain s' r where "redis_load miniredis (read_time (\<lambda>_. None)) [Delivered] ?k ?s = (s', r)" by fastforce
  ultimately show ?thesis
    using fetching_counter_resets_limit [OF mini.redis_server_axioms, of ?s "js ''create''" "js ''1''" 30 "Some (60 * second)"
        "read_time (\<lambda>_. None)" s' r 1] by simp
qed

end
