(* ===== verification/Server.thy ===== *)
theory Server
  imports Handlers RateLimit
begin

text \<open>
  \<open>handlers/middleware.go\<close> and \<open>server.go\<close>: the middlewares, the address of a client, the routes and the
  assembled application. A handler maps a request, the state of the store and the response writer to the
  new state and writer, or panics with what they were. Requests have no query and canonical paths (\<open>ServeMux\<close>
  itself redirects others, before any handler or middleware runs, and \<open>canonical_path\<close> tells which); header
  values are ASCII.
\<close>

section \<open>Requests and handlers\<close>

text \<open>The path is its list of decoded segments after the first slash: \<open>[[]]\<close> is the root.\<close>

record http_request =
  rq_method :: jsstring
  rq_segments :: "jsstring list"
  rq_fields :: header_fields
  rq_remote :: jsstring
  rq_body :: jsstring
  rq_ending :: stream_end

text \<open>
  The paths that \<open>ServeMux\<close> leaves alone: no empty segment but the last, and no dots to resolve. All others get a
  redirect of its own.
\<close>

definition canonical_path :: "jsstring list \<Rightarrow> bool" where
  "canonical_path segs \<longleftrightarrow> segs \<noteq> [] \<and> [] \<notin> set (butlast segs) \<and> js ''.'' \<notin> set segs \<and> js ''..'' \<notin> set segs"

datatype 'a completion = Returned 'a | Panicked 'a

type_synonym 's handler = "http_request \<Rightarrow> 's \<times> reply_writer \<Rightarrow> ('s \<times> reply_writer) completion"

section \<open>Addresses\<close>

text \<open>\<open>net.SplitHostPort\<close>: the host, if the port is there and brackets and colons are where they must be.\<close>

definition SplitHostPort :: "jsstring \<Rightarrow> jsstring option" where
  "SplitHostPort hostport =
     (if 58 \<notin> set hostport then None
      else
        (let i = length hostport - 1 - the (index_of [58] (rev hostport))
         in if hd hostport = 91 then
              (case index_of [93] hostport of
                 None \<Rightarrow> None
               | Some e \<Rightarrow>
                   if e + 1 \<noteq> i then None
                   else if 91 \<in> set (drop 1 hostport) \<or> 93 \<in> set (drop (e + 1) hostport) then None
                   else Some (slice 1 e hostport))
            else
              (let host = take i hostport
               in if 58 \<in> set host \<or> 91 \<in> set hostport \<or> 93 \<in> set hostport then None else Some host)))"

text \<open>\<open>net.ParseIP\<close>: the 16 bytes of an address, an IPv4 address as a mapped one.\<close>

definition ipv4_field :: "jsstring \<Rightarrow> nat option" where
  "ipv4_field f =
     (if f = [] \<or> \<not> list_all json_digit f \<or> (1 < length f \<and> hd f = 48) \<or> 255 < digits_value f then None
      else Some (digits_value f))"

definition ipv4_fields :: "jsstring \<Rightarrow> nat list option" where
  "ipv4_fields s =
     (let fs = split_on 46 s in if length fs = 4 then those (map ipv4_field fs) else None)"

definition ipv6_hex :: "jsstring \<Rightarrow> nat" where
  "ipv6_hex ds = foldl (\<lambda>v u. v * 16 + the (json_hex u)) 0 ds"

text \<open>
  The loop over the groups of an IPv6 address: the bytes so far, where the double colon was, the rest.
\<close>

function ipv6_loop :: "nat list \<Rightarrow> nat option \<Rightarrow> jsstring \<Rightarrow> (nat list \<times> nat option) option" where
  "ipv6_loop bs ellipsis s =
     (let ds = takeWhile (\<lambda>u. json_hex u \<noteq> None) s; rest = dropWhile (\<lambda>u. json_hex u \<noteq> None) s
      in if 16 \<le> length bs then (if s = [] then Some (bs, ellipsis) else None)
         else if ds = [] \<or> 4 < length ds then None
         else if rest \<noteq> [] \<and> hd rest = 46 then
           (if (ellipsis = None \<and> length bs \<noteq> 12) \<or> 12 < length bs then None
            else map_option (\<lambda>fs. (bs @ fs, ellipsis)) (ipv4_fields s))
         else
           (let bs' = bs @ [ipv6_hex ds div 256, ipv6_hex ds mod 256]
            in if rest = [] then Some (bs', ellipsis)
               else if hd rest \<noteq> 58 \<or> length rest = 1 then None
               else if hd (tl rest) = 58 then
                 (if ellipsis \<noteq> None then None
                  else if tl (tl rest) = [] then Some (bs', Some (length bs'))
                  else ipv6_loop bs' (Some (length bs')) (tl (tl rest)))
               else ipv6_loop bs' ellipsis (tl rest)))"
  by pat_completeness auto
termination
proof (relation "measure (\<lambda>(bs, e, s). length s)", goal_cases)
  case 1
  then show ?case by simp
next
  case (2 bs ellipsis s ds rest)
  then have "length rest \<le> length s" "rest \<noteq> []" by (simp_all add: length_dropWhile_le)
  then show ?case by (cases rest) auto
next
  case (3 bs ellipsis s ds rest)
  then have "length rest \<le> length s" "rest \<noteq> []" by (simp_all add: length_dropWhile_le)
  then show ?case by (cases rest) auto
qed

declare ipv6_loop.simps [simp del]

definition parse_ipv6 :: "jsstring \<Rightarrow> nat list option" where
  "parse_ipv6 s =
     (let leading = (2 \<le> length s \<and> s ! 0 = 58 \<and> s ! 1 = 58);
          result = (if leading \<and> length s = 2 then Some ([], Some 0)
                    else ipv6_loop [] (if leading then Some 0 else None) (if leading then drop 2 s else s))
      in case result of
           None \<Rightarrow> None
         | Some (bs, None) \<Rightarrow> if length bs = 16 then Some bs else None
         | Some (bs, Some e) \<Rightarrow>
             if length bs < 16 then Some (take e bs @ replicate (16 - length bs) 0 @ drop e bs) else None)"

definition ParseIP :: "jsstring \<Rightarrow> nat list option" where
  "ParseIP s =
     (case filter (\<lambda>u. u = 46 \<or> u = 58 \<or> u = 37) s of
        [] \<Rightarrow> None
      | u # _ \<Rightarrow>
          if u = 46 then map_option (\<lambda>fs. replicate 10 0 @ [255, 255] @ fs) (ipv4_fields s)
          else if u = 58 \<and> 37 \<notin> set s then parse_ipv6 s
          else None)"

text \<open>\<open>To4\<close>, \<open>IsLoopback\<close> and \<open>IsPrivate\<close>.\<close>

definition is_mapped :: "nat list \<Rightarrow> bool" where
  "is_mapped ip \<longleftrightarrow> take 12 ip = replicate 10 0 @ [255, 255]"

definition IsLoopback :: "nat list \<Rightarrow> bool" where
  "IsLoopback ip \<longleftrightarrow> (if is_mapped ip then ip ! 12 = 127 else ip = replicate 15 0 @ [1])"

definition IsPrivate :: "nat list \<Rightarrow> bool" where
  "IsPrivate ip \<longleftrightarrow>
     (if is_mapped ip
      then ip ! 12 = 10 \<or> (ip ! 12 = 172 \<and> ip ! 13 div 16 = 1) \<or> (ip ! 12 = 192 \<and> ip ! 13 = 168)
      else ip ! 0 div 2 = 126)"

definition isTrustedProxy :: "jsstring \<Rightarrow> bool" where
  "isTrustedProxy address =
     (case ParseIP address of None \<Rightarrow> False | Some ip \<Rightarrow> IsLoopback ip \<or> IsPrivate ip)"

definition directIP :: "http_request \<Rightarrow> jsstring" where
  "directIP rq = (case SplitHostPort (rq_remote rq) of Some host \<Rightarrow> host | None \<Rightarrow> rq_remote rq)"

definition remoteIP :: "http_request \<Rightarrow> bool \<Rightarrow> jsstring" where
  "remoteIP rq trustXFF =
     (if trustXFF \<and> isTrustedProxy (directIP rq) then
        (case rq_fields rq (js ''X-Forwarded-For'') of
           None \<Rightarrow> directIP rq
         | Some xff \<Rightarrow>
             (let first = trim (hd (split_on 44 xff)) in if first \<noteq> [] then first else directIP rq))
      else directIP rq)"

section \<open>Middlewares\<close>

definition Chain :: "('s handler \<Rightarrow> 's handler) list \<Rightarrow> 's handler \<Rightarrow> 's handler" where
  "Chain mw next_handler = foldr (\<lambda>m h. m h) mw next_handler"

definition PanicRecover :: "'s handler \<Rightarrow> 's handler" where
  "PanicRecover next_handler rq sw =
     (case next_handler rq sw of
        Returned x \<Rightarrow> Returned x
      | Panicked (s, w) \<Rightarrow> Returned (s, http_error ''internal server error'' 500 w))"

definition content_policy :: string where
  "content_policy =
     ''default-src 'self'; script-src 'self'; object-src 'none'; base-uri 'none'; form-action 'self'' @ [CHR 39]"

definition SecurityHeaders :: "'s handler \<Rightarrow> 's handler" where
  "SecurityHeaders next_handler rq sw =
     (let (s, w) = sw;
          w1 = header_set ''Strict-Transport-Security'' ''max-age=15552000; includeSubDomains'' w;
          w2 = header_set ''Content-Security-Policy'' content_policy w1;
          w3 = header_set ''Referrer-Policy'' ''no-referrer'' w2;
          w4 = header_set ''Cache-Control'' ''no-store'' w3;
          w5 = header_set ''X-Frame-Options'' ''DENY'' w4;
          w6 = header_set ''X-Content-Type-Options'' ''nosniff'' w5
      in next_handler rq (s, w6))"

definition StaticHeaders :: "'s handler \<Rightarrow> 's handler" where
  "StaticHeaders next_handler rq sw =
     (let (s, w) = sw;
          w1 = header_set ''Strict-Transport-Security'' ''max-age=15552000; includeSubDomains'' w;
          w2 = header_set ''Content-Security-Policy'' content_policy w1;
          w3 = header_set ''Referrer-Policy'' ''no-referrer'' w2;
          w4 = header_set ''X-Frame-Options'' ''DENY'' w3;
          w5 = header_set ''X-Content-Type-Options'' ''nosniff'' w4
      in next_handler rq (s, w5))"

definition MaxBodySize :: "nat \<Rightarrow> 's handler \<Rightarrow> 's handler" where
  "MaxBodySize limit next_handler rq sw =
     next_handler
       (if length (rq_body rq) \<le> limit then rq
        else rq\<lparr>rq_body := take limit (rq_body rq), rq_ending := CutOff\<rparr>) sw"

definition RateLimit :: "(jsstring \<Rightarrow> 's \<Rightarrow> 's \<times> bool) \<Rightarrow> bool \<Rightarrow> 's handler \<Rightarrow> 's handler" where
  "RateLimit limiter trustXFF next_handler rq sw =
     (let (s, w) = sw; ip = remoteIP rq trustXFF
      in case limiter ip s of
           (s1, False) \<Rightarrow> Returned (s1, http_error ''too many requests'' 429 w)
         | (s1, True) \<Rightarrow> next_handler rq (s1, w))"

section \<open>Routes\<close>

text \<open>A pattern with the method \<open>GET\<close> matches \<open>HEAD\<close> too. A segment in braces matches any segment but an empty one.\<close>

definition is_get :: "jsstring \<Rightarrow> bool" where
  "is_get m \<longleftrightarrow> m = js ''GET'' \<or> m = js ''HEAD''"

datatype route =
    CreateKeyRoute
  | FetchKeyRoute jsstring
  | HomeRoute
  | ShareRoute jsstring
  | NotFoundRoute
  | MethodNotAllowed string

text \<open>\<open>dynamicMux\<close>: the most specific pattern wins; without one for the method, the methods of the others are named.\<close>

definition dynamic_route :: "jsstring \<Rightarrow> jsstring list \<Rightarrow> route" where
  "dynamic_route m segs =
     (if segs = [js ''api'', js ''keys''] then
        (if m = js ''POST'' then CreateKeyRoute
         else if is_get m then NotFoundRoute else MethodNotAllowed ''GET, HEAD, POST'')
      else if \<not> is_get m then MethodNotAllowed ''GET, HEAD''
      else if length segs = 3 \<and> take 2 segs = [js ''api'', js ''keys''] \<and> segs ! 2 \<noteq> [] then FetchKeyRoute (segs ! 2)
      else if segs = [[]] then HomeRoute
      else if length segs = 2 \<and> hd segs = js ''share'' \<and> segs ! 1 \<noteq> [] then ShareRoute (segs ! 1)
      else NotFoundRoute)"

definition method_not_allowed :: "string \<Rightarrow> reply_writer \<Rightarrow> reply_writer" where
  "method_not_allowed methods w = http_error ''Method Not Allowed'' 405 (header_set ''Allow'' methods w)"

text \<open>The redirect of \<open>rootMux\<close> from \<open>/static\<close> to \<open>/static/\<close>.\<close>

definition redirect_static :: "'s handler" where
  "redirect_static rq sw =
     (let (s, w) = sw;
          w1 = header_set ''Location'' ''/static/'' w;
          w2 = (if is_get (rq_method rq) then header_set ''Content-Type'' ''text/html; charset=utf-8'' w1 else w1);
          w3 = write_header 301 w2
      in Returned (s, if rq_method rq = js ''GET''
           then write_body (js ''<a href=\"/static/\">Moved Permanently</a>.'' @ [10, 10]) w3 else w3))"

section \<open>The application\<close>

text \<open>
  What the application is built from: the settings of \<open>newAppHandler\<close>, the templates (\<open>None\<close> never, since an
  error ends \<open>newAppHandler\<close>), the store and the limiters, the outcome of key generation for this request, and
  the file server behind \<open>/static/\<close>.
\<close>

record 's app_parts =
  p_auto_hide :: int
  p_max_ttl :: int
  p_trust_xff :: bool
  p_templates :: page_templates
  p_keypair :: "(jsstring \<times> jsstring) option"
  p_save :: "jsstring \<Rightarrow> int \<Rightarrow> 's \<Rightarrow> 's \<times> jsstring option"
  p_load :: "jsstring \<Rightarrow> 's \<Rightarrow> 's \<times> (store_error + jsstring option)"
  p_create_limiter :: "jsstring \<Rightarrow> 's \<Rightarrow> 's \<times> bool"
  p_fetch_limiter :: "jsstring \<Rightarrow> 's \<Rightarrow> 's \<times> bool"
  p_files :: "'s handler"

definition app_settings :: "'s app_parts \<Rightarrow> handler_settings" where
  "app_settings a = SetMaxTTL (p_max_ttl a) (SetAutoHideSeconds (p_auto_hide a) New)"

definition create_handler :: "'s app_parts \<Rightarrow> 's handler" where
  "create_handler a =
     Chain [MaxBodySize (64 * 1024), RateLimit (p_create_limiter a) (p_trust_xff a)]
       (\<lambda>rq sw. Returned (CreateKey (app_settings a) (p_keypair a) (p_save a) (rq_ending rq) (rq_body rq) sw))"

definition fetch_handler :: "'s app_parts \<Rightarrow> jsstring \<Rightarrow> 's handler" where
  "fetch_handler a keyId =
     RateLimit (p_fetch_limiter a) (p_trust_xff a) (\<lambda>rq sw. Returned (FetchKey (p_load a) keyId sw))"

definition dynamicMux :: "'s app_parts \<Rightarrow> 's handler" where
  "dynamicMux a rq sw =
     (case dynamic_route (rq_method rq) (rq_segments rq) of
        CreateKeyRoute \<Rightarrow> create_handler a rq sw
      | FetchKeyRoute keyId \<Rightarrow> fetch_handler a keyId rq sw
      | HomeRoute \<Rightarrow> Returned (map_prod id (HomePage (app_settings a) (p_templates a)) sw)
      | ShareRoute shareId \<Rightarrow> Returned (map_prod id (SharePage_handler (app_settings a) (p_templates a) shareId) sw)
      | NotFoundRoute \<Rightarrow> Returned (map_prod id (NotFoundPage (p_templates a)) sw)
      | MethodNotAllowed methods \<Rightarrow> Returned (map_prod id (method_not_allowed methods) sw))"

definition dynamicHandler :: "'s app_parts \<Rightarrow> 's handler" where
  "dynamicHandler a = Chain [PanicRecover, SecurityHeaders] (dynamicMux a)"

definition staticMux :: "'s app_parts \<Rightarrow> 's handler" where
  "staticMux a rq sw =
     (if is_get (rq_method rq) then p_files a rq sw
      else Returned (map_prod id (method_not_allowed ''GET, HEAD'') sw))"

definition staticHandler :: "'s app_parts \<Rightarrow> 's handler" where
  "staticHandler a = Chain [PanicRecover, StaticHeaders] (staticMux a)"

definition newAppHandler :: "'s app_parts \<Rightarrow> 's handler" where
  "newAppHandler a rq sw =
     (if rq_segments rq = [js ''static''] then redirect_static rq sw
      else if hd (rq_segments rq) = js ''static'' then staticHandler a rq sw
      else dynamicHandler a rq sw)"

text \<open>
  What the server makes of it: the status is 200 if the handler sent none, and a reply to \<open>HEAD\<close> has no
  body. A panic that is not recovered closes the connection.
\<close>

definition serve :: "'s app_parts \<Rightarrow> http_request \<Rightarrow> 's \<Rightarrow> 's \<times> (nat \<times> header_fields \<times> jsstring) option" where
  "serve a rq s =
     (case newAppHandler a rq (s, new_writer) of
        Panicked (s', _) \<Rightarrow> (s', None)
      | Returned (s', w) \<Rightarrow>
          (case w_sent (write_header 200 w) of
             None \<Rightarrow> (s', None)
           | Some (code, sent_fields) \<Rightarrow>
               (s', Some (code, sent_fields, if rq_method rq = js ''HEAD'' then [] else w_body w))))"


section \<open>The header fields of a reply\<close>

definition security_fields :: "(string \<times> string) list" where
  "security_fields =
     [(''Strict-Transport-Security'', ''max-age=15552000; includeSubDomains''),
      (''Content-Security-Policy'', content_policy), (''Referrer-Policy'', ''no-referrer''),
      (''Cache-Control'', ''no-store''), (''X-Frame-Options'', ''DENY''), (''X-Content-Type-Options'', ''nosniff'')]"

definition has_fields :: "(string \<times> string) list \<Rightarrow> header_fields \<Rightarrow> bool" where
  "has_fields fs hs \<longleftrightarrow> list_all (\<lambda>(name, v). hs (js name) = Some (js v)) fs"

text \<open>A writer that will send, or has sent, the given fields.\<close>

definition sends :: "(string \<times> string) list \<Rightarrow> reply_writer \<Rightarrow> bool" where
  "sends fs w \<longleftrightarrow> has_fields fs (case w_sent w of None \<Rightarrow> w_fields w | Some (code, hs) \<Rightarrow> hs)"

lemma sends_write [simp]:
  "sends fs w \<Longrightarrow> sends fs (write_header code w)"
  "sends fs w \<Longrightarrow> sends fs (write_body bs w)"
  by (auto simp: sends_def write_header_def write_body_def Let_def split: option.splits)

lemma sends_header_set:
  assumes "sends fs w" and "list_all (\<lambda>(n, x). js n \<noteq> js name \<or> x = v) fs"
  shows "sends fs (header_set name v w)"
  using assms by (auto simp: sends_def header_set_def has_fields_def list_all_iff split: option.splits)

lemma security_set [simp]:
  assumes "sends security_fields w"
  shows "sends security_fields (header_set ''Content-Type'' v w)" "sends security_fields (header_set ''Allow'' v w)"
    "sends security_fields (header_set ''X-Content-Type-Options'' ''nosniff'' w)"
  by (rule sends_header_set [OF assms]; simp add: security_fields_def js_simps)+

lemmas reply_defs = http_error_def not_found_def internal_error_def writeJSONError_def method_not_allowed_def

lemma error_sends [simp]:
  assumes "sends security_fields w"
  shows "sends security_fields (http_error msg code w)" "sends security_fields (not_found w)"
    "sends security_fields (internal_error w)" "sends security_fields (writeJSONError code err w)"
    "sends security_fields (method_not_allowed methods w)" "sends security_fields (writeDecodeError derr w)"
  using assms by (simp_all add: reply_defs writeDecodeError_def split: decode_error.split)

lemma handler_sends:
  assumes "sends security_fields w"
  shows "sends security_fields (snd (CreateKey h keypair save ending input (s, w)))"
    and "sends security_fields (snd (FetchKey load keyId (s, w)))"
    and "sends security_fields (renderPage templates pd w)"
  using assms by (simp_all add: CreateKey_def FetchKey_def renderPage_def split: sum.split option.split prod.split)

lemma RateLimit_returned:
  "RateLimit limiter trust (\<lambda>rq sw. Returned (f rq sw)) rq (s, w) =
     (let (s1, ok) = limiter (remoteIP rq trust) s
      in Returned (if ok then f rq (s1, w) else (s1, http_error ''too many requests'' 429 w)))"
  by (simp add: RateLimit_def split: prod.split bool.split)

lemma dynamicMux_sends:
  assumes "sends security_fields w"
  shows "\<exists>s' w'. dynamicMux a rq (s, w) = Returned (s', w') \<and> sends security_fields w'"
proof -
  have returned: "\<exists>s' w'. RateLimit limiter trust (\<lambda>rq sw. Returned (f rq sw)) rq (s, w) = Returned (s', w') \<and>
      sends security_fields w'" if "\<And>rq s w. sends security_fields w \<Longrightarrow> sends security_fields (snd (f rq (s, w)))" for limiter trust f rq
    using that [OF assms, of rq "fst (limiter (remoteIP rq trust) s)"] assms
    by (cases "f rq (fst (limiter (remoteIP rq trust) s), w)") (simp add: RateLimit_returned split_beta Let_def)
  have create: "\<exists>s' w'. create_handler a rq (s, w) = Returned (s', w') \<and> sends security_fields w'"
    unfolding create_handler_def Chain_def MaxBodySize_def foldr.simps o_def id_def
    by (rule returned) (rule handler_sends(1))
  have fetch: "\<exists>s' w'. fetch_handler a keyId rq (s, w) = Returned (s', w') \<and> sends security_fields w'" for keyId
    unfolding fetch_handler_def by (rule returned) (rule handler_sends(2))
  show ?thesis
    using assms create fetch handler_sends(3) [OF assms]
    by (cases "dynamic_route (rq_method rq) (rq_segments rq)")
      (simp_all add: dynamicMux_def HomePage_def SharePage_handler_def NotFoundPage_def)
qed

text \<open>The writer a handler starts with behind \<open>SecurityHeaders\<close>.\<close>

definition secured_writer :: reply_writer where
  "secured_writer =
     header_set ''X-Content-Type-Options'' ''nosniff'' (header_set ''X-Frame-Options'' ''DENY''
      (header_set ''Cache-Control'' ''no-store'' (header_set ''Referrer-Policy'' ''no-referrer''
        (header_set ''Content-Security-Policy'' content_policy
          (header_set ''Strict-Transport-Security'' ''max-age=15552000; includeSubDomains'' new_writer)))))"

lemma secured_writer:
  "SecurityHeaders next_handler rq (s, new_writer) = next_handler rq (s, secured_writer)"
  "w_sent secured_writer = None" "w_body secured_writer = []" "sends security_fields secured_writer"
  by (simp_all add: secured_writer_def SecurityHeaders_def sends_def has_fields_def security_fields_def header_set_def
      new_writer_def js_simps)

lemma dynamicHandler_writer:
  "dynamicMux a rq (s, secured_writer) = Returned x \<Longrightarrow> dynamicHandler a rq (s, new_writer) = Returned x"
  by (simp add: dynamicHandler_def Chain_def PanicRecover_def secured_writer(1))

lemma dynamicHandler_sends:
  "\<exists>s' w. dynamicHandler a rq (s, new_writer) = Returned (s', w) \<and> sends security_fields w"
  using dynamicMux_sends [OF secured_writer(4), of a rq s] dynamicHandler_writer [of a rq s] by metis

lemma serve_returned:
  "newAppHandler a rq (s, new_writer) = Returned (s', w) \<Longrightarrow>
   serve a rq s =
     (case w_sent (write_header 200 w) of
        None \<Rightarrow> (s', None)
      | Some (code, hs) \<Rightarrow> (s', Some (code, hs, if rq_method rq = js ''HEAD'' then [] else w_body w)))"
  by (simp add: serve_def)

lemma serve_dynamic:
  assumes "rq_segments rq \<noteq> [js ''static'']" and "hd (rq_segments rq) \<noteq> js ''static''"
  shows "newAppHandler a rq sw = dynamicHandler a rq sw"
  using assms by (simp add: newAppHandler_def)

lemma js_api_static: "js ''api'' \<noteq> js ''static''" "js ''api'' \<noteq> js ''share''"
  by (simp_all add: js_simps)

section \<open>IPv4 addresses\<close>

definition dotted :: "nat \<Rightarrow> nat \<Rightarrow> nat \<Rightarrow> nat \<Rightarrow> jsstring" where
  "dotted b1 b2 b3 b4 = decimal b1 @ 46 # decimal b2 @ 46 # decimal b3 @ 46 # decimal b4"

lemma decimal_no: "u \<notin> {48..57} \<Longrightarrow> u \<notin> set (decimal n)"
  using decimal_digits [of n] by (auto simp: list_all_iff json_digit_def)

lemma decimal_no_sign: "46 \<notin> set (decimal n)" "58 \<notin> set (decimal n)" "91 \<notin> set (decimal n)" "93 \<notin> set (decimal n)"
  "37 \<notin> set (decimal n)"
  by (rule decimal_no; simp add: word_le_nat_alt)+

lemma ipv4_field_decimal: "n < 256 \<Longrightarrow> ipv4_field (decimal n) = Some n"
proof -
  assume n: "n < 256"
  have "\<not> (1 < length (decimal n) \<and> hd (decimal n) = 48)"
  proof (cases "n = 0")
    case True
    then show ?thesis by (subst decimal.simps) simp
  qed (simp add: decimal_hd)
  with n decimal_digits [of n] show ?thesis by (auto simp: ipv4_field_def)
qed

lemma parse_dotted:
  assumes "b1 < 256" "b2 < 256" "b3 < 256" "b4 < 256"
  shows "ParseIP (dotted b1 b2 b3 b4) = Some (replicate 10 0 @ [255, 255, b1, b2, b3, b4])"
proof -
  have "split_on 46 (dotted b1 b2 b3 b4) = [decimal b1, decimal b2, decimal b3, decimal b4]"
    by (simp add: dotted_def split_on_append split_on_none decimal_no_sign)
  then have "ipv4_fields (dotted b1 b2 b3 b4) = Some [b1, b2, b3, b4]"
    using assms by (simp add: ipv4_fields_def ipv4_field_decimal)
  moreover have "filter (\<lambda>u. u = 46 \<or> u = 58 \<or> u = 37) (decimal n) = []" for n
    using decimal_no_sign [of n] by (auto simp: filter_empty_conv)
  ultimately show ?thesis by (simp add: ParseIP_def) (simp add: dotted_def)
qed

lemma trusted_dotted:
  assumes "b1 < 256" "b2 < 256" "b3 < 256" "b4 < 256"
  shows "isTrustedProxy (dotted b1 b2 b3 b4) \<longleftrightarrow>
    b1 = 127 \<or> b1 = 10 \<or> (b1 = 172 \<and> b2 div 16 = 1) \<or> (b1 = 192 \<and> b2 = 168)"
proof -
  let ?ip = "replicate 10 0 @ [255, 255, b1, b2, b3, b4]"
  have "is_mapped ?ip" "?ip ! 12 = b1" "?ip ! 13 = b2" by (simp_all add: is_mapped_def nth_append)
  then show ?thesis by (auto simp: isTrustedProxy_def parse_dotted [OF assms] IsLoopback_def IsPrivate_def)
qed

lemma split_on_not_Nil: "split_on d xs \<noteq> []"
  by (induction xs) (auto split: list.split)

lemma hd_split_on: "hd (split_on d xs) = takeWhile (\<lambda>u. u \<noteq> d) xs"
proof (induction xs)
  case (Cons x xs)
  then show ?case using split_on_not_Nil [of d xs] by (cases "split_on d xs") auto
qed simp

text \<open>The route of a key, from the request to what goes out.\<close>

lemma serve_fetch:
  assumes "is_get (rq_method rq)" and "rq_segments rq = [js ''api'', js ''keys'', k]" and "k \<noteq> []"
    and "p_fetch_limiter a (remoteIP rq (p_trust_xff a)) s = (s1, allowed)" and "p_load a k s1 = (s2, r)"
  shows "\<exists>hs. serve a rq s =
    (if allowed then s2 else s1,
     Some (if \<not> allowed then 429 else case r of Inl _ \<Rightarrow> 500 | Inr None \<Rightarrow> 404 | Inr (Some key) \<Rightarrow> 200, hs,
       if rq_method rq = js ''HEAD'' then []
       else if \<not> allowed then js ''too many requests'' @ [10]
       else case r of Inl _ \<Rightarrow> js ''internal error'' @ [10] | Inr None \<Rightarrow> js ''404 page not found'' @ [10]
         | Inr (Some key) \<Rightarrow> key))"
proof -
  have route: "dynamic_route (rq_method rq) (rq_segments rq) = FetchKeyRoute k"
    using assms(1-3) by (simp add: dynamic_route_def)
  obtain s' w where mux: "dynamicMux a rq (s, secured_writer) = Returned (s', w)"
    and s': "s' = (if allowed then s2 else s1)"
    and w: "w = (if \<not> allowed then http_error ''too many requests'' 429 secured_writer
       else case r of Inl _ \<Rightarrow> internal_error secured_writer | Inr None \<Rightarrow> not_found secured_writer
         | Inr (Some key) \<Rightarrow> write_body key (write_header 200 secured_writer))"
    using assms(4,5)
    by (simp add: dynamicMux_def route fetch_handler_def RateLimit_returned FetchKey_def split: sum.split option.split)
  have app: "newAppHandler a rq (s, new_writer) = Returned (s', w)"
    using serve_dynamic [of rq a] assms(2) js_api_static(1) dynamicHandler_writer [OF mux] by simp
  show ?thesis
    unfolding serve_returned [OF app] s' w
    using secured_writer(2,3)
    by (simp add: reply_defs write_body_def write_header_def header_set_def Let_def split: sum.split option.split)
qed

section \<open>Properties\<close>

text \<open>C17: Every reply to a request outside \<open>/static\<close> is complete and carries the security fields. For every
  canonical path, and whatever the method, body, store, limiters and templates, the server answers, and the
  fields that go out forbid storing the reply, framing it, sniffing its type, loading scripts from elsewhere and
  sending referrers. Other paths are redirected by \<open>rootMux\<close> itself, in front of the middlewares, without
  the fields.\<close>
theorem dynamic_replies_secured:
  assumes "canonical_path (rq_segments rq)" and "hd (rq_segments rq) \<noteq> js ''static''"
  shows "\<exists>s' code hs body. serve a rq s = (s', Some (code, hs, body)) \<and> has_fields security_fields hs"
proof -
  have "rq_segments rq \<noteq> [js ''static'']" using assms(2) by auto
  from serve_dynamic [OF this assms(2), of a] dynamicHandler_sends [of a rq s] obtain s' w
    where app: "newAppHandler a rq (s, new_writer) = Returned (s', w)" and w: "sends security_fields w"
    by metis
  have "sends security_fields (write_header 200 w)" using w by simp
  moreover obtain code hs where "w_sent (write_header 200 w) = Some (code, hs)"
    by (cases "w_sent w") (auto simp: write_header_def)
  ultimately show ?thesis by (simp add: serve_returned [OF app] sends_def)
qed

definition example_request :: "string \<Rightarrow> jsstring list \<Rightarrow> http_request" where
  "example_request m segs =
     \<lparr>rq_method = js m, rq_segments = segs, rq_fields = [js ''X-Forwarded-For'' \<mapsto> js ''9.9.9.9, 10.0.0.1''],
      rq_remote = dotted 10 0 0 1 @ 58 # decimal 443, rq_body = [], rq_ending = AtEof\<rparr>"

definition example_parts :: "unit app_parts" where
  "example_parts =
     \<lparr>p_auto_hide = 60, p_max_ttl = 0, p_trust_xff = True, p_templates = None, p_keypair = None,
      p_save = \<lambda>pem ttl s. (s, None), p_load = \<lambda>k s. (s, Inr (Some (js ''key''))),
      p_create_limiter = \<lambda>ip s. (s, False), p_fetch_limiter = \<lambda>ip s. (s, True),
      p_files = \<lambda>rq sw. Panicked sw\<rparr>"

theorem dynamic_replies_secured_witness:
  "\<exists>s' code hs body. serve example_parts (example_request ''PUT'' [js ''x'']) () = (s', Some (code, hs, body)) \<and>
     has_fields security_fields hs"
  by (rule dynamic_replies_secured) (simp_all add: example_request_def canonical_path_def js_simps)

text \<open>C14: What a request for a key gets. \<open>GET\<close> and \<open>HEAD\<close> go the same way: the limiter is asked first, and a refused
  client gets 429 without the store being touched; otherwise the key is loaded, and the reply is the key,
  404 if there is none, or 500. A \<open>HEAD\<close> request loads the key too, which deletes it, and gets no body.\<close>
theorem fetch_served:
  assumes "is_get (rq_method rq)" and "rq_segments rq = [js ''api'', js ''keys'', k]" and "k \<noteq> []"
    and "p_fetch_limiter a (remoteIP rq (p_trust_xff a)) s = (s1, allowed)" and "p_load a k s1 = (s2, r)"
  shows "\<exists>hs. serve a rq s =
    (if allowed then s2 else s1,
     Some (if \<not> allowed then 429 else case r of Inl _ \<Rightarrow> 500 | Inr None \<Rightarrow> 404 | Inr (Some key) \<Rightarrow> 200, hs,
       if rq_method rq = js ''HEAD'' then []
       else if \<not> allowed then js ''too many requests'' @ [10]
       else case r of Inl _ \<Rightarrow> js ''internal error'' @ [10] | Inr None \<Rightarrow> js ''404 page not found'' @ [10]
         | Inr (Some key) \<Rightarrow> key))"
  by (rule serve_fetch [OF assms])

theorem fetch_served_witness:
  "\<exists>hs. serve example_parts (example_request ''HEAD'' [js ''api'', js ''keys'', js ''1'']) () = ((), Some (200, hs, []))"
proof -
  let ?rq = "example_request ''HEAD'' [js ''api'', js ''keys'', js ''1'']"
  have "is_get (rq_method ?rq)" "rq_segments ?rq = [js ''api'', js ''keys'', js ''1'']" "js ''1'' \<noteq> []"
    by (simp_all add: example_request_def is_get_def)
  from fetch_served [OF this, of example_parts "()" "()" True "()" "Inr (Some (js ''key''))"] show ?thesis
    by (simp add: example_parts_def) (simp add: example_request_def)
qed

end
