(* ===== verification/GoDuration.thy ===== *)
theory GoDuration
  imports GoJson "HOL-Library.Log_Nat"
begin

text \<open>
  \<open>time.ParseDuration\<close> of Go's standard library, which \<open>config.go\<close> calls: a sign, then numbers with a fraction
  and a unit, added up in 64 bits. The fraction is computed in floating point: a \<open>double\<close> here is a mantissa
  with an exponent of 2, rounded to 53 bits, half to even, after every operation. Its exponent is not
  bounded: the program's doubles become infinite or subnormal only for fractions so long that the product,
  cut to an integer, is 0 either way.
\<close>

section \<open>Floating point\<close>

type_synonym double = "nat \<times> int"

definition round_quotient :: "nat \<Rightarrow> nat \<Rightarrow> nat" where
  "round_quotient p q =
     (let d = p div q; r = p mod q
      in if 2 * r < q \<or> 2 * r = q \<and> even d then d else d + 1)"

text \<open>The double nearest to \<open>p / q * 2 ^ e\<close>.\<close>

definition round_double :: "nat \<Rightarrow> nat \<Rightarrow> int \<Rightarrow> double" where
  "round_double p q e =
     (if p = 0 then (0, 0)
      else
        (let k = int (floorlog 2 p) - int (floorlog 2 q) - 53;
             p' = p * 2 ^ nat (- k); q' = q * 2 ^ nat k
         in if p' < 2 ^ 53 * q' then (round_quotient p' q', e + k)
            else (round_quotient p' (2 * q'), e + k + 1)))"

definition double_of :: "nat \<Rightarrow> double" where
  "double_of n = round_double n 1 0"

definition double_mult :: "double \<Rightarrow> double \<Rightarrow> double" where
  "double_mult x y = round_double (fst x * fst y) 1 (snd x + snd y)"

definition double_div :: "double \<Rightarrow> double \<Rightarrow> double" where
  "double_div x y = round_double (fst x) (fst y) (snd x - snd y)"

definition double_trunc :: "double \<Rightarrow> nat" where
  "double_trunc x = fst x * 2 ^ nat (snd x) div 2 ^ nat (- snd x)"

section \<open>The parser\<close>

definition digit_of :: "code_unit \<Rightarrow> nat" where
  "digit_of c = unat c - 48"

text \<open>The digits before the point, at most \<open>2 ^ 63\<close>.\<close>

fun leadingInt :: "nat \<Rightarrow> jsstring \<Rightarrow> (nat \<times> jsstring) option" where
  "leadingInt x [] = Some (x, [])"
| "leadingInt x (c # s) =
     (if \<not> json_digit c then Some (x, c # s)
      else if 2 ^ 63 div 10 < x then None
      else
        (let y = x * 10 + digit_of c
         in if 2 ^ 63 < y then None else leadingInt y s))"

text \<open>The digits after the point; those that do not fit are read but not counted.\<close>

fun leadingFraction :: "bool \<Rightarrow> nat \<Rightarrow> double \<Rightarrow> jsstring \<Rightarrow> nat \<times> double \<times> jsstring" where
  "leadingFraction overflow x scale [] = (x, scale, [])"
| "leadingFraction overflow x scale (c # s) =
     (if \<not> json_digit c then (x, scale, c # s)
      else if overflow then leadingFraction True x scale s
      else if (2 ^ 63 - 1) div 10 < x then leadingFraction True x scale s
      else
        (let y = x * 10 + digit_of c
         in if 2 ^ 63 < y then leadingFraction True x scale s
            else leadingFraction False y (double_mult scale (double_of 10)) s))"

definition unitMap :: "(jsstring \<times> nat) list" where
  "unitMap =
     [(js ''ns'', 1), (js ''us'', 10 ^ 3), (0xC2 # 0xB5 # js ''s'', 10 ^ 3), (0xCE # 0xBC # js ''s'', 10 ^ 3),
      (js ''ms'', 10 ^ 6), (js ''s'', 10 ^ 9), (js ''m'', 60 * 10 ^ 9), (js ''h'', 3600 * 10 ^ 9)]"

definition unit_char :: "code_unit \<Rightarrow> bool" where
  "unit_char c \<longleftrightarrow> c \<noteq> 46 \<and> \<not> json_digit c"

text \<open>One number with its unit, in nanoseconds, and the rest of the text.\<close>

definition duration_part :: "jsstring \<Rightarrow> (nat \<times> jsstring) option" where
  "duration_part s =
     (if s = [] \<or> \<not> (hd s = 46 \<or> json_digit (hd s)) then None
      else
        (case leadingInt 0 s of
           None \<Rightarrow> None
         | Some (v, s1) \<Rightarrow>
             (let pre = (length s1 \<noteq> length s);
                  point = (s1 \<noteq> [] \<and> hd s1 = 46);
                  (f, scale, s2) = (if point then leadingFraction False 0 (double_of 1) (tl s1) else (0, double_of 1, s1));
                  post = (point \<and> length s2 \<noteq> length (tl s1));
                  u = takeWhile unit_char s2
              in if \<not> pre \<and> \<not> post then None
                 else if u = [] then None
                 else
                   (case map_of unitMap u of
                      None \<Rightarrow> None
                    | Some unit \<Rightarrow>
                        if 2 ^ 63 div unit < v then None
                        else
                          (let w = v * unit + (if 0 < f
                                 then double_trunc (double_mult (double_of f) (double_div (double_of unit) scale)) else 0)
                           in if 0 < f \<and> 2 ^ 63 < w then None else Some (w, dropWhile unit_char s2))))))"

lemma leadingInt_length: "leadingInt x s = Some (v, t) \<Longrightarrow> length t \<le> length s"
  by (induction x s rule: leadingInt.induct) (auto simp: Let_def split: if_splits)

lemma leadingFraction_length: "leadingFraction b x c s = (f, d, t) \<Longrightarrow> length t \<le> length s"
  by (induction b x c s rule: leadingFraction.induct) (auto simp: Let_def split: if_splits)

lemma duration_part_length: "duration_part s = Some (v, t) \<Longrightarrow> length t < length s"
proof -
  assume part: "duration_part s = Some (v, t)"
  then obtain n s1 where int: "leadingInt 0 s = Some (n, s1)"
    by (auto simp: duration_part_def split: if_splits option.splits)
  obtain f scale s2 where s2: "(if s1 \<noteq> [] \<and> hd s1 = 46 then leadingFraction False 0 (double_of 1) (tl s1)
      else (0, double_of 1, s1)) = (f, scale, s2)" by (cases "if s1 \<noteq> [] \<and> hd s1 = 46
      then leadingFraction False 0 (double_of 1) (tl s1) else (0, double_of 1, s1)")
  have "length s2 \<le> length s1"
    using s2 leadingFraction_length [of False 0 "double_of 1" "tl s1" f scale s2] by (simp split: if_splits)
  with leadingInt_length [OF int] have "length s2 \<le> length s" by simp
  moreover have "t = dropWhile unit_char s2" "takeWhile unit_char s2 \<noteq> []"
    using part int s2 by (auto simp: duration_part_def Let_def split: if_splits option.splits)
  moreover from this have "length t < length s2"
    by (metis length_greater_0_conv length_append less_add_same_cancel2 takeWhile_dropWhile_id)
  ultimately show ?thesis by simp
qed

text \<open>The sum is a \<open>uint64\<close>.\<close>

function duration_sum :: "nat \<Rightarrow> jsstring \<Rightarrow> nat option" where
  "duration_sum d s =
     (if s = [] then Some d
      else
        (case duration_part s of
           None \<Rightarrow> None
         | Some (v, rest) \<Rightarrow>
             (let d' = (d + v) mod 2 ^ 64
              in if 2 ^ 63 < d' then None else duration_sum d' rest)))"
  by pat_completeness auto
termination
  by (relation "measure (\<lambda>(d, s). length s)") (auto dest: duration_part_length)

declare duration_sum.simps [simp del]

definition ParseDuration :: "jsstring \<Rightarrow> int option" where
  "ParseDuration orig =
     (let signed = (orig \<noteq> [] \<and> (hd orig = 45 \<or> hd orig = 43));
          neg = (orig \<noteq> [] \<and> hd orig = 45);
          s = (if signed then tl orig else orig)
      in if s = js ''0'' then Some 0
         else if s = [] then None
         else
           (case duration_sum 0 s of
              None \<Rightarrow> None
            | Some d \<Rightarrow>
                if neg then Some (- int d)
                else if 2 ^ 63 - 1 < d then None
                else Some (int d)))"

section \<open>Whole numbers\<close>

text \<open>Numbers without a fraction, each with its unit, are added up exactly.\<close>

definition duration_text :: "(nat \<times> jsstring) list \<Rightarrow> jsstring" where
  "duration_text ps = concat (map (\<lambda>(n, u). decimal n @ u) ps)"

definition unit_ns :: "jsstring \<Rightarrow> nat" where
  "unit_ns u = (case map_of unitMap u of Some n \<Rightarrow> n | None \<Rightarrow> 0)"

definition duration_value :: "(nat \<times> jsstring) list \<Rightarrow> nat" where
  "duration_value ps = sum_list (map (\<lambda>(n, u). n * unit_ns u) ps)"

definition unit_names :: "jsstring list" where
  "unit_names = map fst unitMap"

lemma digits_from_mono: "x \<le> foldl (\<lambda>v u. v * 10 + digit_of u) x ds"
proof (induction ds arbitrary: x)
  case (Cons d ds)
  have "x \<le> x * 10 + digit_of d" by simp
  also note Cons [of "x * 10 + digit_of d"]
  finally show ?case by simp
qed simp

lemma leadingInt_digits:
  "list_all json_digit ds \<Longrightarrow> foldl (\<lambda>v u. v * 10 + digit_of u) x ds \<le> 2 ^ 63 \<Longrightarrow>
   rest = [] \<or> \<not> json_digit (hd rest) \<Longrightarrow>
   leadingInt x (ds @ rest) = Some (foldl (\<lambda>v u. v * 10 + digit_of u) x ds, rest)"
proof (induction ds arbitrary: x)
  case Nil
  then show ?case by (cases rest) auto
next
  case (Cons d ds)
  let ?y = "x * 10 + digit_of d"
  have "?y \<le> 2 ^ 63" using Cons.prems(2) digits_from_mono [of ?y ds] by simp
  then have "\<not> 2 ^ 63 div 10 < x" by simp
  with Cons \<open>?y \<le> 2 ^ 63\<close> show ?case by simp
qed

lemma leadingInt_decimal:
  assumes "n \<le> 2 ^ 63" and "rest = [] \<or> \<not> json_digit (hd rest)"
  shows "leadingInt 0 (decimal n @ rest) = Some (n, rest)"
proof -
  have sum: "foldl (\<lambda>v u. v * 10 + digit_of u) 0 (decimal n) = n"
    using digits_value_decimal [of n] by (simp add: digits_value_def digit_of_def)
  from leadingInt_digits [OF decimal_digits [of n], of 0 rest] assms show ?thesis
    by (simp add: sum)
qed

text \<open>The known units are made of characters that are neither digits nor points.\<close>

lemma unit_facts:
  assumes "u \<in> set unit_names"
  shows "u \<noteq> []" "list_all unit_char u" "map_of unitMap u = Some (unit_ns u)" "0 < unit_ns u"
proof -
  have "list_all (\<lambda>u. u \<noteq> [] \<and> list_all unit_char u) unit_names"
    by (simp add: unit_names_def unitMap_def js_simps unit_char_def json_digit_def)
  with assms show "u \<noteq> []" "list_all unit_char u" by (auto simp: list_all_iff)
  have "list_all (\<lambda>u. map_of unitMap u = Some (unit_ns u) \<and> 0 < unit_ns u) unit_names"
    by (simp add: unit_names_def unitMap_def js_simps unit_ns_def)
  with assms show "map_of unitMap u = Some (unit_ns u)" "0 < unit_ns u" by (auto simp: list_all_iff)
qed

lemma unit_then:
  assumes "u \<in> set unit_names" and "rest = [] \<or> \<not> unit_char (hd rest)"
  shows "takeWhile unit_char (u @ rest) = u" "dropWhile unit_char (u @ rest) = rest"
  using unit_facts(2) [OF assms(1)] assms(2)
  by (cases rest; simp add: list_all_iff takeWhile_append dropWhile_append)+

lemma duration_part_whole:
  assumes u: "u \<in> set unit_names" and n: "n * unit_ns u \<le> 2 ^ 63" and rest: "rest = [] \<or> json_digit (hd rest)"
  shows "duration_part (decimal n @ u @ rest) = Some (n * unit_ns u, rest)"
proof -
  note facts = unit_facts [OF u]
  have "unit_char (hd u)" using facts(1,2) by (cases u) auto
  then have hd_u: "\<not> json_digit (hd u)" "hd u \<noteq> 46" by (auto simp: unit_char_def)
  have "n \<le> n * unit_ns u" using facts(4) by simp
  then have "n \<le> 2 ^ 63" using n by (rule le_trans)
  then have int: "leadingInt 0 (decimal n @ u @ rest) = Some (n, u @ rest)"
    by (rule leadingInt_decimal) (use facts(1) hd_u in simp)
  obtain d ds where dds: "decimal n = d # ds" using decimal_not_Nil [of n] by (cases "decimal n") auto
  then have "json_digit d" using decimal_digits [of n] by simp
  have "n \<le> 2 ^ 63 div unit_ns u" using n facts(4) by (simp add: less_eq_div_iff_mult_less_eq del: power_numeral)
  then have fits: "\<not> 2 ^ 63 div unit_ns u < n" by simp
  have "rest = [] \<or> \<not> unit_char (hd rest)" using rest by (auto simp: unit_char_def)
  note split = unit_then [OF u this]
  show ?thesis
    using facts(1) hd_u \<open>json_digit d\<close> fits
    by (simp add: duration_part_def int Let_def split facts(3)) (simp add: dds)
qed

lemma duration_text_hd: "duration_text ps = [] \<or> json_digit (hd (duration_text ps))"
proof (cases ps)
  case (Cons p ps)
  obtain d ds where "decimal (fst p) = d # ds" using decimal_not_Nil [of "fst p"] by (cases "decimal (fst p)") auto
  then show ?thesis using decimal_digits [of "fst p"] Cons by (simp add: duration_text_def split_beta)
qed (simp add: duration_text_def)

lemma duration_sum_whole:
  "list_all (\<lambda>p. snd p \<in> set unit_names) ps \<Longrightarrow> d + duration_value ps \<le> 2 ^ 63 \<Longrightarrow>
   duration_sum d (duration_text ps) = Some (d + duration_value ps)"
proof (induction ps arbitrary: d)
  case Nil
  then show ?case by (simp add: duration_sum.simps duration_text_def duration_value_def)
next
  case (Cons p ps)
  obtain n u where p: "p = (n, u)" by (cases p)
  have whole: "duration_text (p # ps) = decimal n @ u @ duration_text ps" by (simp add: duration_text_def p)
  have sum: "duration_value (p # ps) = n * unit_ns u + duration_value ps" by (simp add: duration_value_def p)
  have "duration_part (duration_text (p # ps)) = Some (n * unit_ns u, duration_text ps)"
    unfolding whole by (rule duration_part_whole) (use Cons.prems p sum duration_text_hd in auto)
  moreover have "(d + n * unit_ns u) mod 2 ^ 64 = d + n * unit_ns u" "\<not> 2 ^ 63 < d + n * unit_ns u"
    using Cons.prems(2) sum by simp_all
  moreover have "duration_sum (d + n * unit_ns u) (duration_text ps) = Some (d + n * unit_ns u + duration_value ps)"
    using Cons.IH [of "d + n * unit_ns u"] Cons.prems sum by (simp add: add.assoc)
  ultimately show ?case
    by (subst duration_sum.simps) (simp add: sum add.assoc whole)
qed

lemma ParseDuration_whole:
  assumes "ps \<noteq> []" and "list_all (\<lambda>p. snd p \<in> set unit_names) ps" and "duration_value ps < 2 ^ 63"
  shows "ParseDuration (duration_text ps) = Some (int (duration_value ps))"
proof -
  obtain n u qs where ps: "ps = (n, u) # qs" using assms(1) by (cases ps) auto
  obtain d ds where dds: "decimal n = d # ds" using decimal_not_Nil [of n] by (cases "decimal n") auto
  have whole: "duration_text ps = d # ds @ u @ duration_text qs" by (simp add: duration_text_def ps dds)
  have "json_digit d" using decimal_digits [of n] by (simp add: dds)
  then have sign: "d \<noteq> 45" "d \<noteq> 43" by (auto simp: json_digit_def)
  have "u \<noteq> []" using unit_facts(1) assms(2) ps by simp
  then have "duration_text ps \<noteq> js ''0''" by (simp add: whole js_simps)
  moreover have "duration_sum 0 (duration_text ps) = Some (duration_value ps)"
    using duration_sum_whole [OF assms(2), of 0] assms(3) by simp
  moreover have "\<not> 2 ^ 63 - 1 < duration_value ps" using assms(3) by simp
  ultimately show ?thesis
    using sign by (simp add: ParseDuration_def whole del: power_numeral)
qed

text \<open>Every result is a 64-bit number.\<close>

lemma duration_sum_range: "d \<le> 2 ^ 63 \<Longrightarrow> duration_sum d s = Some e \<Longrightarrow> e \<le> 2 ^ 63"
proof (induction d s rule: duration_sum.induct)
  case (1 d s)
  show ?case
  proof (cases "s = []")
    case True
    with 1(2,3) show ?thesis by (simp add: duration_sum.simps)
  next
    case False
    then obtain v t where part: "duration_part s = Some (v, t)"
      using 1(3) by (subst (asm) duration_sum.simps) (auto split: option.splits)
    let ?d = "(d + v) mod 2 ^ 64"
    have "\<not> 2 ^ 63 < ?d \<and> duration_sum ?d t = Some e"
      using 1(3) False part by (subst (asm) duration_sum.simps) (simp add: Let_def split: if_splits)
    with 1(1) [OF False part refl refl] show ?thesis by simp
  qed
qed

lemma ParseDuration_range:
  "ParseDuration s = Some d \<Longrightarrow> - (2 ^ 63) \<le> d \<and> d < 2 ^ 63"
  using duration_sum_range [of 0 s] duration_sum_range [of 0 "tl s"]
  by (auto simp: ParseDuration_def Let_def split: if_splits option.splits)

end
