(* ===== verification/Config.thy ===== *)
theory Config
  imports Server GoDuration
begin

text \<open>
  \<open>config.go\<close>: the configuration from the environment. The environment maps a name to its value, the empty
  text when it is not set. Integers have 64 bits; durations are nanoseconds.
\<close>

type_synonym environment = "string \<Rightarrow> jsstring"

record config =
  cfg_port :: jsstring
  cfg_redis_addr :: jsstring
  cfg_store_backend :: jsstring
  cfg_auto_hide_seconds :: int
  cfg_rate_limit_create :: int
  cfg_rate_limit_fetch :: int
  cfg_max_ttl :: int
  cfg_trust_xff :: bool

definition envInt :: "environment \<Rightarrow> string \<Rightarrow> int \<Rightarrow> int" where
  "envInt env name dflt =
     (if env name \<noteq> [] then
        (case parse_int64 (env name) of
           Some n \<Rightarrow> if 0 < n then n else dflt
         | None \<Rightarrow> dflt)
      else dflt)"

definition envString :: "environment \<Rightarrow> string \<Rightarrow> jsstring \<Rightarrow> jsstring" where
  "envString env name dflt = (if env name \<noteq> [] then env name else dflt)"

definition envBool :: "environment \<Rightarrow> string \<Rightarrow> bool \<Rightarrow> bool" where
  "envBool env name dflt =
     (if env name \<noteq> [] then
        env name = js ''1'' \<or> env name = js ''true'' \<or> env name = js ''True'' \<or> env name = js ''TRUE''
      else dflt)"

definition envDuration :: "environment \<Rightarrow> string \<Rightarrow> int \<Rightarrow> int" where
  "envDuration env name dflt =
     (let minDuration = 60 * second
      in if env name \<noteq> [] then
           (case ParseDuration (env name) of
              Some d \<Rightarrow> if d < minDuration then dflt else d
            | None \<Rightarrow> dflt)
         else dflt)"

definition loadConfig :: "environment \<Rightarrow> config" where
  "loadConfig env =
     \<lparr>cfg_port = (if env ''PORT'' = [] then js ''14000'' else env ''PORT''),
      cfg_redis_addr = (if env ''REDIS_ADDR'' = [] then js ''localhost:6379'' else env ''REDIS_ADDR''),
      cfg_store_backend = envString env ''KEYBANK_STORE'' (js ''redis''),
      cfg_auto_hide_seconds = envInt env ''AUTO_HIDE_SECONDS'' 60,
      cfg_rate_limit_create = envInt env ''RATE_LIMIT_CREATE'' 30,
      cfg_rate_limit_fetch = envInt env ''RATE_LIMIT_FETCH'' 60,
      cfg_max_ttl = envDuration env ''MAX_TTL'' (7 * 24 * 3600 * second),
      cfg_trust_xff = envBool env ''TRUST_XFF'' False\<rparr>"

section \<open>Properties\<close>

text \<open>C31: Every environment gives a usable configuration. Whatever the variables hold, the hourly limits are positive, the pages hide plaintext after a positive
  time, and the longest time to live the application uses is between one minute and seven days; it is the
  configured duration exactly when that is in this range, and seven days otherwise.\<close>
theorem configuration_in_range:
  "let cfg = loadConfig env;
       h = SetMaxTTL (cfg_max_ttl cfg) (SetAutoHideSeconds (cfg_auto_hide_seconds cfg) New)
   in 0 < cfg_rate_limit_create cfg \<and> 0 < cfg_rate_limit_fetch cfg \<and>
      autoHide h = cfg_auto_hide_seconds cfg \<and> 0 < autoHide h \<and> minTTL \<le> maxTTL h \<and> maxTTL h \<le> maxAllowedTTL \<and>
      maxTTL h =
        (case ParseDuration (env ''MAX_TTL'') of
           Some d \<Rightarrow> if env ''MAX_TTL'' \<noteq> [] \<and> minTTL \<le> d \<and> d \<le> maxAllowedTTL then d else maxAllowedTTL
         | None \<Rightarrow> maxAllowedTTL)"
proof -
  have positive: "0 < dflt \<Longrightarrow> 0 < envInt env name dflt" for name dflt
    by (simp add: envInt_def split: option.split)
  have ints: "0 < envInt env ''RATE_LIMIT_CREATE'' 30" "0 < envInt env ''RATE_LIMIT_FETCH'' 60"
    "0 < envInt env ''AUTO_HIDE_SECONDS'' 60"
    by (rule positive; simp)+
  have "settings_ok (SetMaxTTL d (SetAutoHideSeconds n New))" for d n
    by (intro setters_ok New_ok)
  then show ?thesis
    using ints
    by (auto simp: loadConfig_def Let_def settings_ok_def SetAutoHideSeconds_def SetMaxTTL_def New_def envDuration_def
        duration_defs split: option.split)
qed

text \<open>C32: What the operator writes is what the application uses. When \<open>MAX_TTL\<close> is a text of whole numbers with
  units, such as \<open>24h30m\<close>, that add up to less than \<open>2 ^ 63\<close> nanoseconds, the longest time to live is exactly
  that sum if it is between one minute and seven days, and seven days otherwise.\<close>
theorem max_ttl_setting:
  assumes "env ''MAX_TTL'' = duration_text ps" and "ps \<noteq> []" and "list_all (\<lambda>p. snd p \<in> set unit_names) ps"
    and "duration_value ps < 2 ^ 63"
  shows "maxTTL (SetMaxTTL (cfg_max_ttl (loadConfig env)) (SetAutoHideSeconds n New)) =
    (if minTTL \<le> int (duration_value ps) \<and> int (duration_value ps) \<le> maxAllowedTTL then int (duration_value ps)
     else maxAllowedTTL)"
proof -
  have "duration_text ps \<noteq> []"
    using assms(2) by (cases ps) (auto simp: duration_text_def)
  then have "cfg_max_ttl (loadConfig env) =
      (if int (duration_value ps) < minTTL then maxAllowedTTL else int (duration_value ps))"
    using ParseDuration_whole [OF assms(2-4)] assms(1)
    by (simp add: loadConfig_def envDuration_def minTTL_def maxAllowedTTL_def)
  then show ?thesis
    by (simp add: SetMaxTTL_def SetAutoHideSeconds_def New_def duration_defs)
qed

theorem max_ttl_setting_witness:
  "maxTTL (SetMaxTTL (cfg_max_ttl (loadConfig (\<lambda>_. duration_text [(24, js ''h''), (30, js ''m'')])))
     (SetAutoHideSeconds 60 New)) = 88200 * second"
proof -
  have "duration_value [(24, js ''h''), (30, js ''m'')] = 88200 * 10 ^ 9"
    by (simp add: duration_value_def unit_ns_def unitMap_def js_simps)
  then show ?thesis
    using max_ttl_setting [of "\<lambda>_. duration_text [(24, js ''h''), (30, js ''m'')]" "[(24, js ''h''), (30, js ''m'')]" 60]
    by (simp add: unit_names_def unitMap_def duration_defs js_simps)
qed

end
