(* ===== verification/System.thy ===== *)
theory System
  imports CreateSpec ShareSpec Config
begin

text \<open>
  The parts put together: the application as \<open>main.go\<close> builds it, the way of a request from a page to the
  server and of the reply back, and the lemmas on whole exchanges that the properties of the root theory
  rest on.
\<close>

section \<open>The application on its stores\<close>

text \<open>
  What surrounds one request: the fate of the attempts of its Redis calls, the random bytes, the time, and
  what key generation gives.
\<close>

record surroundings =
  limiter_attempts :: "attempt list"
  store_attempts :: "attempt list"
  random_bytes :: "bytes option"
  time_now :: int
  new_keypair :: "(jsstring \<times> jsstring) option"

definition redis_app ::
  "'s redis_ops \<Rightarrow> (int \<Rightarrow> jsstring option) \<Rightarrow> (jsstring \<Rightarrow> int option) \<Rightarrow> config \<Rightarrow> page_templates \<Rightarrow> 's handler \<Rightarrow>
   surroundings \<Rightarrow> 's app_parts"
where
  "redis_app R showTime readTime cfg templates files su =
     \<lparr>p_auto_hide = cfg_auto_hide_seconds cfg, p_max_ttl = cfg_max_ttl cfg, p_trust_xff = cfg_trust_xff cfg,
      p_templates = templates, p_keypair = new_keypair su,
      p_save = adapter_save (redis_save R showTime (store_attempts su) (random_bytes su)) (time_now su),
      p_load = adapter_load (redis_load R readTime (store_attempts su)),
      p_create_limiter = allow R (limiter_attempts su) (js ''create'') (cfg_rate_limit_create cfg),
      p_fetch_limiter = allow R (limiter_attempts su) (js ''fetch'') (cfg_rate_limit_fetch cfg),
      p_files = files\<rparr>"

definition mem_app :: "config \<Rightarrow> page_templates \<Rightarrow> mem_store handler \<Rightarrow> surroundings \<Rightarrow> mem_store app_parts" where
  "mem_app cfg templates files su =
     \<lparr>p_auto_hide = cfg_auto_hide_seconds cfg, p_max_ttl = cfg_max_ttl cfg, p_trust_xff = cfg_trust_xff cfg,
      p_templates = templates, p_keypair = new_keypair su,
      p_save = adapter_save (mem_save (random_bytes su) (time_now su)) (time_now su),
      p_load = adapter_load (\<lambda>k m. map_prod id Inr (mem_load (time_now su) k m)),
      p_create_limiter = (\<lambda>ip m. (m, noop_allow ip)), p_fetch_limiter = (\<lambda>ip m. (m, noop_allow ip)),
      p_files = files\<rparr>"

section \<open>Requests and replies on their way\<close>

text \<open>
  The request a page sends, as the server sees it: from a peer address, with the fields a proxy may add.
  The paths of the pages' requests have no escapes, since IDs are hexadecimal.
\<close>

definition received_request :: "jsstring \<Rightarrow> header_fields \<Rightarrow> request \<Rightarrow> http_request" where
  "received_request peer added r =
     \<lparr>rq_method = r_method r, rq_segments = split_on 47 (drop 1 (r_path r)),
      rq_fields = map_of (r_headers r) ++ added, rq_remote = peer,
      rq_body = (case r_body r of None \<Rightarrow> [] | Some b \<Rightarrow> b), rq_ending = AtEof\<rparr>"

text \<open>The reply as the page sees it when it arrives in full: texts are ASCII, JSON is read when it is asked for.\<close>

definition received_reply :: "nat \<times> header_fields \<times> jsstring \<Rightarrow> response" where
  "received_reply reply =
     (let (code, hs, body) = reply
      in \<lparr>status = code, body_text = Inr body,
          body_json =
            (case json_parse body of
               None \<Rightarrow> Inl SyntaxError
             | Some v \<Rightarrow>
                 (case js_field ''pub_pem'' v of
                    Some pub \<Rightarrow> Inr \<lparr>reply_id = (case js_field ''id'' v of Some i \<Rightarrow> i | None \<Rightarrow> js ''undefined''), reply_pub = pub\<rparr>
                  | None \<Rightarrow> Inl TypeError))\<rparr>)"

lemma ttl_body_object: "ttl_body n = ttl_object n"
  by (simp add: ttl_body_def ttl_object_def json_object_def json_string_def js_simps json_escape_def short_escape_def
      html_or_control_def)

lemma key_path_segments: "47 \<notin> set k \<Longrightarrow> split_on 47 (drop (Suc 0) (js ''/api/keys/'') @ k) = [js ''api'', js ''keys'', k]"
proof -
  assume k: "47 \<notin> set k"
  have "drop (Suc 0) (js ''/api/keys/'') @ k = js ''api'' @ 47 # js ''keys'' @ 47 # k" by (simp add: js_simps)
  moreover have "47 \<notin> set (js ''api'')" "47 \<notin> set (js ''keys'')" by (simp_all add: js_simps)
  ultimately show ?thesis using k by (simp add: split_on_append split_on_none)
qed

lemma create_path_segments: "split_on 47 (drop (Suc 0) (js ''/api/keys'')) = [js ''api'', js ''keys'']"
proof -
  have path: "drop (Suc 0) (js ''/api/keys'') = js ''api'' @ 47 # js ''keys''" by (simp add: js_simps)
  have "47 \<notin> set (js ''api'')" "47 \<notin> set (js ''keys'')" by (simp_all add: js_simps)
  then show ?thesis unfolding path by (simp add: split_on_append split_on_none)
qed

lemma decimal_length: "n < 10 ^ Suc k \<Longrightarrow> length (decimal n) \<le> Suc k"
proof (induction k arbitrary: n)
  case 0
  then show ?case by (subst decimal.simps) simp
next
  case (Suc k)
  then have "n div 10 < 10 ^ Suc k" by (simp add: less_mult_imp_div_less)
  from Suc.IH [OF this] show ?case by (subst decimal.simps) simp
qed

section \<open>A key is created\<close>

text \<open>The reply to the create page's request, when the limiter allows it and the save succeeds.\<close>

lemma create_exchange:
  assumes settings: "60 \<le> n" "int n \<le> maxTTL (app_settings a) div second"
    and keypair: "p_keypair a = Some (pub, priv)"
    and limiter: "p_create_limiter a (remoteIP (received_request peer added (create_request n)) (p_trust_xff a)) s = (s0, True)"
    and save: "p_save a priv (int n * second) s0 = (s1, Some k)"
  shows "\<exists>reply. serve a (received_request peer added (create_request n)) s = (s1, Some reply) \<and>
    status (received_reply reply) = 201 \<and>
    body_json (received_reply reply) = Inr \<lparr>reply_id = k, reply_pub = pub\<rparr>"
proof -
  let ?rq = "received_request peer added (create_request n)"
  have rq: "rq_method ?rq = js ''POST''" "rq_segments ?rq = [js ''api'', js ''keys'']" "rq_body ?rq = ttl_object n"
    "rq_ending ?rq = AtEof"
    by (simp_all add: received_request_def create_request_def create_path_segments ttl_body_object)
  have ok: "settings_ok (app_settings a)" unfolding app_settings_def by (intro setters_ok New_ok)
  have small: "length (ttl_object n) \<le> 64 * 1024"
  proof -
    have "maxTTL (app_settings a) div second \<le> maxAllowedTTL div second"
      using ok by (intro zdiv_mono1) (simp_all add: settings_ok_def second_def)
    with settings(2) have "n < 10 ^ Suc 5" by (simp add: duration_defs)
    from decimal_length [OF this] show ?thesis
      by (simp add: ttl_object_def json_object_def json_string_def js_simps json_escape_def short_escape_def
          html_or_control_def)
  qed
  let ?w = "write_body (CreateKeyResponse k pub)
      (write_header 201 (header_set ''Content-Type'' ''application/json'' secured_writer))"
  have created: "CreateKey (app_settings a) (Some (pub, priv)) (p_save a) AtEof (ttl_object n) (s0, secured_writer) = (s1, ?w)"
    using create_on_object [OF settings ok, of "[]" "p_save a" priv s0 s1 k pub secured_writer] save by simp
  have "dynamicMux a ?rq (s, secured_writer) = Returned (s1, ?w)"
    using small created limiter
    by (simp add: dynamicMux_def rq dynamic_route_def create_handler_def Chain_def MaxBodySize_def RateLimit_returned keypair)
  then have app: "newAppHandler a ?rq (s, new_writer) = Returned (s1, ?w)"
    using serve_dynamic [of ?rq a] rq(2) js_api_static(1) dynamicHandler_writer by simp
  have post: "js ''POST'' \<noteq> js ''HEAD''" by (simp add: js_simps)
  obtain v where "json_parse (CreateKeyResponse k pub) = Some v" using response_is_json by blast
  with response_parses [OF this] show ?thesis
    unfolding serve_returned [OF app] rq(1)
    using secured_writer(2,3) post
    by (simp add: write_body_def write_header_def header_set_def Let_def received_reply_def)
qed


section \<open>Keys over Redis\<close>

text \<open>The limiter leaves the keys alone.\<close>

lemma allow_keeps:
  assumes "redis_server R view ok" and "ok s" and "allow R as bucket limit ip s = (s', r)"
  shows "ok s'" and "randomID random = Some k \<Longrightarrow> view s' k = view s k"
proof -
  have s': "s' = fst (redis_call (r_count R (limiter_key bucket ip)) as s)"
    using assms(3) redis_server.allow_call [OF assms(1)] by (metis fst_conv)
  show "ok s'"
    unfolding s' by (rule redis_server.call_ok [OF assms(1) redis_server.count_ok [OF assms(1)] assms(2)])
  show "randomID random = Some k \<Longrightarrow> view s' k = view s k"
    unfolding s' using redis_server.counter_call_other [OF assms(1,2)] id_no_counter by metis
qed

lemma limiter_keys_differ: "limiter_key (js ''fetch'') ip \<noteq> limiter_key (js ''create'') ip'"
  by (simp add: limiter_key_def js_simps)

lemma first_allowed:
  assumes "redis_server R view ok" and "ok s" and "view s (limiter_key bucket ip) = None" and "1 \<le> limit"
  shows "snd (allow R [Delivered] bucket limit ip s)"
  using assms redis_server.count_simps(2) [OF assms(1,2), of "limiter_key bucket ip"]
  by (simp add: allow_def view_count_def)

lemma redis_app_simps [simp]:
  "p_keypair (redis_app R showTime readTime cfg templates files su) = new_keypair su"
  "p_save (redis_app R showTime readTime cfg templates files su) =
     adapter_save (redis_save R showTime (store_attempts su) (random_bytes su)) (time_now su)"
  "p_load (redis_app R showTime readTime cfg templates files su) = adapter_load (redis_load R readTime (store_attempts su))"
  "p_create_limiter (redis_app R showTime readTime cfg templates files su) =
     allow R (limiter_attempts su) (js ''create'') (cfg_rate_limit_create cfg)"
  "p_fetch_limiter (redis_app R showTime readTime cfg templates files su) =
     allow R (limiter_attempts su) (js ''fetch'') (cfg_rate_limit_fetch cfg)"
  "p_trust_xff (redis_app R showTime readTime cfg templates files su) = cfg_trust_xff cfg"
  by (simp_all add: redis_app_def)

text \<open>The longest expiry the application accepts, in seconds.\<close>

definition longest_expiry :: "config \<Rightarrow> int" where
  "longest_expiry cfg =
     maxTTL (SetMaxTTL (cfg_max_ttl cfg) (SetAutoHideSeconds (cfg_auto_hide_seconds cfg) New)) div second"

lemma redis_create:
  assumes server: "redis_server R view ok" and "ok s" and time: "time_codec_ok showTime readTime"
    and "60 \<le> n" and "int n \<le> longest_expiry cfg"
    and a: "a = redis_app R showTime readTime cfg templates files su"
    and keypair: "new_keypair su = Some (pub, priv)" and random: "random_bytes su = Some bs"
    and "showTime (time_now su) \<noteq> None" and "Delivered \<in> set (store_attempts su)"
    and allowed: "snd (p_create_limiter a (remoteIP (received_request peer added (create_request n)) (p_trust_xff a)) s)"
  obtains reply s1 payload where "serve a (received_request peer added (create_request n)) s = (s1, Some reply)"
    and "status (received_reply reply) = 201"
    and "body_json (received_reply reply) = Inr \<lparr>reply_id = hex_encode bs, reply_pub = pub\<rparr>"
    and "ok s1" and "view s1 (hex_encode bs) = Some (payload, Some (int n * second))"
    and "decode_record readTime payload = Some \<lparr>PrivPEM = priv, CreatedAt = time_now su\<rparr>"
    and "\<And>ip. view s1 (limiter_key (js ''fetch'') ip) = view s (limiter_key (js ''fetch'') ip)"
proof -
  let ?ttl = "int n * second" and ?rcd = "\<lparr>PrivPEM = priv, CreatedAt = time_now su\<rparr>"
  obtain s0 where limiter: "p_create_limiter a (remoteIP (received_request peer added (create_request n)) (p_trust_xff a)) s = (s0, True)"
    using allowed by (cases "p_create_limiter a (remoteIP (received_request peer added (create_request n)) (p_trust_xff a)) s") simp
  then have ok0: "ok s0" using allow_keeps(1) [OF server assms(2)] a by simp
  have longest: "int n \<le> maxTTL (app_settings a) div second"
    using assms(5) a by (simp add: longest_expiry_def app_settings_def redis_app_def)
  have "settings_ok (app_settings a)" unfolding app_settings_def by (intro setters_ok New_ok)
  then have "maxTTL (app_settings a) div second \<le> maxAllowedTTL div second"
    by (intro zdiv_mono1) (simp_all add: settings_ok_def second_def)
  then have ttl: "positive_duration ?ttl"
    using longest assms(4) by (simp add: positive_duration_def duration_defs)
  have sent: "sent_ttl ?ttl = ?ttl" using assms(4) by (intro sent_ttl_seconds) simp
  obtain payload where payload: "encode_record showTime ?rcd = Some payload"
    using assms(9) by (auto simp: encode_record_def)
  let ?call = "redis_call (\<lambda>s. (r_set R (hex_encode bs) payload ?ttl s, ())) (store_attempts su) s0"
  obtain s1 where s1: "?call = (s1, Some ())"
    using redis_server.set_call [OF server ttl ok0, of "hex_encode bs" payload "store_attempts su"] assms(10)
    by (cases ?call) auto
  have save: "p_save a priv ?ttl s0 = (s1, Some (hex_encode bs))"
    by (simp add: a adapter_save_def redis_save_def random randomID_def payload s1)
  from create_exchange [OF assms(4) longest _ limiter save] keypair a obtain reply
    where reply: "serve a (received_request peer added (create_request n)) s = (s1, Some reply)"
      "status (received_reply reply) = 201"
      "body_json (received_reply reply) = Inr \<lparr>reply_id = hex_encode bs, reply_pub = pub\<rparr>"
    by auto
  have "redis_save R showTime (store_attempts su) (Some bs) ?rcd ?ttl s0 = (s1, Some (hex_encode bs))"
    using save random by (simp add: a adapter_save_def)
  then obtain payload' where "encode_record showTime ?rcd = Some payload'" "ok s1"
    "view s1 = view_set (hex_encode bs) payload' ?ttl (view s0)"
    by (rule redis_server.save_view [OF server ok0 ttl, unfolded sent])
  moreover have "view s0 (limiter_key (js ''fetch'') ip) = view s (limiter_key (js ''fetch'') ip)" for ip
    using limiter redis_server.counter_call_other [OF server assms(2)] limiter_keys_differ
    by (simp add: a redis_server.allow_call [OF server]) (metis fst_conv)
  moreover have "limiter_key (js ''fetch'') ip \<noteq> hex_encode bs" for ip
    using id_no_counter [of "Some bs" "hex_encode bs" "js ''fetch''" ip] by (auto simp: randomID_def)
  ultimately show thesis
    using that [OF reply] decode_encode [OF time payload] payload by (simp add: view_set_def)
qed

lemma hex_no_slash: "47 \<notin> set (hex_encode bs)"
  using hex_encode_digits [of bs] by (auto simp: list_all_iff)

text \<open>One fetch: the key if it is there and Redis answers, and never a key afterwards.\<close>

lemma redis_fetch:
  assumes server: "redis_server R view ok" and "ok s"
    and a: "a = redis_app R showTime readTime cfg templates files su" and "bs \<noteq> []"
  obtains reply s2 where "serve a (received_request peer added (fetch_request (hex_encode bs))) s = (s2, Some reply)"
    and "ok s2" and "view s (hex_encode bs) = None \<Longrightarrow> view s2 (hex_encode bs) = None"
    and "view s (hex_encode bs) = None \<Longrightarrow> status (received_reply reply) \<in> {404, 429, 500}"
    and "\<And>payload t rcd rest.
      snd (p_fetch_limiter a (remoteIP (received_request peer added (fetch_request (hex_encode bs))) (p_trust_xff a)) s) \<Longrightarrow>
      first_executed (store_attempts su) = Delivered # rest \<Longrightarrow> view s (hex_encode bs) = Some (payload, t) \<Longrightarrow>
      decode_record readTime payload = Some rcd \<Longrightarrow>
      status (received_reply reply) = 200 \<and> body_text (received_reply reply) = Inr (PrivPEM rcd) \<and> view s2 (hex_encode bs) = None"
proof -
  let ?k = "hex_encode bs"
  let ?rq = "received_request peer added (fetch_request ?k)"
  have id: "randomID (Some bs) = Some ?k" by (simp add: randomID_def)
  have k: "?k \<noteq> []" using assms(4) by (cases bs) simp_all
  have rq: "rq_method ?rq = js ''GET''" "rq_segments ?rq = [js ''api'', js ''keys'', ?k]"
    by (simp_all add: received_request_def fetch_request_def key_path_segments hex_no_slash)
  have get: "is_get (rq_method ?rq)" "rq_method ?rq \<noteq> js ''HEAD''" unfolding rq by (simp_all add: is_get_def js_simps)
  obtain s1 allowed where limiter: "p_fetch_limiter a (remoteIP ?rq (p_trust_xff a)) s = (s1, allowed)" by fastforce
  note kept = allow_keeps [OF server assms(2) limiter [unfolded a redis_app_simps]]
  obtain s2 r where load: "redis_load R readTime (store_attempts su) ?k s1 = (s2, r)" by fastforce
  note faults = redis_server.load_faults [OF server kept(1), of readTime "store_attempts su" ?k, unfolded load, simplified]
  have adapter: "p_load a ?k s1 = (s2, case r of Inl e \<Rightarrow> Inl e | Inr None \<Rightarrow> Inr None | Inr (Some rcd) \<Rightarrow> Inr (Some (PrivPEM rcd)))"
    by (simp add: a adapter_load_def load split: sum.split option.split)
  obtain hs where served: "serve a ?rq s = (if allowed then s2 else s1,
      Some (if \<not> allowed then 429 else case r of Inl _ \<Rightarrow> 500 | Inr None \<Rightarrow> 404 | Inr (Some rcd) \<Rightarrow> 200, hs,
        if \<not> allowed then js ''too many requests'' @ [10]
        else case r of Inl _ \<Rightarrow> js ''internal error'' @ [10] | Inr None \<Rightarrow> js ''404 page not found'' @ [10]
          | Inr (Some rcd) \<Rightarrow> PrivPEM rcd))"
    using serve_fetch [OF get(1) rq(2) k limiter adapter] get(2)
    by (cases r) (auto split: option.splits)
  have view1: "view s1 ?k = view s ?k" by (rule kept(2) [OF id])
  show thesis
  proof (rule that [OF served])
    show "ok (if allowed then s2 else s1)" using kept(1) faults(3) by simp
    show "view s ?k = None \<Longrightarrow> view (if allowed then s2 else s1) ?k = None" using view1 faults(1) by simp
    show "view s ?k = None \<Longrightarrow> status (received_reply (if \<not> allowed then 429 else case r of Inl _ \<Rightarrow> 500 | Inr None \<Rightarrow> 404
        | Inr (Some rcd) \<Rightarrow> 200, hs, if \<not> allowed then js ''too many requests'' @ [10]
        else case r of Inl _ \<Rightarrow> js ''internal error'' @ [10] | Inr None \<Rightarrow> js ''404 page not found'' @ [10]
          | Inr (Some rcd) \<Rightarrow> PrivPEM rcd)) \<in> {404, 429, 500}"
      using faults(2) view1 by (auto simp: received_reply_def getdel_reply_absent load_result_def)
  qed (use limiter faults(1,2) view1 in \<open>auto simp: received_reply_def getdel_reply_def load_result_def\<close>)
qed


text \<open>On the in-memory store, too, a key is gone once it was asked for.\<close>

lemma mem_fetch_twice:
  assumes "is_get (rq_method rq)" and "rq_segments rq = [js ''api'', js ''keys'', k]" and "k \<noteq> []"
    and "is_get (rq_method rq')" and "rq_segments rq' = [js ''api'', js ''keys'', k]"
    and "serve (mem_app cfg templates files su) rq m = (m', reply)"
  shows "\<exists>hs body. serve (mem_app cfg templates files su') rq' m' = (m', Some (404, hs, body))"
proof -
  have parts: "p_fetch_limiter (mem_app cfg templates files su) ip m = (m, True)"
    "p_load (mem_app cfg templates files su) k m =
      (fst (mem_load (time_now su) k m), Inr (map_option PrivPEM (snd (mem_load (time_now su) k m))))" for ip su m
    by (simp_all add: mem_app_def noop_allow_def adapter_load_def map_prod_def split_beta split: option.split)
  have "m' = fst (mem_load (time_now su) k m)"
    using serve_fetch [OF assms(1-3) parts(1) [of su _ m] parts(2) [of su m]] assms(6) by auto
  then have "m' k = None" using mem.load_content [of _ "time_now su" k m k]
    by (simp add: mem_load_def Let_def split: option.split)
  then have "mem_load (time_now su') k m' = (m', None)" by (simp add: mem_load_def)
  then show ?thesis using serve_fetch [OF assms(4,5,3) parts(1) [of su' _ m'] parts(2) [of su' m']] by auto
qed

section \<open>The pages\<close>

text \<open>A created link, opened with the matching private key, shows the note.\<close>

lemma shown_link:
  assumes "in_flight p = Some (note, ttl, entry)"
    and "response_ok created" and "body_json created = Inr \<lparr>reply_id = keyId, reply_pub = pubPem\<rparr>"
    and "q = create_step pf p (Reply (Some created) rnd)"
    and "pemToBytes pubPem (js ''PUBLIC KEY'') = Inr pubDer"
    and "pemToBytes privPem (js ''PRIVATE KEY'') = Inr privDer"
    and "key_pair_ok (crypto pf) pubDer privDer" and "aes_ok (crypto pf)"
    and "0x8000 \<le> arg_limit pf" and "length (fresh_iv rnd) = 12" and "hex_id keyId"
    and "origin_ok (page_origin pf)"
  shows "\<not> result_hidden q" and "\<exists>u e. parse_url (share_url q) = Inr u \<and> url_pathname u = js ''/share/'' @ keyId \<and>
    parseFragment (url_hash u) = Inr e \<and>
    decrypt_fragment (crypto pf) privPem (Some e) = Inr (received_text note)"
proof -
  obtain w c where enc: "encryptMessage (arg_limit pf) (crypto pf) rnd pubPem note =
      Some (Inr \<lparr>wrapped = b64url w, iv = b64url (fresh_iv rnd), ct = b64url c\<rparr>)"
    and len: "length w = 512" "length c = length (text_encode note) + 16"
    and dec: "decryptMessage (crypto pf) privPem (b64url w) (b64url (fresh_iv rnd)) (b64url c) =
      Inr (received_text note)"
    by (rule encrypt_decrypt [OF assms(7-10) assms(5,6)])
  let ?e = "\<lparr>wrapped = b64url w, iv = b64url (fresh_iv rnd), ct = b64url c\<rparr>"
  have vals: "link_values ?e" using len assms(10) by (auto simp: link_values_def)
  have shown: "buildShareURL (page_origin pf) keyId ?e = Inr (share_url q)" "\<not> result_hidden q"
    using submit_finish_shows [OF assms(1,2,3) _ vals _ assms(12,4)] enc assms(11) by simp_all
  show "\<not> result_hidden q" by (rule shown(2))
  have "decrypt_fragment (crypto pf) privPem (Some ?e) = Inr (received_text note)"
    using dec by (simp add: decrypt_fragment_def)
  then show "\<exists>u e. parse_url (share_url q) = Inr u \<and> url_pathname u = js ''/share/'' @ keyId \<and>
    parseFragment (url_hash u) = Inr e \<and>
    decrypt_fragment (crypto pf) privPem (Some e) = Inr (received_text note)"
    using built_link_parts [OF assms(12,11) vals] shown(1) parseFragment_link_fragment [OF vals] by fastforce
qed

lemma pages_deliver:
  assumes "in_flight p = Some (note, ttl, entry)"
    and "response_ok created" and "body_json created = Inr \<lparr>reply_id = keyId, reply_pub = pubPem\<rparr>"
    and "q = create_step pf p (Reply (Some created) rnd)"
    and "pemToBytes pubPem (js ''PUBLIC KEY'') = Inr pubDer"
    and "pemToBytes privPem (js ''PRIVATE KEY'') = Inr privDer"
    and "key_pair_ok (crypto pf) pubDer privDer" and "aes_ok (crypto pf)"
    and "0x8000 \<le> arg_limit pf" and "length (fresh_iv rnd) = 12" and "hex_id keyId"
    and "origin_ok (page_origin pf)" and "response_ok fetched" and "body_text fetched = Inr privPem"
    and "href doc = share_url q" and "share_id doc = keyId" and "sp_crypto spf = crypto pf"
    and "r = foldl (share_step spf) (init_share_page (sp_loc spf) (sp_message spf) attr doc)
       [DecryptClick, KeyReply (Some fetched), Decrypted now]"
  shows "\<not> result_hidden q \<and> card r = Opened \<and> plaintext_out r = received_text note \<and>
     \<not> plaintext_hidden r \<and> hide_timer r = Some (now + auto_hide_seconds attr * 1000) \<and>
     share_status r = setStatus decrypted_message Success"
proof -
  note shown = shown_link [OF assms(1-12)]
  then obtain u e where u: "parse_url (href doc) = Inr u" "parseFragment (url_hash u) = Inr e"
    and dec: "decrypt_fragment (sp_crypto spf) privPem (Some e) = Inr (received_text note)"
    using assms(15,17) by auto
  note ready = init_ready [OF u, of "sp_loc spf" "sp_message spf" attr]
  have ne: "share_id (init_share_page (sp_loc spf) (sp_message spf) attr doc) \<noteq> []"
    using assms(11,16) ready(3) by (auto simp: hex_id_def)
  have eid: "encodeURIComponent (share_id (init_share_page (sp_loc spf) (sp_message spf) attr doc)) = Inr keyId"
    using assms(11,16) ready(3) by (simp add: encodeURIComponent_plain hex_id_alnum)
  from open_run(1) [OF ready(1,2) ne eid assms(13,14,18) dec] shown(1) ready(4) show ?thesis by simp
qed

section \<open>A note through the server\<close>

text \<open>
  The key of a note over the life of its link: created by one request, fetched by another before it expires,
  and gone for any later one, whatever happens to the Redis calls of that one.
\<close>

lemma key_exchanges:
  assumes server: "redis_server R view ok" and "ok s" and time: "time_codec_ok showTime readTime"
    and "60 \<le> n" and "int n \<le> longest_expiry cfg"
    and a1: "a1 = redis_app R showTime readTime cfg templates files su1"
    and "new_keypair su1 = Some (pub, priv)" and "random_bytes su1 = Some bs" and "length bs = 16"
    and "showTime (time_now su1) \<noteq> None" and "Delivered \<in> set (store_attempts su1)"
    and "snd (p_create_limiter a1 (remoteIP (received_request peer1 added1 (create_request n)) (p_trust_xff a1)) s)"
    and created: "serve a1 (received_request peer1 added1 (create_request n)) s = (s1, Some reply1)"
    and "0 \<le> d" and "d < int n * second"
    and a2: "a2 = redis_app R showTime readTime cfg templates files su2"
    and "first_executed (store_attempts su2) = Delivered # rest"
    and "snd (p_fetch_limiter a2 (remoteIP (received_request peer2 added2 (fetch_request (hex_encode bs))) (p_trust_xff a2))
      (r_elapse R d s1))"
    and fetched: "serve a2 (received_request peer2 added2 (fetch_request (hex_encode bs))) (r_elapse R d s1) = (s2, Some reply2)"
    and "0 \<le> d'"
    and a3: "a3 = redis_app R showTime readTime cfg templates files su3"
    and late: "serve a3 (received_request peer3 added3 (fetch_request (hex_encode bs))) (r_elapse R d' s2) = (s3, Some reply3)"
  shows "status (received_reply reply1) = 201" and "status (received_reply reply2) = 200"
    and "body_json (received_reply reply1) = Inr \<lparr>reply_id = hex_encode bs, reply_pub = pub\<rparr>"
    and "body_text (received_reply reply2) = Inr priv" and "status (received_reply reply3) \<in> {404, 429, 500}"
proof -
  have bs: "bs \<noteq> []" using assms(9) by auto
  obtain payload where 1: "status (received_reply reply1) = 201"
    "body_json (received_reply reply1) = Inr \<lparr>reply_id = hex_encode bs, reply_pub = pub\<rparr>" "ok s1"
    "view s1 (hex_encode bs) = Some (payload, Some (int n * second))"
    "decode_record readTime payload = Some \<lparr>PrivPEM = priv, CreatedAt = time_now su1\<rparr>"
    by (rule redis_create [OF assms(1-8,10-12)]) (use created in auto)
  note ok1 = redis_server.elapse_ok [OF server 1(3) assms(14)]
  have view1: "view (r_elapse R d s1) (hex_encode bs) = Some (payload, Some (int n * second - d))"
    using assms(15) by (simp add: redis_server.elapse_view [OF server 1(3) assms(14)] view_elapse_def 1(4))
  have 2: "status (received_reply reply2) = 200 \<and> body_text (received_reply reply2) = Inr priv \<and>
      view s2 (hex_encode bs) = None \<and> ok s2"
    by (rule redis_fetch [OF server ok1 a2 bs, of peer2 added2])
      (use fetched assms(17,18) view1 1(5) in \<open>fastforce\<close>)
  then have ok2: "ok s2" by blast
  note ok3 = redis_server.elapse_ok [OF server ok2 assms(20)]
  have "view (r_elapse R d' s2) (hex_encode bs) = None"
    using 2 by (simp add: redis_server.elapse_view [OF server ok2 assms(20)] view_elapse_def)
  then have "status (received_reply reply3) \<in> {404, 429, 500}"
    using redis_fetch [OF server ok3 a3 bs, of peer3 added3] late by (metis Pair_inject option.inject)
  with 1 2 show "status (received_reply reply1) = 201" and "status (received_reply reply2) = 200"
    and "body_json (received_reply reply1) = Inr \<lparr>reply_id = hex_encode bs, reply_pub = pub\<rparr>"
    and "body_text (received_reply reply2) = Inr priv" and "status (received_reply reply3) \<in> {404, 429, 500}"
    by blast+
qed

end
