(* ===== verification/AppRelated.thy ===== *)
theory AppRelated
  imports System
begin

text \<open>
  One request to two applications with the same settings on two stores of any kind: when the stores' operations
  keep a relation between the stores and give the same results, the replies are the same, and the stores are
  related afterwards. \<open>HttpRuns\<close> uses it for two databases that differ in one key, \<open>Backends\<close> for the two kinds of
  store.
\<close>

section \<open>Handlers\<close>

definition fetches :: "jsstring \<Rightarrow> http_request \<Rightarrow> bool" where
  "fetches k rq \<longleftrightarrow> is_get (rq_method rq) \<and> rq_segments rq = [js ''api'', js ''keys'', k]"

lemma fetch_route: "dynamic_route (rq_method rq) (rq_segments rq) = FetchKeyRoute k \<Longrightarrow> fetches k rq"
  by (cases "rq_segments rq"; cases "tl (rq_segments rq)"; cases "tl (tl (rq_segments rq))")
    (auto simp: dynamic_route_def fetches_def split: if_splits)

text \<open>Two outcomes of a handler with the same writer and related stores.\<close>

definition same_outcome ::
  "('s \<Rightarrow> 't \<Rightarrow> bool) \<Rightarrow> ('s \<times> reply_writer) completion \<Rightarrow> ('t \<times> reply_writer) completion \<Rightarrow> bool"
where
  "same_outcome r c d \<longleftrightarrow>
     (case (c, d) of
        (Returned x, Returned y) \<Rightarrow> r (fst x) (fst y) \<and> snd x = snd y
      | (Panicked x, Panicked y) \<Rightarrow> r (fst x) (fst y) \<and> snd x = snd y
      | _ \<Rightarrow> False)"

lemma same_recovered: "same_outcome r (h rq sw) (g rq sv) \<Longrightarrow> same_outcome r (PanicRecover h rq sw) (PanicRecover g rq sv)"
  by (cases "h rq sw"; cases "g rq sv") (auto simp: same_outcome_def PanicRecover_def split: prod.splits)

lemma same_limited:
  assumes "r (fst (limiter (remoteIP rq trust) s)) (fst (limiter' (remoteIP rq trust) t)) \<and>
      snd (limiter (remoteIP rq trust) s) = snd (limiter' (remoteIP rq trust) t)"
    and "\<And>s t. r s t \<Longrightarrow> r (fst (f rq (s, w))) (fst (g rq (t, w))) \<and> snd (f rq (s, w)) = snd (g rq (t, w))"
  shows "same_outcome r (RateLimit limiter trust (\<lambda>rq sw. Returned (f rq sw)) rq (s, w))
    (RateLimit limiter' trust (\<lambda>rq sw. Returned (g rq sw)) rq (t, w))"
  using assms by (simp add: RateLimit_returned split_beta Let_def same_outcome_def)

text \<open>The times to live that handlers save with.\<close>

definition saved_ttl :: "handler_settings \<Rightarrow> int \<Rightarrow> bool" where
  "saved_ttl h ttl \<longleftrightarrow> positive_duration ttl \<and> (second dvd maxTTL h \<longrightarrow> second dvd ttl)"

lemma request_ttl_saved:
  assumes "settings_ok h" and "request_ttl h seconds = Some ttl"
  shows "saved_ttl h ttl"
  using request_ttl_range [OF assms] assms
  by (auto simp: saved_ttl_def duration_defs positive_duration_def settings_ok_def request_ttl_def split: if_splits)

lemma CreateKey_related:
  assumes "settings_ok h" and "r s t"
    and "\<And>pem ttl. saved_ttl h ttl \<Longrightarrow> r (fst (save pem ttl s)) (fst (save' pem ttl t)) \<and> snd (save pem ttl s) = snd (save' pem ttl t)"
  shows "r (fst (CreateKey h keypair save ending input (s, w))) (fst (CreateKey h keypair save' ending input (t, w))) \<and>
    snd (CreateKey h keypair save ending input (s, w)) = snd (CreateKey h keypair save' ending input (t, w))"
proof (cases "decode_request ending input")
  case (Inr seconds)
  show ?thesis
  proof (cases "request_ttl h seconds")
    case (Some ttl)
    with assms(2,3) request_ttl_saved [OF assms(1) Some] Inr show ?thesis
      by (cases keypair) (auto simp: CreateKey_def split_beta split: option.split)
  qed (simp add: CreateKey_def Inr assms(2))
qed (simp add: CreateKey_def assms(2))

lemma FetchKey_related:
  "r (fst (load k s)) (fst (load' k t)) \<and> snd (load k s) = snd (load' k t) \<Longrightarrow>
   r (fst (FetchKey load k (s, w))) (fst (FetchKey load' k (t, w))) \<and> snd (FetchKey load k (s, w)) = snd (FetchKey load' k (t, w))"
  by (simp add: FetchKey_def split_beta split: sum.split option.split)

section \<open>Applications\<close>

definition same_parts :: "'s app_parts \<Rightarrow> 't app_parts \<Rightarrow> bool" where
  "same_parts a b \<longleftrightarrow> p_auto_hide a = p_auto_hide b \<and> p_max_ttl a = p_max_ttl b \<and> p_trust_xff a = p_trust_xff b \<and>
     p_templates a = p_templates b \<and> p_keypair a = p_keypair b"

lemma serve_related:
  assumes parts: "same_parts a b"
    and create_limiter: "\<And>ip. r (fst (p_create_limiter a ip s)) (fst (p_create_limiter b ip t)) \<and>
      snd (p_create_limiter a ip s) = snd (p_create_limiter b ip t)"
    and fetch_limiter: "\<And>ip. r (fst (p_fetch_limiter a ip s)) (fst (p_fetch_limiter b ip t)) \<and>
      snd (p_fetch_limiter a ip s) = snd (p_fetch_limiter b ip t)"
    and saves: "\<And>pem ttl s t. r s t \<Longrightarrow> rq_segments rq = [js ''api'', js ''keys''] \<Longrightarrow> saved_ttl (app_settings a) ttl \<Longrightarrow>
      r (fst (p_save a pem ttl s)) (fst (p_save b pem ttl t)) \<and> snd (p_save a pem ttl s) = snd (p_save b pem ttl t)"
    and loads: "\<And>j s t. r s t \<Longrightarrow> fetches j rq \<Longrightarrow>
      r (fst (p_load a j s)) (fst (p_load b j t)) \<and> snd (p_load a j s) = snd (p_load b j t)"
    and static_files: "\<And>w. same_outcome r (p_files a rq (s, w)) (p_files b rq (t, w))"
    and related: "r s t"
  shows "r (fst (serve a rq s)) (fst (serve b rq t)) \<and> snd (serve a rq s) = snd (serve b rq t)"
proof -
  have settings: "settings_ok (app_settings a)" "app_settings b = app_settings a"
    using parts unfolding app_settings_def same_parts_def by (auto intro!: setters_ok New_ok)
  have trust: "p_trust_xff b = p_trust_xff a" "p_keypair b = p_keypair a" "p_templates b = p_templates a"
    using parts by (simp_all add: same_parts_def)
  have create: "same_outcome r (create_handler a rq (s, w)) (create_handler b rq (t, w))"
    if "rq_segments rq = [js ''api'', js ''keys'']" for w
    unfolding create_handler_def Chain_def MaxBodySize_def foldr.simps o_def id_def settings(2) trust
    by (rule same_limited [where r = r])
      (rule create_limiter, rule CreateKey_related [where r = r, OF settings(1)], assumption, rule saves [OF _ that], assumption+)
  have fetch: "same_outcome r (fetch_handler a j rq (s, w)) (fetch_handler b j rq (t, w))" if "fetches j rq" for j w
    unfolding fetch_handler_def trust
    by (rule same_limited [where r = r]) (rule fetch_limiter, rule FetchKey_related [where r = r], erule loads [OF _ that])
  have mux: "same_outcome r (dynamicMux a rq (s, w)) (dynamicMux b rq (t, w))" for w
  proof (cases "dynamic_route (rq_method rq) (rq_segments rq)")
    case (FetchKeyRoute j)
    with fetch [OF fetch_route] show ?thesis by (simp add: dynamicMux_def)
  next
    case CreateKeyRoute
    then have "rq_segments rq = [js ''api'', js ''keys'']" by (auto simp: dynamic_route_def split: if_splits)
    with create CreateKeyRoute show ?thesis by (simp add: dynamicMux_def)
  qed (use related in \<open>simp_all add: dynamicMux_def same_outcome_def settings trust\<close>)
  have "same_outcome r (newAppHandler a rq (s, new_writer)) (newAppHandler b rq (t, new_writer))"
    using related static_files mux
    by (auto simp: newAppHandler_def redirect_static_def staticHandler_def dynamicHandler_def Chain_def StaticHeaders_def
        secured_writer(1) staticMux_def Let_def same_outcome_def [of _ "Returned _" "Returned _"] intro!: same_recovered)
  then show ?thesis
    by (cases "newAppHandler a rq (s, new_writer)"; cases "newAppHandler b rq (t, new_writer)")
      (auto simp: same_outcome_def serve_def split: prod.splits option.splits)
qed

end
