(* ===== verification/HttpRuns.thy ===== *)
theory HttpRuns
  imports AppRelated
begin

text \<open>
  Sequences of arbitrary HTTP requests to the application on Redis, each with its own surroundings and with
  time passing before it. What one request can do to one key is a lemma on the whole application (its
  routes, middlewares and handlers); the properties follow for all sequences.
\<close>

section \<open>Requests that concern a key\<close>

text \<open>A request for a new key whose random bytes give this ID.\<close>

definition creates :: "jsstring \<Rightarrow> surroundings \<Rightarrow> http_request \<Rightarrow> bool" where
  "creates k su rq \<longleftrightarrow> rq_method rq = js ''POST'' \<and> rq_segments rq = [js ''api'', js ''keys''] \<and>
     randomID (random_bytes su) = Some k"

lemma post_no_fetch: "rq_method rq = js ''POST'' \<Longrightarrow> \<not> fetches k rq"
  by (simp add: fetches_def is_get_def js_simps)

text \<open>The file server has nothing to do with the store.\<close>

definition outcome_of :: "'a completion \<Rightarrow> 'a" where
  "outcome_of c = (case c of Returned x \<Rightarrow> x | Panicked x \<Rightarrow> x)"

definition leaves_store :: "'s handler \<Rightarrow> bool" where
  "leaves_store files \<longleftrightarrow> (\<forall>rq s t w. files rq (t, w) = map_completion (\<lambda>(_, w'). (t, w')) (files rq (s, w)))"

lemma outcome_simps [simp]: "outcome_of (Returned x) = x" "outcome_of (Panicked x) = x"
  by (simp_all add: outcome_of_def)

lemma leaves_state:
  assumes "leaves_store files"
  shows "fst (outcome_of (files rq (s, w))) = s"
proof -
  have "files rq (s, w) = map_completion (\<lambda>(_, w'). (s, w')) (files rq (s, w))"
    using assms unfolding leaves_store_def by blast
  then show ?thesis by (cases "files rq (s, w)") (auto split: prod.splits)
qed

section \<open>What one request does to the store\<close>

lemma serve_state: "fst (serve a rq s) = fst (outcome_of (newAppHandler a rq (s, new_writer)))"
  by (simp add: serve_def split: completion.split prod.split option.split)

lemma recovered_state: "fst (outcome_of (PanicRecover h rq sw)) = fst (outcome_of (h rq sw))"
  by (cases "h rq sw") (simp_all add: PanicRecover_def split: prod.split)

text \<open>The creating handler saves at most once, with a positive time to live.\<close>

lemma CreateKey_state:
  assumes "settings_ok h"
  shows "fst (CreateKey h keypair save ending input (s, w)) = s \<or>
    (\<exists>priv ttl. positive_duration ttl \<and> fst (CreateKey h keypair save ending input (s, w)) = fst (save priv ttl s))"
proof (cases "decode_request ending input")
  case (Inr seconds)
  show ?thesis
  proof (cases "request_ttl h seconds")
    case (Some ttl)
    then have "positive_duration ttl" using request_ttl_range [OF assms Some] assms
      by (simp add: duration_defs positive_duration_def settings_ok_def)
    moreover have "fst (CreateKey h (Some (pub, priv)) save ending input (s, w)) = fst (save priv ttl s)" for pub priv
      by (simp add: CreateKey_def Inr Some split: prod.split option.split)
    moreover have "fst (CreateKey h None save ending input (s, w)) = s" by (simp add: CreateKey_def Inr Some)
    ultimately show ?thesis by (cases keypair) auto
  qed (simp add: CreateKey_def Inr)
qed (simp add: CreateKey_def)

lemma FetchKey_state: "fst (FetchKey load k (s, w)) = fst (load k s)"
  by (simp add: FetchKey_def split: prod.split sum.split option.split)

text \<open>The state after a request, by its route.\<close>

lemma serve_routes:
  assumes "leaves_store (p_files a)"
  shows "fst (serve a rq s) = s \<or>
    (\<exists>priv ttl s1. rq_method rq = js ''POST'' \<and> rq_segments rq = [js ''api'', js ''keys''] \<and> positive_duration ttl \<and>
       s1 = fst (p_create_limiter a (remoteIP rq (p_trust_xff a)) s) \<and>
       (fst (serve a rq s) = s1 \<or> fst (serve a rq s) = fst (p_save a priv ttl s1))) \<or>
    (\<exists>k s1. fetches k rq \<and> s1 = fst (p_fetch_limiter a (remoteIP rq (p_trust_xff a)) s) \<and>
       (fst (serve a rq s) = s1 \<or> fst (serve a rq s) = fst (p_load a k s1)))"
proof -
  let ?ip = "remoteIP rq (p_trust_xff a)"
  have settings: "settings_ok (app_settings a)" unfolding app_settings_def by (intro setters_ok New_ok)
  have limited: "fst (outcome_of (RateLimit limiter trust (\<lambda>rq sw. Returned (f rq sw)) rq' (s, w))) =
      (if snd (limiter (remoteIP rq' trust) s) then fst (f rq' (fst (limiter (remoteIP rq' trust) s), w))
       else fst (limiter (remoteIP rq' trust) s))" for limiter trust f rq' w
    by (simp add: RateLimit_returned split_beta Let_def)
  have "directIP (rq\<lparr>rq_body := x, rq_ending := CutOff\<rparr>) = directIP rq" for x
    by (simp add: directIP_def split: option.split)
  then have ip: "remoteIP (if b then rq else rq\<lparr>rq_body := x, rq_ending := CutOff\<rparr>) t = remoteIP rq t" for b x t
    by (cases b) (simp_all add: remoteIP_def Let_def split: option.split)
  have static: "fst (outcome_of (staticMux a rq (s, w))) = s" for w
    using leaves_state [OF assms] by (simp add: staticMux_def)
  show ?thesis
  proof (cases "rq_segments rq = [js ''static''] \<or> hd (rq_segments rq) = js ''static''")
    case True
    then have "fst (serve a rq s) = s"
      using static by (auto simp: serve_state newAppHandler_def redirect_static_def staticHandler_def Chain_def
          recovered_state StaticHeaders_def Let_def)
    then show ?thesis by blast
  next
    case False
    then have mux: "fst (serve a rq s) = fst (outcome_of (dynamicMux a rq (s, secured_writer)))"
      by (simp add: serve_state serve_dynamic dynamicHandler_def Chain_def recovered_state secured_writer(1))
    show ?thesis
    proof (cases "dynamic_route (rq_method rq) (rq_segments rq)")
      case CreateKeyRoute
      then have post: "rq_method rq = js ''POST''" "rq_segments rq = [js ''api'', js ''keys'']"
        by (auto simp: dynamic_route_def split: if_splits)
      let ?s1 = "fst (p_create_limiter a ?ip s)"
      have "fst (serve a rq s) = ?s1 \<or> (\<exists>priv ttl. positive_duration ttl \<and> fst (serve a rq s) = fst (p_save a priv ttl ?s1))"
        using CreateKey_state [OF settings, of "p_keypair a" "p_save a" _ _ ?s1 secured_writer]
        by (simp add: mux dynamicMux_def CreateKeyRoute create_handler_def Chain_def MaxBodySize_def limited ip)
      moreover have "\<exists>ttl. positive_duration ttl" by (rule exI [of _ 1]) (simp add: positive_duration_def)
      ultimately show ?thesis using post by blast
    next
      case (FetchKeyRoute k)
      then have "fetches k rq" by (rule fetch_route)
      moreover have "fst (serve a rq s) = (let s1 = fst (p_fetch_limiter a ?ip s)
          in if snd (p_fetch_limiter a ?ip s) then fst (p_load a k s1) else s1)"
        by (simp add: mux dynamicMux_def FetchKeyRoute fetch_handler_def limited FetchKey_state Let_def)
      ultimately show ?thesis by (auto simp: Let_def)
    qed (simp_all add: mux dynamicMux_def)
  qed
qed


section \<open>What one request does to one key\<close>

definition handed :: "jsstring \<Rightarrow> http_request \<Rightarrow> (nat \<times> header_fields \<times> jsstring) option \<Rightarrow> bool" where
  "handed k rq reply \<longleftrightarrow> fetches k rq \<and> (case reply of None \<Rightarrow> False | Some (code, hs, body) \<Rightarrow> code = 200)"

lemma save_keeps_ok:
  assumes "redis_server R view ok" and "ok s" and "positive_duration ttl"
  shows "ok (fst (redis_save R showTime as random rcd ttl s))"
  using redis_server.op_ok [OF assms(1,2), of "Saving as random rcd ttl" showTime] assms(3)
  by (simp add: db_op_step_def)

lemma adapter_states:
  "fst (adapter_save save now pem ttl s) = fst (save \<lparr>PrivPEM = pem, CreatedAt = now\<rparr> ttl s)"
  "fst (adapter_load load k s) = fst (load k s)"
  by (simp_all add: adapter_save_def adapter_load_def split: prod.split sum.split option.split)

text \<open>A request keeps the database in order and touches a key only if it fetches or creates it.\<close>

lemma serve_keeps:
  assumes server: "redis_server R view ok" and ok: "ok s" and files: "leaves_store files"
    and k: "randomID random = Some k" and a: "a = redis_app R showTime readTime cfg templates files su"
  shows "ok (fst (serve a rq s))"
    and "\<not> fetches k rq \<Longrightarrow> \<not> creates k su rq \<Longrightarrow> view (fst (serve a rq s)) k = view s k"
    and "fetches k rq \<Longrightarrow> view (fst (serve a rq s)) k = view s k \<or> view (fst (serve a rq s)) k = None"
proof -
  let ?s' = "fst (serve a rq s)"
  have limited: "ok (fst (allow R as b l ip s))" "view (fst (allow R as b l ip s)) k = view s k" for as b l ip
    using allow_keeps [OF server ok, of as b l ip] k by (cases "allow R as b l ip s"; auto)+
  have "leaves_store (p_files a)" using files a by (simp add: redis_app_def)
  from serve_routes [OF this, of rq s]
  have "ok ?s' \<and> (\<not> fetches k rq \<longrightarrow> \<not> creates k su rq \<longrightarrow> view ?s' k = view s k) \<and>
      (fetches k rq \<longrightarrow> view ?s' k = view s k \<or> view ?s' k = None)"
  proof (elim disjE exE conjE)
    assume "?s' = s"
    with ok show ?thesis by simp
  next
    fix priv ttl s1
    assume post: "rq_method rq = js ''POST''" "rq_segments rq = [js ''api'', js ''keys'']" and ttl: "positive_duration ttl"
      and s1: "s1 = fst (p_create_limiter a (remoteIP rq (p_trust_xff a)) s)"
    have ok1: "ok s1" and view1: "view s1 k = view s k" using limited by (simp_all add: s1 a)
    have no_fetch: "\<not> fetches k rq" by (simp add: fetches_def post)
    {
      assume "?s' = s1"
      with ok1 view1 no_fetch show ?thesis by simp
    next
      assume "?s' = fst (p_save a priv ttl s1)"
      then have saved: "?s' = fst (redis_save R showTime (store_attempts su) (random_bytes su)
          \<lparr>PrivPEM = priv, CreatedAt = time_now su\<rparr> ttl s1)"
        by (simp add: a adapter_states)
      have "ok ?s'" unfolding saved by (rule save_keeps_ok [OF server ok1 ttl])
      moreover have "view ?s' k = view s k" if "\<not> creates k su rq"
        unfolding saved using redis_server.save_other [OF server ok1 ttl] that view1 by (simp add: creates_def post)
      ultimately show ?thesis using no_fetch by blast
    }
  next
    fix k' s1
    assume fetch: "fetches k' rq" and s1: "s1 = fst (p_fetch_limiter a (remoteIP rq (p_trust_xff a)) s)"
    have ok1: "ok s1" and view1: "view s1 k = view s k" using limited by (simp_all add: s1 a)
    have other: "fetches k rq \<longleftrightarrow> k' = k" using fetch by (auto simp: fetches_def)
    {
      assume "?s' = s1"
      with ok1 view1 show ?thesis by simp
    next
      assume "?s' = fst (p_load a k' s1)"
      then have loaded: "?s' = fst (redis_load R readTime (store_attempts su) k' s1)" by (simp add: a adapter_states)
      have "ok ?s'" unfolding loaded by (rule redis_server.load_faults(3) [OF server ok1])
      moreover have "view ?s' k = (if first_executed (store_attempts su) = [] \<or> k' \<noteq> k then view s k else None)"
        unfolding loaded
        using redis_server.load_faults(1) [OF server ok1, of readTime "store_attempts su" k'] view1 by simp
      ultimately show ?thesis using other by auto
    }
  qed
  then show "ok ?s'" and "\<not> fetches k rq \<Longrightarrow> \<not> creates k su rq \<Longrightarrow> view ?s' k = view s k"
    and "fetches k rq \<Longrightarrow> view ?s' k = view s k \<or> view ?s' k = None" by (blast, blast, simp)
qed

text \<open>A key is handed out only if it is there, and is gone then.\<close>

lemma serve_handed:
  assumes server: "redis_server R view ok" and ok: "ok s" and k: "randomID random = Some k" and ne: "k \<noteq> []"
    and a: "a = redis_app R showTime readTime cfg templates files su" and handed: "handed k rq (snd (serve a rq s))"
  shows "view s k \<noteq> None \<and> view (fst (serve a rq s)) k = None"
proof -
  have fetch: "is_get (rq_method rq)" "rq_segments rq = [js ''api'', js ''keys'', k]"
    using handed by (auto simp: handed_def fetches_def)
  obtain s1 allowed where limiter: "p_fetch_limiter a (remoteIP rq (p_trust_xff a)) s = (s1, allowed)" by fastforce
  note kept = allow_keeps [OF server ok limiter [unfolded a redis_app_simps]]
  obtain s2 r where load: "redis_load R readTime (store_attempts su) k s1 = (s2, r)" by fastforce
  have adapter: "p_load a k s1 = (s2, map_sum id (map_option PrivPEM) r)"
    by (simp add: a adapter_load_def load split: sum.split option.split)
  obtain rcd where found: "allowed" "r = Inr (Some rcd)"
    using serve_fetch [OF fetch ne limiter adapter] handed
    by (cases r) (auto simp: handed_def split: if_splits option.splits)
  then have "fst (serve a rq s) = s2"
    using serve_fetch [OF fetch ne limiter adapter] by auto
  moreover note redis_server.load_faults(1,2) [OF server kept(1), of readTime "store_attempts su" k]
  ultimately show ?thesis
    using found load kept(2) [OF k]
    by (auto simp: getdel_reply_def load_result_def split: list.splits option.splits if_splits)
qed

section \<open>Sequences of requests\<close>

record exchange =
  x_wait :: int
  x_surroundings :: surroundings
  x_request :: http_request

fun http_run ::
  "'s redis_ops \<Rightarrow> (surroundings \<Rightarrow> 's app_parts) \<Rightarrow> exchange list \<Rightarrow> 's \<Rightarrow>
   's \<times> (nat \<times> header_fields \<times> jsstring) option list"
where
  "http_run R app [] s = (s, [])"
| "http_run R app (x # xs) s =
     (let (s1, reply) = serve (app (x_surroundings x)) (x_request x) (r_elapse R (x_wait x) s);
          (s2, replies) = http_run R app xs s1
      in (s2, reply # replies))"

definition handed_count :: "jsstring \<Rightarrow> exchange list \<Rightarrow> (nat \<times> header_fields \<times> jsstring) option list \<Rightarrow> nat" where
  "handed_count k xs replies = length (filter (\<lambda>(x, reply). handed k (x_request x) reply) (zip xs replies))"

definition create_count :: "jsstring \<Rightarrow> exchange list \<Rightarrow> nat" where
  "create_count k xs = length (filter (\<lambda>x. creates k (x_surroundings x) (x_request x)) xs)"

text \<open>One step of the count, as a fact on the conditions.\<close>

lemma count_step:
  "\<lbrakk>h \<longrightarrow> f \<and> \<not> p0 \<and> p1; \<not> f \<and> \<not> c \<longrightarrow> p1 = p0; f \<longrightarrow> p1 = p0 \<or> p1; f \<longrightarrow> \<not> c; p \<longrightarrow> p0\<rbrakk> \<Longrightarrow>
   (if h then 1 else 0) + (if p1 then 0 else 1) \<le> (if c then 1 else 0) + (if p then 0 else (1 :: nat))"
  by auto

text \<open>One request: handing the key out takes it from the database, and only its creation puts it there.\<close>

lemma serve_count:
  assumes server: "redis_server R view ok" and ok: "ok s" and files: "leaves_store files" and k: "randomID random = Some k"
    and ne: "k \<noteq> []" and a: "a = redis_app R showTime readTime cfg templates files su"
  shows "(if handed k rq (snd (serve a rq s)) then 1 else 0) + (if view (fst (serve a rq s)) k = None then 0 else 1)
      \<le> (if creates k su rq then 1 else 0) + (if view s k = None then 0 else (1 :: nat))"
proof (rule count_step [where f = "fetches k rq" and ?p0.0 = "view s k = None"])
  let ?s1 = "fst (serve a rq s)"
  note keeps = serve_keeps [OF server ok files k a, where rq = rq]
  show "handed k rq (snd (serve a rq s)) \<longrightarrow> fetches k rq \<and> view s k \<noteq> None \<and> view ?s1 k = None"
    using serve_handed [OF server ok k ne a] unfolding handed_def by blast
  show "\<not> fetches k rq \<and> \<not> creates k su rq \<longrightarrow> (view ?s1 k = None) = (view s k = None)"
    using keeps(2) by simp
  show "fetches k rq \<longrightarrow> (view ?s1 k = None) = (view s k = None) \<or> view ?s1 k = None"
    using keeps(3) by metis
  show "fetches k rq \<longrightarrow> \<not> creates k su rq" by (auto simp: fetches_def creates_def)
qed blast

lemma run_handed:
  assumes server: "redis_server R view ok" and files: "leaves_store files" and k: "randomID random = Some k" and ne: "k \<noteq> []"
  shows "ok s \<Longrightarrow> list_all (\<lambda>x. 0 \<le> x_wait x) xs \<Longrightarrow>
    handed_count k xs (snd (http_run R (redis_app R showTime readTime cfg templates files) xs s))
      \<le> create_count k xs + (if view s k = None then 0 else 1)"
proof (induction xs arbitrary: s)
  case Nil
  then show ?case by (simp add: handed_count_def)
next
  case (Cons x xs)
  let ?a = "redis_app R showTime readTime cfg templates files (x_surroundings x)" and ?rq = "x_request x"
  let ?s0 = "r_elapse R (x_wait x) s"
  let ?s1 = "fst (serve ?a ?rq ?s0)" and ?reply = "snd (serve ?a ?rq ?s0)"
  have ok0: "ok ?s0" and gone: "view s k = None \<longrightarrow> view ?s0 k = None"
    using Cons.prems by (simp_all add: redis_server.elapse_ok [OF server] redis_server.elapse_view [OF server] view_elapse_def)
  have rest: "handed_count k xs (snd (http_run R (redis_app R showTime readTime cfg templates files) xs ?s1))
      \<le> create_count k xs + (if view ?s1 k = None then 0 else 1)"
    using Cons.IH [OF serve_keeps(1) [OF server ok0 files k refl]] Cons.prems(2) by simp
  have "(if handed k ?rq ?reply then 1 else 0) + (if view ?s1 k = None then 0 else 1)
      \<le> (if creates k (x_surroundings x) ?rq then 1 else 0) + (if view s k = None then 0 else (1 :: nat))"
    by (rule order_trans [OF serve_count [OF server ok0 files k ne refl]]) (use gone in auto)
  moreover have "create_count k (x # xs) = (if creates k (x_surroundings x) ?rq then 1 else 0) + create_count k xs"
    by (simp add: create_count_def)
  moreover have "handed_count k (x # xs) (snd (http_run R (redis_app R showTime readTime cfg templates files) (x # xs) s)) =
      (if handed k ?rq ?reply then 1 else 0) +
      handed_count k xs (snd (http_run R (redis_app R showTime readTime cfg templates files) xs ?s1))"
    by (simp add: handed_count_def split_beta Let_def)
  ultimately show ?case using rest by linarith
qed


section \<open>What other requests learn of a key\<close>

text \<open>Two databases that differ at most in what they hold for one key.\<close>

definition alike :: "('s \<Rightarrow> redis_view) \<Rightarrow> ('s \<Rightarrow> bool) \<Rightarrow> jsstring \<Rightarrow> 's \<Rightarrow> 's \<Rightarrow> bool" where
  "alike view ok k s t \<longleftrightarrow> ok s \<and> ok t \<and> (\<forall>i. i \<noteq> k \<longrightarrow> view s i = view t i)"

lemma view_count_local:
  "V k = W k \<Longrightarrow> fst (view_count k V) k = fst (view_count k W) k \<and> snd (view_count k V) = snd (view_count k W)"
  by (auto simp: view_count_def split: option.split prod.split)

context redis_server
begin

lemma count_alike:
  "alike view ok k s t \<Longrightarrow> j \<noteq> k \<Longrightarrow>
   alike view ok k (fst (redis_call (r_count R j) as s)) (fst (redis_call (r_count R j) as t)) \<and>
   snd (redis_call (r_count R j) as s) = snd (redis_call (r_count R j) as t)"
proof (induction as arbitrary: s t)
  case (Cons a as)
  have ok: "ok s" "ok t" and same: "view s j = view t j" "\<And>i. i \<noteq> k \<Longrightarrow> view s i = view t i"
    using Cons.prems by (auto simp: alike_def)
  have "view (fst (r_count R j s)) i = view (fst (r_count R j t)) i" if "i \<noteq> k" for i
    using view_count_local [of "view s" j "view t"] same(1) same(2) [OF that] count_other [of i j]
    by (cases "i = j") (simp_all add: count_simps ok)
  then have step: "alike view ok k (fst (r_count R j s)) (fst (r_count R j t))"
    using ok by (simp add: alike_def count_ok)
  have reply: "snd (r_count R j s) = snd (r_count R j t)"
    using view_count_local [of "view s" j "view t"] same(1) by (simp add: count_simps ok)
  show ?case
    using Cons.IH [OF step Cons.prems(2)] Cons.IH [OF Cons.prems] step reply by (cases a) simp_all
qed simp

lemma getdel_alike:
  assumes "alike view ok k s t" and "j \<noteq> k"
  shows "alike view ok k (fst (redis_call (r_getdel R j) as s)) (fst (redis_call (r_getdel R j) as t)) \<and>
    snd (redis_call (r_getdel R j) as s) = snd (redis_call (r_getdel R j) as t)"
  using getdel_call [of s j as] getdel_call [of t j as] assms by (auto simp: alike_def)

lemma set_alike:
  assumes "alike view ok k s t" and "positive_duration ttl"
  shows "alike view ok k (fst (redis_call (\<lambda>s. (r_set R j v ttl s, ())) as s)) (fst (redis_call (\<lambda>s. (r_set R j v ttl s, ())) as t)) \<and>
    snd (redis_call (\<lambda>s. (r_set R j v ttl s, ())) as s) = snd (redis_call (\<lambda>s. (r_set R j v ttl s, ())) as t)"
  using set_call [OF assms(2), of s j v as] set_call [OF assms(2), of t j v as] assms(1)
  by (auto simp: alike_def view_set_def intro: option.expand)

lemma allow_alike:
  assumes "alike view ok k s t" and "randomID random = Some k"
  shows "alike view ok k (fst (allow R as bucket limit ip s)) (fst (allow R as bucket limit ip t)) \<and>
    snd (allow R as bucket limit ip s) = snd (allow R as bucket limit ip t)"
  using count_alike [OF assms(1) id_no_counter [OF assms(2), symmetric]] by (simp add: allow_call)

lemma save_alike:
  assumes "alike view ok k s t" and "positive_duration ttl"
  shows "alike view ok k (fst (redis_save R showTime as random rcd ttl s)) (fst (redis_save R showTime as random rcd ttl t)) \<and>
    snd (redis_save R showTime as random rcd ttl s) = snd (redis_save R showTime as random rcd ttl t)"
proof (cases "\<exists>j payload. randomID random = Some j \<and> encode_record showTime rcd = Some payload")
  case True
  then obtain j payload where "randomID random = Some j" "encode_record showTime rcd = Some payload" by blast
  then show ?thesis
    using set_alike [OF assms, of j payload as] by (simp add: redis_save_def split_beta split: option.split)
next
  case False
  with assms(1) show ?thesis by (auto simp: redis_save_def split: option.split)
qed

lemma load_alike:
  assumes "alike view ok k s t" and "j \<noteq> k"
  shows "alike view ok k (fst (redis_load R readTime as j s)) (fst (redis_load R readTime as j t)) \<and>
    snd (redis_load R readTime as j s) = snd (redis_load R readTime as j t)"
  using getdel_alike [OF assms, of as] by (simp add: redis_load_result)

end

text \<open>A whole request that does not fetch the key.\<close>

lemma serve_alike:
  assumes server: "redis_server R view ok" and files: "leaves_store files" and k: "randomID random = Some k"
    and a: "a = redis_app R showTime readTime cfg templates files su" and like: "alike view ok k s t"
    and other: "\<not> fetches k rq"
  shows "alike view ok k (fst (serve a rq s)) (fst (serve a rq t)) \<and> snd (serve a rq s) = snd (serve a rq t)"
proof (rule serve_related [where r = "alike view ok k"])
  show "same_parts a a" by (simp add: same_parts_def)
  show "alike view ok k (fst (p_create_limiter a ip s)) (fst (p_create_limiter a ip t)) \<and>
      snd (p_create_limiter a ip s) = snd (p_create_limiter a ip t)"
    and "alike view ok k (fst (p_fetch_limiter a ip s)) (fst (p_fetch_limiter a ip t)) \<and>
      snd (p_fetch_limiter a ip s) = snd (p_fetch_limiter a ip t)" for ip
    using redis_server.allow_alike [OF server like k] by (simp_all add: a)
  show "alike view ok k (fst (p_save a pem ttl s)) (fst (p_save a pem ttl t)) \<and> snd (p_save a pem ttl s) = snd (p_save a pem ttl t)"
    if "alike view ok k s t" "rq_segments rq = [js ''api'', js ''keys'']" "saved_ttl (app_settings a) ttl" for pem ttl s t
    using redis_server.save_alike [OF server that(1)] that(3) by (simp add: a adapter_save_def saved_ttl_def)
  show "alike view ok k (fst (p_load a j s)) (fst (p_load a j t)) \<and> snd (p_load a j s) = snd (p_load a j t)"
    if "alike view ok k s t" "fetches j rq" for j s t
  proof -
    have "j \<noteq> k" using that(2) other by auto
    from redis_server.load_alike [OF server that(1) this, of readTime "store_attempts su"]
    show ?thesis by (simp add: a adapter_load_def split_beta split: sum.split option.split)
  qed
  show "same_outcome (alike view ok k) (p_files a rq (s, w)) (p_files a rq (t, w))" for w
  proof -
    have "p_files a = files" by (simp add: a redis_app_def)
    with files have "p_files a rq (t, w) = map_completion (\<lambda>(_, w'). (t, w')) (p_files a rq (s, w))"
      "fst (outcome_of (p_files a rq (s, w))) = s"
      using leaves_state [OF files] unfolding leaves_store_def by blast+
    with like show ?thesis by (cases "p_files a rq (s, w)") (auto simp: same_outcome_def split: prod.splits)
  qed
qed (rule like)

lemma run_alike:
  assumes server: "redis_server R view ok" and files: "leaves_store files" and k: "randomID random = Some k"
  shows "alike view ok k s t \<Longrightarrow> list_all (\<lambda>x. 0 \<le> x_wait x \<and> \<not> fetches k (x_request x)) xs \<Longrightarrow>
    snd (http_run R (redis_app R showTime readTime cfg templates files) xs s) =
    snd (http_run R (redis_app R showTime readTime cfg templates files) xs t)"
proof (induction xs arbitrary: s t)
  case (Cons x xs)
  let ?a = "redis_app R showTime readTime cfg templates files (x_surroundings x)"
  have "alike view ok k (r_elapse R (x_wait x) s) (r_elapse R (x_wait x) t)"
    using Cons.prems
    by (simp add: alike_def redis_server.elapse_ok [OF server] redis_server.elapse_view [OF server] view_elapse_def)
  from serve_alike [OF server files k refl this] Cons.prems(2)
  have "alike view ok k (fst (serve ?a (x_request x) (r_elapse R (x_wait x) s))) (fst (serve ?a (x_request x) (r_elapse R (x_wait x) t)))"
    "snd (serve ?a (x_request x) (r_elapse R (x_wait x) s)) = snd (serve ?a (x_request x) (r_elapse R (x_wait x) t))"
    by simp_all
  with Cons.IH [OF this(1)] Cons.prems(2) show ?case by (simp add: split_beta Let_def)
qed simp

section \<open>Properties\<close>

text \<open>One delivery per creation. From a database without the key, over every sequence of HTTP requests of any
  kind, with any time in between, any peers and header fields, any configuration, and any faults of the
  Redis calls: the key is handed out, in a reply with status 200 to a fetch of its ID, at most as often as a
  request created a key under that ID.\<close>
theorem one_delivery_per_creation:
  assumes "redis_server R view ok" and "leaves_store files" and "length bs = 16" and "ok s"
    and "view s (hex_encode bs) = None" and "list_all (\<lambda>x. 0 \<le> x_wait x) xs"
  shows "handed_count (hex_encode bs) xs (snd (http_run R (redis_app R showTime readTime cfg templates files) xs s))
    \<le> create_count (hex_encode bs) xs"
proof -
  have "randomID (Some bs) = Some (hex_encode bs)" by (simp add: randomID_def)
  moreover have "hex_encode bs \<noteq> []" using assms(3) length_hex_encode [of bs] by auto
  ultimately show ?thesis using run_handed [OF assms(1,2) _ _ assms(4,6)] assms(5) by fastforce
qed

text \<open>C4: Nobody learns of a key without asking for it. Take two databases in order that hold the same for every
  name but one key's ID, where they may hold different private keys or none. Over every sequence of HTTP
  requests none of which is a fetch of that ID, all replies are the same on both: status, header fields and
  body.\<close>
theorem other_requests_blind:
  assumes "redis_server R view ok" and "leaves_store files" and "randomID random = Some k" and "ok s" and "ok t"
    and "\<And>i. i \<noteq> k \<Longrightarrow> view s i = view t i"
    and "list_all (\<lambda>x. 0 \<le> x_wait x \<and> \<not> fetches k (x_request x)) xs"
  shows "snd (http_run R (redis_app R showTime readTime cfg templates files) xs s) =
    snd (http_run R (redis_app R showTime readTime cfg templates files) xs t)"
  by (rule run_alike [OF assms(1-3) _ assms(7)]) (simp add: alike_def assms(4-6))

text \<open>An example: a key is created and fetched twice.\<close>

definition calm :: surroundings where
  "calm = \<lparr>limiter_attempts = [Delivered], store_attempts = [Delivered], random_bytes = Some (replicate 16 0),
     time_now = 0, new_keypair = Some (js ''pub'', js ''priv'')\<rparr>"

definition creation :: exchange where
  "creation = \<lparr>x_wait = 0, x_surroundings = calm, x_request = received_request [] Map.empty (create_request 3600)\<rparr>"

definition two_readers :: "exchange list" where
  "two_readers =
     [creation,
      \<lparr>x_wait = 9, x_surroundings = calm, x_request = received_request [] Map.empty (fetch_request (hex_encode (replicate 16 0)))\<rparr>,
      \<lparr>x_wait = 9, x_surroundings = calm, x_request = received_request [] Map.empty (fetch_request (hex_encode (replicate 16 0)))\<rparr>]"

definition default_app :: "surroundings \<Rightarrow> redis_db app_parts" where
  "default_app = redis_app miniredis (show_time (\<lambda>_. 0)) (read_time (\<lambda>_. None)) (loadConfig (\<lambda>_. [])) None (\<lambda>rq sw. Returned sw)"

lemma no_files: "leaves_store (\<lambda>rq sw. Returned sw)"
  by (simp add: leaves_store_def)

theorem one_delivery_per_creation_witness:
  "handed_count (hex_encode (replicate 16 0)) two_readers (snd (http_run miniredis default_app two_readers empty_redis))
    \<le> create_count (hex_encode (replicate 16 0)) two_readers"
proof -
  have "list_all (\<lambda>x. 0 \<le> x_wait x) two_readers" by (simp add: two_readers_def creation_def)
  note bound = one_delivery_per_creation [OF mini.redis_server_axioms no_files _ empty_redis_ok _ this]
  show ?thesis unfolding default_app_def by (rule bound) (simp_all add: empty_redis_view)
qed

theorem other_requests_blind_witness:
  "snd (http_run miniredis default_app [creation] empty_redis) =
     snd (http_run miniredis default_app [creation]
       (r_set miniredis (hex_encode [1]) (js ''secret'') (60 * second) empty_redis))"
proof -
  obtain t where stored: "r_set miniredis (hex_encode [1]) (js ''secret'') (60 * second) empty_redis = t" by blast
  have ok: "db_ok t" using mini.set_ok [OF empty_redis_ok, OF minute_durations(1)] stored by auto
  have views: "db_view empty_redis i = db_view t i" if "i \<noteq> hex_encode [1]" for i
    using mini.set_view [OF empty_redis_ok, OF minute_durations(1)] that unfolding stored [symmetric] by (simp add: view_set_def)
  have "\<not> fetches (hex_encode [1]) (received_request [] Map.empty (create_request 3600))"
    by (rule post_no_fetch) (simp add: received_request_def create_request_def)
  then have xs: "list_all (\<lambda>x. 0 \<le> x_wait x \<and> \<not> fetches (hex_encode [1]) (x_request x)) [creation]"
    by (simp add: creation_def)
  have id: "randomID (Some [1]) = Some (hex_encode [1])" by (simp add: randomID_def)
  show ?thesis
    unfolding default_app_def stored
    by (rule other_requests_blind [where view = db_view and ok = db_ok and k = "hex_encode [1]" and random = "Some [1]"])
      (rule mini.redis_server_axioms no_files id empty_redis_ok ok views xs, assumption?)+
qed

end
