(* ===== verification/Network.thy ===== *)
theory Network
  imports HttpRuns
begin

text \<open>
  The running system: any number of create pages and share pages in their users' browsers, strangers who send
  requests of their own, and the application on Redis. Each step is one event in one page, one request served
  with its reply, a request or a reply that is lost, a page opened, or time passing; a label holds the
  request that reached the application and its reply. Calls of a page go out as the page sent them last, so
  the pages' models and the server's meet in the request on the wire and in the reply. Loading a page is a
  request like a stranger's.
\<close>

section \<open>Steps\<close>

record 's network =
  n_db :: 's
  n_writers :: "create_page list"
  n_readers :: "share_page list"

type_synonym server_reply = "(nat \<times> header_fields \<times> jsstring) option"

datatype net_label =
    Unseen
  | ForPage surroundings http_request server_reply
  | ForStranger surroundings http_request server_reply

definition of_network :: "'aes create_event \<Rightarrow> bool" where
  "of_network e \<longleftrightarrow> (case e of Reply _ _ \<Rightarrow> True | _ \<Rightarrow> False)"

definition reply_of_network :: "share_event \<Rightarrow> bool" where
  "reply_of_network e \<longleftrightarrow> (case e of KeyReply _ \<Rightarrow> True | _ \<Rightarrow> False)"

text \<open>
  The reply that reaches a page: the one that was sent, none, or one whose body breaks off, so that reading it
  gives an error.
\<close>

definition broken_off :: "js_error \<Rightarrow> response \<Rightarrow> response" where
  "broken_off e resp = resp\<lparr>body_text := Inl e, body_json := Inl e\<rparr>"

definition arrives :: "server_reply \<Rightarrow> fetch_outcome \<Rightarrow> bool" where
  "arrives reply outcome \<longleftrightarrow> outcome = None \<or> outcome = map_option received_reply reply \<or>
     (\<exists>e. outcome = map_option (broken_off e \<circ> received_reply) reply)"

text \<open>Page \<open>i\<close> runs in a browser of its own, \<open>pf i\<close> for a create page and \<open>spf i\<close> for a share page.\<close>

inductive net_step ::
  "'s redis_ops \<Rightarrow> (surroundings \<Rightarrow> 's app_parts) \<Rightarrow> (nat \<Rightarrow> ('pub, 'priv, 'aes) platform) \<Rightarrow>
   (nat \<Rightarrow> ('pub, 'priv, 'aes) share_platform) \<Rightarrow> 's network \<Rightarrow> net_label \<Rightarrow> 's network \<Rightarrow> bool"
  for R app pf spf
where
  elapse: "0 \<le> d \<Longrightarrow> net_step R app pf spf w Unseen (w\<lparr>n_db := r_elapse R d (n_db w)\<rparr>)"
| open_writer: "create_init ws p \<Longrightarrow> net_step R app pf spf w Unseen (w\<lparr>n_writers := n_writers w @ [p]\<rparr>)"
| open_reader: "share_init (spf (length (n_readers w))) k ws p \<Longrightarrow> hex_id k \<Longrightarrow>
    net_step R app pf spf w Unseen (w\<lparr>n_readers := n_readers w @ [p]\<rparr>)"
| writer_acts: "i < length (n_writers w) \<Longrightarrow> \<not> of_network e \<Longrightarrow>
    net_step R app pf spf w Unseen (w\<lparr>n_writers := (n_writers w)[i := create_step (pf i) (n_writers w ! i) e]\<rparr>)"
| reader_acts: "i < length (n_readers w) \<Longrightarrow> \<not> reply_of_network e \<Longrightarrow>
    net_step R app pf spf w Unseen (w\<lparr>n_readers := (n_readers w)[i := share_step (spf i) (n_readers w ! i) e]\<rparr>)"
| writer_lost: "i < length (n_writers w) \<Longrightarrow>
    net_step R app pf spf w Unseen
      (w\<lparr>n_writers := (n_writers w)[i := create_step (pf i) (n_writers w ! i) (Reply None rnd)]\<rparr>)"
| reader_lost: "i < length (n_readers w) \<Longrightarrow>
    net_step R app pf spf w Unseen
      (w\<lparr>n_readers := (n_readers w)[i := share_step (spf i) (n_readers w ! i) (KeyReply None)]\<rparr>)"
| writer_served: "i < length (n_writers w) \<Longrightarrow> p = n_writers w ! i \<Longrightarrow> in_flight p \<noteq> None \<Longrightarrow>
    rq = received_request peer added (last (wire (net p))) \<Longrightarrow> serve (app su) rq (n_db w) = (s, reply) \<Longrightarrow>
    arrives reply outcome \<Longrightarrow>
    net_step R app pf spf w (ForPage su rq reply)
      (w\<lparr>n_db := s, n_writers := (n_writers w)[i := create_step (pf i) p (Reply outcome rnd)]\<rparr>)"
| reader_served: "i < length (n_readers w) \<Longrightarrow> p = n_readers w ! i \<Longrightarrow> suspended p = AwaitKey entry \<Longrightarrow>
    rq = received_request peer added (last (wire (share_net p))) \<Longrightarrow> serve (app su) rq (n_db w) = (s, reply) \<Longrightarrow>
    arrives reply outcome \<Longrightarrow>
    net_step R app pf spf w (ForPage su rq reply)
      (w\<lparr>n_db := s, n_readers := (n_readers w)[i := share_step (spf i) p (KeyReply outcome)]\<rparr>)"
| stranger: "serve (app su) rq (n_db w) = (s, reply) \<Longrightarrow>
    net_step R app pf spf w (ForStranger su rq reply) (w\<lparr>n_db := s\<rparr>)"

inductive net_run ::
  "'s redis_ops \<Rightarrow> (surroundings \<Rightarrow> 's app_parts) \<Rightarrow> (nat \<Rightarrow> ('pub, 'priv, 'aes) platform) \<Rightarrow>
   (nat \<Rightarrow> ('pub, 'priv, 'aes) share_platform) \<Rightarrow> 's network \<Rightarrow> net_label list \<Rightarrow> 's network \<Rightarrow> bool"
  for R app pf spf
where
  net_start: "net_run R app pf spf w [] w"
| net_more: "net_run R app pf spf w ls w' \<Longrightarrow> net_step R app pf spf w' l w'' \<Longrightarrow> net_run R app pf spf w (ls @ [l]) w''"

text \<open>How often a key was created under an ID, how often a stranger got it, and on how many share pages of the ID
  its note is shown.\<close>

definition makes :: "jsstring \<Rightarrow> net_label \<Rightarrow> bool" where
  "makes k l \<longleftrightarrow> (case l of Unseen \<Rightarrow> False | ForPage su rq _ \<Rightarrow> creates k su rq | ForStranger su rq _ \<Rightarrow> creates k su rq)"

definition takes :: "jsstring \<Rightarrow> net_label \<Rightarrow> bool" where
  "takes k l \<longleftrightarrow> (case l of ForStranger _ rq reply \<Rightarrow> handed k rq reply | _ \<Rightarrow> False)"

definition made_count :: "jsstring \<Rightarrow> net_label list \<Rightarrow> nat" where
  "made_count k ls = length (filter (makes k) ls)"

definition taken_count :: "jsstring \<Rightarrow> net_label list \<Rightarrow> nat" where
  "taken_count k ls = length (filter (takes k) ls)"

definition opened_count :: "jsstring \<Rightarrow> 's network \<Rightarrow> nat" where
  "opened_count k w = length (filter (\<lambda>p. share_id p = k \<and> card p = Opened) (n_readers w))"

text \<open>A page that has the key of its note, whose plaintext is shown or on its way.\<close>

definition has_key :: "jsstring \<Rightarrow> share_page \<Rightarrow> bool" where
  "has_key k p \<longleftrightarrow> share_id p = k \<and>
     (card p = Opened \<or> (case suspended p of AwaitPlaintext _ \<Rightarrow> True | _ \<Rightarrow> False))"

section \<open>One share page\<close>

text \<open>A page that waits for its key has sent the request for it last.\<close>

definition asked :: "share_page \<Rightarrow> bool" where
  "asked p \<longleftrightarrow> hex_id (share_id p) \<and>
     ((\<exists>entry. suspended p = AwaitKey entry) \<longrightarrow> wire (share_net p) \<noteq> [] \<and> last (wire (share_net p)) = fetch_request (share_id p))"

lemma asked_id: "asked p \<Longrightarrow> encodeURIComponent (share_id p) = Inr (share_id p)"
  by (simp add: asked_def encodeURIComponent_plain hex_id_alnum)

lemma inspect_waits [simp]: "asked (inspectLink loc platform p) = asked p"
  by (simp add: asked_def)

lemma inspect_card: "card (inspectLink loc platform p) = Opened \<Longrightarrow> card p = Opened"
  by (auto simp: inspectLink_def Let_def split: sum.splits)

lemma same_link_asked: "same_link p q \<Longrightarrow> asked q = asked p \<and> has_key k q = has_key k p"
  by (simp add: same_link_def asked_def has_key_def)

text \<open>What happens on a page without the network brings no key to it.\<close>

lemma quiet_step:
  assumes "asked p" and "\<not> reply_of_network e"
  shows "asked (share_step pf p e) \<and> (has_key k (share_step pf p e) \<longrightarrow> has_key k p)"
proof (cases e)
  case (HashChange h)
  then show ?thesis using assms(1)
    by (auto simp: share_step_def hash_change_def Let_def has_key_def dest!: inspect_card)
      (auto simp: asked_def)
next
  case DecryptClick
  show ?thesis
  proof (cases "decrypt_disabled p \<or> fragment p = None \<or> share_id p = []")
    case True
    with assms DecryptClick show ?thesis by (simp add: share_step_def decrypt_click_idle)
  next
    case False
    from decrypt_click_sent [OF this asked_id [OF assms(1)]] assms(1) DecryptClick show ?thesis
      by (simp add: share_step_def asked_def has_key_def fetch_call.start_wire)
  qed
next
  case (Decrypted now)
  then show ?thesis using assms(1)
    by (auto simp: share_step_def decrypted_step_def asked_def has_key_def Let_def split: pending.splits sum.splits)
qed (use assms in \<open>simp_all add: share_step_def reply_of_network_def same_link_handlers [THEN same_link_asked]\<close>)

text \<open>A reply does, when it is a success; everything else leaves the page without one.\<close>

lemma reply_step:
  assumes "asked p"
  shows "asked (share_step pf p (KeyReply outcome)) \<and>
    (has_key k (share_step pf p (KeyReply outcome)) \<longrightarrow> has_key k p \<or>
       (share_id p = k \<and> (\<exists>resp. outcome = Some resp \<and> response_ok resp)))"
  using assms
  by (auto simp: share_step_def key_reply_step_def asked_def has_key_def fetchKey_finish_def send_finish_def Let_def
      split: pending.splits option.splits sum.splits if_splits)

lemma opened_page:
  assumes "share_init pf k ws p" and "hex_id k"
  shows "asked p \<and> \<not> has_key j p"
proof -
  have "share_inv k ws p" by (rule share_init_inv [OF assms(1)])
  moreover obtain attr doc u where doc: "p = init_share_page (sp_loc pf) (sp_message pf) attr doc" "parse_url (href doc) = Inr u"
    using assms(1) unfolding share_init_def by blast
  moreover obtain a where "renderAnatomy (sp_loc pf) (href doc) = Inr a" using renderAnatomy_Inr [OF doc(2)] by blast
  then have "suspended p = Resting" "card p \<noteq> Opened"
    using inspectLink_card [of "sp_loc pf" "doc\<lparr>auto_hide := auto_hide_seconds attr,
        ready_message := status_text (share_status doc), fragment := None, suspended := Resting, hide_timer := None\<rparr>" a "sp_message pf"]
    by (auto simp: doc(1) init_share_page_def)
  ultimately show ?thesis using assms(2) by (auto simp: asked_def has_key_def share_inv_def)
qed

section \<open>A page and its request\<close>

lemma fetch_received:
  assumes "hex_id k"
  shows "is_get (rq_method (received_request peer added (fetch_request k)))"
    and "rq_segments (received_request peer added (fetch_request k)) = [js ''api'', js ''keys'', k]"
proof -
  have "47 \<notin> set k" using assms by (auto simp: hex_id_def list_all_iff)
  then show "is_get (rq_method (received_request peer added (fetch_request k)))"
    and "rq_segments (received_request peer added (fetch_request k)) = [js ''api'', js ''keys'', k]"
    by (simp_all add: received_request_def fetch_request_def key_path_segments is_get_def)
qed

text \<open>A reply the page takes for a success has handed the key out.\<close>

lemma success_handed:
  assumes k: "hex_id k" and rq: "rq = received_request peer added (fetch_request k)"
    and served: "serve (redis_app R showTime readTime cfg templates files su) rq s = (s', reply)"
    and reply: "arrives reply (Some resp)" and success: "response_ok resp"
  shows "handed k rq reply"
proof -
  let ?a = "redis_app R showTime readTime cfg templates files su"
  note fetch = fetch_received [OF k, of peer added, folded rq]
  have ne: "k \<noteq> []" using k by (auto simp: hex_id_def)
  obtain s1 allowed where limiter: "p_fetch_limiter ?a (remoteIP rq (p_trust_xff ?a)) s = (s1, allowed)" by fastforce
  obtain s2 r where load: "p_load ?a k s1 = (s2, r)" by fastforce
  obtain hs body where "reply = Some (if \<not> allowed then 429 else case r of Inl _ \<Rightarrow> 500 | Inr None \<Rightarrow> 404 | Inr (Some _) \<Rightarrow> 200, hs, body)"
    using serve_fetch [OF fetch ne limiter load] served by auto
  then show ?thesis
    using reply success fetch
    by (auto simp: handed_def fetches_def arrives_def broken_off_def received_reply_def response_ok_def split: if_splits sum.splits option.splits)
qed

section \<open>Every run\<close>

lemma count_update:
  "i < length xs \<Longrightarrow> length (filter P (xs[i := y])) + (if P (xs ! i) then 1 else 0) = length (filter P xs) + (if P y then 1 else 0)"
proof (induction xs arbitrary: i)
  case (Cons x xs)
  then show ?case by (cases i) auto
qed simp

definition holders :: "jsstring \<Rightarrow> share_page list \<Rightarrow> nat" where
  "holders k ps = length (filter (has_key k) ps)"

text \<open>Each key made is in one place at most: with a stranger, on a page, or in the database.\<close>

definition net_inv ::
  "('s \<Rightarrow> redis_view) \<Rightarrow> ('s \<Rightarrow> bool) \<Rightarrow> jsstring \<Rightarrow> net_label list \<Rightarrow> 's network \<Rightarrow> bool"
where
  "net_inv view ok k ls w \<longleftrightarrow> ok (n_db w) \<and> list_all asked (n_readers w) \<and>
     holders k (n_readers w) + taken_count k ls + (if view (n_db w) k = None then 0 else 1) \<le> made_count k ls"

lemma count_labels:
  "made_count k (ls @ [l]) = made_count k ls + (if makes k l then 1 else 0)"
  "taken_count k (ls @ [l]) = taken_count k ls + (if takes k l then 1 else 0)"
  by (simp_all add: made_count_def taken_count_def)

lemma asked_update: "list_all asked ps \<Longrightarrow> asked q \<Longrightarrow> list_all asked (ps[i := q])"
  using set_update_subset_insert [of ps i q] by (auto simp: list_all_iff)

lemma quiet_page:
  assumes "list_all asked ps" and "i < length ps" and "asked q \<and> (has_key k q \<longrightarrow> has_key k (ps ! i))"
  shows "list_all asked (ps[i := q]) \<and> holders k (ps[i := q]) \<le> holders k ps"
  using count_update [OF assms(2), of "has_key k" q] assms asked_update by (auto simp: holders_def split: if_splits)

text \<open>A page that is served gains a key only when the reply hands it out.\<close>

lemma served_page:
  assumes "list_all asked ps" and "i < length ps" and wait: "suspended (ps ! i) = AwaitKey entry"
    and rq: "rq = received_request peer added (last (wire (share_net (ps ! i))))"
    and served: "serve (redis_app R showTime readTime cfg templates files su) rq s = (s', reply)"
    and reply: "arrives reply outcome" and q: "q = share_step pf (ps ! i) (KeyReply outcome)"
  shows "list_all asked (ps[i := q]) \<and> holders k (ps[i := q]) \<le> holders k ps + (if handed k rq reply then 1 else 0)"
proof -
  have asked: "asked (ps ! i)" using assms(1,2) by (simp add: list_all_length)
  then have last: "last (wire (share_net (ps ! i))) = fetch_request (share_id (ps ! i))" and id: "hex_id (share_id (ps ! i))"
    using wait by (auto simp: asked_def)
  note step = reply_step [OF asked, of pf outcome k, folded q]
  have "has_key k q \<and> \<not> has_key k (ps ! i) \<longrightarrow> handed k rq reply"
    using step success_handed [OF id rq [unfolded last] served] reply by auto
  then have "holders k (ps[i := q]) \<le> holders k ps + (if handed k rq reply then 1 else 0)"
    using count_update [OF assms(2), of "has_key k" q] unfolding holders_def
    by (cases "has_key k q"; cases "has_key k (ps ! i)") auto
  with asked_update [OF assms(1)] step show ?thesis by blast
qed

lemma net_step_inv:
  assumes server: "redis_server R view ok" and files: "leaves_store files" and k: "randomID random = Some k" and ne: "k \<noteq> []"
    and step: "net_step R (redis_app R showTime readTime cfg templates files) pf spf w l w'" and inv: "net_inv view ok k ls w"
  shows "net_inv view ok k (ls @ [l]) w'"
proof -
  have ok: "ok (n_db w)" and pages: "list_all asked (n_readers w)"
    and bound: "holders k (n_readers w) + taken_count k ls + (if view (n_db w) k = None then 0 else 1) \<le> made_count k ls"
    using inv by (simp_all add: net_inv_def)
  note counts = count_labels makes_def takes_def
  have served: "ok s" "(if handed k rq reply then 1 else 0) + (if view s k = None then 0 else 1)
      \<le> (if creates k su rq then 1 else 0) + (if view (n_db w) k = None then 0 else (1 :: nat))"
    if "serve (redis_app R showTime readTime cfg templates files su) rq (n_db w) = (s, reply)" for su rq s reply
    using serve_keeps(1) [OF server ok files k refl] serve_count [OF server ok files k ne refl] that
    by (metis fst_conv snd_conv)+
  show ?thesis
    using step
  proof cases
    case (elapse d)
    then have "view (n_db w) k = None \<longrightarrow> view (r_elapse R d (n_db w)) k = None" "ok (r_elapse R d (n_db w))"
      using ok by (simp_all add: redis_server.elapse_ok [OF server] redis_server.elapse_view [OF server] view_elapse_def)
    with elapse pages bound show ?thesis by (auto simp: net_inv_def counts)
  next
    case (open_reader j ws p)
    then show ?thesis using opened_page [OF open_reader(3,4), of k] inv by (simp add: net_inv_def counts holders_def)
  next
    case (reader_acts i e)
    have "asked (n_readers w ! i)" using pages reader_acts(3) by (simp add: list_all_length)
    from quiet_page [OF pages reader_acts(3) quiet_step [OF this reader_acts(4), of "spf i" k]] ok bound
    show ?thesis by (simp add: net_inv_def counts reader_acts)
  next
    case (reader_lost i)
    have "asked (n_readers w ! i)" using pages reader_lost(3) by (simp add: list_all_length)
    from reply_step [OF this, of "spf i" None k]
    have "asked (share_step (spf i) (n_readers w ! i) (KeyReply None)) \<and>
        (has_key k (share_step (spf i) (n_readers w ! i) (KeyReply None)) \<longrightarrow> has_key k (n_readers w ! i))"
      by simp
    from quiet_page [OF pages reader_lost(3) this] ok bound
    show ?thesis by (simp add: net_inv_def counts reader_lost)
  next
    case (writer_served i p rq peer added su s reply outcome rnd)
    then show ?thesis using served [OF writer_served(7)] pages bound by (simp add: net_inv_def counts)
  next
    case (reader_served i p entry rq peer added su s reply outcome)
    from served_page [OF pages reader_served(3) reader_served(5) [unfolded reader_served(4)] reader_served(6) [unfolded reader_served(4)]
        reader_served(7,8) refl, of "spf i" k] served [OF reader_served(7)] bound reader_served
    show ?thesis by (simp add: net_inv_def counts)
  next
    case (stranger su rq s reply)
    then show ?thesis using served [OF stranger(3)] pages bound by (simp add: net_inv_def counts)
  qed (use ok pages bound in \<open>simp_all add: net_inv_def counts\<close>)
qed

lemma net_run_inv:
  assumes "redis_server R view ok" and "leaves_store files" and "randomID random = Some k" and "k \<noteq> []"
    and "net_run R (redis_app R showTime readTime cfg templates files) pf spf w ls w'" and "net_inv view ok k [] w"
  shows "net_inv view ok k ls w'"
  using assms(5,6)
proof (induction rule: net_run.induct)
  case (net_more w ls w' l w'')
  then show ?case using net_step_inv [OF assms(1-4)] by blast
qed

lemma opened_holders: "opened_count k w \<le> holders k (n_readers w)"
proof -
  have "opened_count k w = length (filter (\<lambda>p. share_id p = k \<and> card p = Opened) (filter (has_key k) (n_readers w)))"
    unfolding opened_count_def filter_filter by (rule arg_cong [of _ _ length], rule filter_cong) (auto simp: has_key_def)
  then show ?thesis unfolding holders_def by (simp only: length_filter_le)
qed

section \<open>The property\<close>

text \<open>C3: One reader. Start with no share page open and no key under an ID, and let anything happen: pages are
  opened, clicked, left waiting and reloaded, their requests and replies arrive or are lost, strangers send
  any HTTP requests, Redis calls fail, keys expire. The share pages of the ID that show their note, and the
  strangers who received its key, are together at most as many as the keys that were created under the ID.\<close>
theorem one_reader:
  assumes "redis_server R view ok" and "leaves_store files" and "length bs = 16"
    and "net_run R (redis_app R showTime readTime cfg templates files) pf spf w ls w'"
    and "ok (n_db w)" and "view (n_db w) (hex_encode bs) = None" and "n_readers w = []"
  shows "opened_count (hex_encode bs) w' + taken_count (hex_encode bs) ls \<le> made_count (hex_encode bs) ls"
proof -
  have "net_inv view ok (hex_encode bs) [] w"
    using assms(5-7) by (simp add: net_inv_def holders_def taken_count_def made_count_def)
  moreover have "randomID (Some bs) = Some (hex_encode bs)" by (simp add: randomID_def)
  moreover have "hex_encode bs \<noteq> []" using assms(3) length_hex_encode [of bs] by auto
  ultimately have "net_inv view ok (hex_encode bs) ls w'" using net_run_inv [OF assms(1,2) _ _ assms(4)] by blast
  then show ?thesis using opened_holders [of "hex_encode bs" w'] by (simp add: net_inv_def)
qed

text \<open>An example: a stranger has the key of the example page created, and that page is opened and clicked.\<close>

definition quiet_start :: "redis_db network" where
  "quiet_start = \<lparr>n_db = empty_redis, n_writers = [], n_readers = []\<rparr>"

definition example_bytes :: bytes where
  "example_bytes = [0x00, 0x11, 0x22, 0x33, 0x44, 0x55, 0x66, 0x77, 0x88, 0x99, 0xAA, 0xBB, 0xCC, 0xDD, 0xEE, 0xFF]"

lemma example_bytes_id: "hex_encode example_bytes = example_id"
  by (simp add: example_bytes_def example_id_def hex_lower_def js_simps)

theorem one_reader_witness:
  "\<exists>ls w. net_run miniredis default_app (\<lambda>_. template_platform) (\<lambda>_. example_platform) quiet_start ls w \<and>
     length ls = 3 \<and> made_count example_id ls = 1 \<and> opened_count example_id w + taken_count example_id ls \<le> 1"
proof -
  let ?page = "example_page (link_fragment example_values)" and ?calm = "calm\<lparr>random_bytes := Some example_bytes\<rparr>"
  let ?run = "net_run miniredis default_app (\<lambda>_. template_platform) (\<lambda>_. example_platform) quiet_start"
  obtain s reply where served: "serve (default_app ?calm) (x_request creation) (n_db quiet_start) = (s, reply)" by fastforce
  let ?made = "ForStranger ?calm (x_request creation) reply" and ?w1 = "quiet_start\<lparr>n_db := s\<rparr>"
  let ?ls = "([?made] @ [Unseen]) @ [Unseen]"
  have "?run [?made] ?w1" using net_more [OF net_start stranger [where app = default_app, OF served]] by simp
  moreover have "n_readers ?w1 = []" by (simp add: quiet_start_def)
  ultimately have "?run ([?made] @ [Unseen]) (?w1\<lparr>n_readers := [] @ [?page]\<rparr>)"
    using net_more [OF _ open_reader [of "\<lambda>_. example_platform" ?w1, OF example_init [OF link_fragment_nonempty [OF example_values_ok]]
        example_id_hex]] by metis
  from net_more [OF this reader_acts [of 0 _ DecryptClick]]
  obtain w where run: "?run ?ls w" by (auto simp: reply_of_network_def)
  have "creates example_id ?calm (x_request creation)"
    by (simp add: creates_def creation_def calm_def randomID_def received_request_def create_request_def create_path_segments
        example_bytes_id)
  then have made: "made_count example_id ?ls = 1" by (simp add: made_count_def makes_def)
  have "opened_count (hex_encode example_bytes) w + taken_count (hex_encode example_bytes) ?ls
      \<le> made_count (hex_encode example_bytes) ?ls"
    by (rule one_reader [OF mini.redis_server_axioms no_files _ run [unfolded default_app_def]])
      (simp_all add: quiet_start_def empty_redis_ok empty_redis_view example_bytes_def)
  with run made show ?thesis unfolding example_bytes_id by fastforce
qed

end
