(* ===== verification/Backends.thy ===== *)
theory Backends
  imports HttpRuns
begin

text \<open>
  The two kinds of store that \<open>main.go\<close> chooses from. On sequences of HTTP requests, the application on the
  in-memory store and the application on Redis give the same replies, apart from what the comparison leaves
  out: faults of Redis, the rate limits (the in-memory application has none), a fetch of the name of one of the
  counters, and the instant at which a key expires, when the one store still has it and the other has not.
\<close>

section \<open>Runs of the in-memory application\<close>



section \<open>What is compared\<close>







section \<open>The relation between the stores\<close>








section \<open>One request\<close>




section \<open>Property\<close>




end
