(* ===== verification/ServerRuns.thy ===== *)
theory ServerRuns
  imports RateLimit
begin

text \<open>
  Many requests at once. Each Redis call of a request is in flight from its first attempt to its end; in
  between any other request can execute commands and time can pass. One attempt is one step: it is executed
  and answered, executed with its reply lost (the client will send it again), or the client gives up. The
  relation \<open>run_step\<close> has all of them; \<open>redis_call\<close>, which \<open>Save\<close>, \<open>Load\<close> and \<open>Allow\<close> are made of, is a run of
  it without others in between (\<open>call_is_run\<close>).
\<close>

section \<open>Calls in flight\<close>

datatype flight = SaveFlight jsstring jsstring int | LoadFlight jsstring | CountFlight jsstring jsstring

definition execute :: "'s redis_ops \<Rightarrow> flight \<Rightarrow> 's \<Rightarrow> 's \<times> jsstring option" where
  "execute R f s =
     (case f of
        SaveFlight k v ttl \<Rightarrow> (r_set R k v ttl s, None)
      | LoadFlight k \<Rightarrow> r_getdel R k s
      | CountFlight bucket ip \<Rightarrow> (fst (r_count R (limiter_key bucket ip) s), None))"

definition flight_valid :: "flight \<Rightarrow> bool" where
  "flight_valid f = (case f of SaveFlight k v ttl \<Rightarrow> positive_duration ttl | _ \<Rightarrow> True)"

record 's world =
  w_db :: 's
  w_flights :: "nat \<rightharpoonup> flight"

datatype label =
    Begun nat flight
  | Lost nat flight
  | Answered nat flight "jsstring option"
  | GivenUp nat flight
  | Passed int

inductive run_step :: "'s redis_ops \<Rightarrow> 's world \<Rightarrow> label \<Rightarrow> 's world \<Rightarrow> bool" for R where
  begin_call: "w_flights w i = None \<Longrightarrow> flight_valid f \<Longrightarrow>
    run_step R w (Begun i f) (w\<lparr>w_flights := (w_flights w)(i \<mapsto> f)\<rparr>)"
| lose_reply: "w_flights w i = Some f \<Longrightarrow>
    run_step R w (Lost i f) (w\<lparr>w_db := fst (execute R f (w_db w))\<rparr>)"
| answer: "w_flights w i = Some f \<Longrightarrow>
    run_step R w (Answered i f (snd (execute R f (w_db w))))
      (w\<lparr>w_db := fst (execute R f (w_db w)), w_flights := (w_flights w)(i := None)\<rparr>)"
| give_up: "w_flights w i = Some f \<Longrightarrow>
    run_step R w (GivenUp i f) (w\<lparr>w_flights := (w_flights w)(i := None)\<rparr>)"
| pass_time: "0 \<le> d \<Longrightarrow> run_step R w (Passed d) (w\<lparr>w_db := r_elapse R d (w_db w)\<rparr>)"

inductive run :: "'s redis_ops \<Rightarrow> 's world \<Rightarrow> label list \<Rightarrow> 's world \<Rightarrow> bool" for R where
  run_done: "run R w [] w"
| run_more: "run R w ls w1 \<Longrightarrow> run_step R w1 l w2 \<Longrightarrow> run R w (ls @ [l]) w2"

inductive_cases run_NilE: "run R w [] w'"

text \<open>The text an executed step gave a key, and the text an answer handed out.\<close>

fun set_text :: "jsstring \<Rightarrow> label \<Rightarrow> jsstring option" where
  "set_text k (Lost i (SaveFlight k' v ttl)) = (if k' = k then Some v else None)"
| "set_text k (Answered i (SaveFlight k' v ttl) r) = (if k' = k then Some v else None)"
| "set_text k _ = None"

fun given_text :: "jsstring \<Rightarrow> label \<Rightarrow> jsstring option" where
  "given_text k (Answered i (LoadFlight k') r) = (if k' = k then r else None)"
| "given_text k _ = None"

definition times :: "(label \<Rightarrow> bool) \<Rightarrow> label list \<Rightarrow> nat" where
  "times P ls = length (filter P ls)"

lemma times_simps [simp]:
  "times P [] = 0"
  "times P (ls @ [l]) = times P ls + (if P l then 1 else 0)"
  by (simp_all add: times_def)

section \<open>Calls are runs\<close>

lemma run_trans: "run R w1 ls2 w2 \<Longrightarrow> run R w0 ls1 w1 \<Longrightarrow> run R w0 (ls1 @ ls2) w2"
proof (induction rule: run.induct)
  case (run_more w ls w1 l w2)
  then show ?case using run.run_more by (metis append_assoc)
qed simp

lemma run_single: "run_step R w l w' \<Longrightarrow> run R w [l] w'"
  using run.run_more [OF run.run_done] by fastforce

lemma call_is_run:
  "w_flights w i = Some f \<Longrightarrow>
   \<exists>ls w'. run R w ls w' \<and> w_db w' = fst (redis_call (execute R f) as (w_db w)) \<and>
     w_flights w' = (w_flights w)(i := None) \<and>
     (\<forall>r. snd (redis_call (execute R f) as (w_db w)) = Some r \<longrightarrow> last ls = Answered i f r)"
proof (induction as arbitrary: w)
  case Nil
  show ?case by (intro exI conjI, rule run_single [OF give_up [OF Nil]]) simp_all
next
  case (Cons a as)
  show ?case
  proof (cases a)
    case Delivered
    show ?thesis unfolding Delivered
      by (intro exI conjI, rule run_single [OF answer [OF Cons.prems]]) simp_all
  next
    case ReplyLost
    let ?w = "w\<lparr>w_db := fst (execute R f (w_db w))\<rparr>"
    have "w_flights ?w i = Some f" using Cons.prems by simp
    from Cons.IH [OF this] obtain ls w' where ls: "run R ?w ls w'" "w_db w' = fst (redis_call (execute R f) as (w_db ?w))"
      "w_flights w' = (w_flights ?w)(i := None)"
      "\<forall>r. snd (redis_call (execute R f) as (w_db ?w)) = Some r \<longrightarrow> last ls = Answered i f r"
      by blast
    have "ls \<noteq> []" using ls(1,3) Cons.prems by (auto elim!: run_NilE dest: fun_cong [where x = i])
    with ls show ?thesis unfolding ReplyLost
      by - (intro exI conjI, rule run_trans [OF ls(1) run_single [OF lose_reply [OF Cons.prems]]], simp_all)
  next
    case Unreachable
    with Cons show ?thesis by simp
  qed
qed

section \<open>The invariant\<close>

context redis_server
begin

lemma execute_ok: "ok s \<Longrightarrow> flight_valid f \<Longrightarrow> ok (fst (execute R f s))"
  by (cases f) (simp_all add: execute_def flight_valid_def set_ok getdel_ok count_ok)

text \<open>What one execution does to a key that is no counter.\<close>

lemma execute_key:
  assumes "ok s" and "flight_valid f" and "\<And>bucket ip. k \<noteq> limiter_key bucket ip"
  shows "view (fst (execute R f s)) k =
    (case f of SaveFlight k' v ttl \<Rightarrow> if k' = k then Some (v, Some (sent_ttl ttl)) else view s k
      | LoadFlight k' \<Rightarrow> if k' = k then None else view s k | CountFlight _ _ \<Rightarrow> view s k)"
  using assms by (cases f)
    (auto simp: execute_def flight_valid_def set_view view_set_def getdel_simps count_simps count_other)

lemma execute_load: "ok s \<Longrightarrow> snd (execute R (LoadFlight k) s) = map_option fst (view s k)"
  by (simp add: execute_def getdel_simps)

definition run_inv :: "jsstring \<Rightarrow> label list \<Rightarrow> 's world \<Rightarrow> bool" where
  "run_inv k ls w \<longleftrightarrow> ok (w_db w) \<and> (\<forall>i f. w_flights w i = Some f \<longrightarrow> flight_valid f) \<and>
     times (\<lambda>l. given_text k l \<noteq> None) ls + (if view (w_db w) k = None then 0 else 1) \<le> times (\<lambda>l. set_text k l \<noteq> None) ls \<and>
     (\<forall>v t. view (w_db w) k = Some (v, t) \<longrightarrow> Some v \<in> set_text k ` set ls) \<and>
     (\<forall>v. Some v \<in> given_text k ` set ls \<longrightarrow> Some v \<in> set_text k ` set ls)"

lemma run_step_inv:
  assumes counter: "\<And>bucket ip. k \<noteq> limiter_key bucket ip"
    and "run_step R w l w'" and inv: "run_inv k ls w"
  shows "run_inv k (ls @ [l]) w'"
  using assms(2)
proof (cases rule: run_step.cases)
  case (begin_call i f)
  with inv show ?thesis by (auto simp: run_inv_def)
next
  case (lose_reply i f)
  then have f: "flight_valid f" and ok: "ok (w_db w)" using inv by (auto simp: run_inv_def)
  show ?thesis
    using lose_reply inv execute_ok [OF ok f] execute_key [OF ok f counter]
    by (cases f) (auto simp: run_inv_def split: if_splits)
next
  case (answer i f)
  then have f: "flight_valid f" and ok: "ok (w_db w)" using inv by (auto simp: run_inv_def)
  show ?thesis
    using answer inv execute_ok [OF ok f] execute_key [OF ok f counter] execute_load [OF ok]
    by (cases f) (auto simp: run_inv_def split: if_splits)
next
  case (give_up i f)
  with inv show ?thesis by (auto simp: run_inv_def)
next
  case (pass_time d)
  with inv show ?thesis
    by (auto simp: run_inv_def elapse_ok elapse_view view_elapse_def split: option.splits prod.splits if_splits)
qed

lemma run_keeps:
  assumes counter: "\<And>bucket ip. k \<noteq> limiter_key bucket ip" and "run R w ls w'" and "run_inv k [] w"
  shows "run_inv k ls w'"
  using assms(2,3) by induction (auto intro: run_step_inv [OF counter])

end

section \<open>Properties\<close>

text \<open>C9: One read per save, with any number of requests at once. From a state without the key, over every
  interleaving of the Redis calls of all requests, with replies lost, calls sent again or given up, and time
  passing: the key is handed out at most as often as it was written (one less while it is still there), and
  every text handed out for it is one that was written for it.\<close>
theorem reads_bounded_by_saves:
  assumes "redis_server R view ok" and "run R w ls w'" and "ok (w_db w)" and "w_flights w = Map.empty"
    and "randomID random = Some k" and "view (w_db w) k = None"
  shows "times (\<lambda>l. given_text k l \<noteq> None) ls + (if view (w_db w') k = None then 0 else 1)
      \<le> times (\<lambda>l. set_text k l \<noteq> None) ls \<and>
    (\<forall>v. Some v \<in> given_text k ` set ls \<longrightarrow> Some v \<in> set_text k ` set ls)"
proof -
  have "redis_server.run_inv view ok k [] w"
    using assms(3,4,6) by (simp add: redis_server.run_inv_def [OF assms(1)])
  from redis_server.run_keeps [OF assms(1) id_no_counter [OF assms(5)] assms(2) this] show ?thesis
    by (simp add: redis_server.run_inv_def [OF assms(1)])
qed

text \<open>An example: two readers race for one key; the first one's reply is lost.\<close>

definition race :: "label list" where
  "race = [Begun 0 (SaveFlight (hex_encode [1]) (js ''k'') (60 * second)), Answered 0 (SaveFlight (hex_encode [1]) (js ''k'') (60 * second)) None,
     Begun 1 (LoadFlight (hex_encode [1])), Begun 2 (LoadFlight (hex_encode [1])),
     Answered 2 (LoadFlight (hex_encode [1])) (Some (js ''k''))]"

lemma race_run:
  "\<exists>w'. run miniredis \<lparr>w_db = empty_redis, w_flights = Map.empty\<rparr> race w'"
proof -
  let ?k = "hex_encode [1]" and ?w0 = "\<lparr>w_db = empty_redis, w_flights = Map.empty\<rparr>"
  let ?save = "SaveFlight ?k (js ''k'') (60 * second)" and ?load = "LoadFlight ?k"
  let ?s = "fst (execute miniredis ?save empty_redis)" and ?s' = "fst (execute miniredis ?load (fst (execute miniredis ?save empty_redis)))"
  have ok: "db_ok ?s" by (rule mini.execute_ok [OF empty_redis_ok]) (simp add: flight_valid_def minute_durations)
  have "db_view ?s ?k = Some (js ''k'', Some (60 * second))"
    using mini.execute_key [OF empty_redis_ok, of ?save ?k] id_no_counter [of "Some [1]" ?k]
    by (simp add: flight_valid_def randomID_def minute_durations sent_ttl_seconds del: hex_encode.simps)
  then have loaded: "snd (execute miniredis ?load ?s) = Some (js ''k'')"
    by (simp only: mini.execute_load [OF ok] option.map fst_conv)
  have 1: "run miniredis ?w0 [Begun 0 ?save] \<lparr>w_db = empty_redis, w_flights = [0 \<mapsto> ?save]\<rparr>"
    using run_single [OF begin_call [of ?w0 0 ?save miniredis]] by (simp add: flight_valid_def minute_durations)
  have 2: "run_step miniredis \<lparr>w_db = empty_redis, w_flights = [0 \<mapsto> ?save]\<rparr> (Answered 0 ?save None)
      \<lparr>w_db = ?s, w_flights = Map.empty\<rparr>"
    using answer [of "\<lparr>w_db = empty_redis, w_flights = [0 \<mapsto> ?save]\<rparr>" 0 ?save miniredis]
    by (simp add: execute_def)
  have 3: "run_step miniredis \<lparr>w_db = ?s, w_flights = Map.empty\<rparr> (Begun 1 ?load) \<lparr>w_db = ?s, w_flights = [1 \<mapsto> ?load]\<rparr>"
    using begin_call [of "\<lparr>w_db = ?s, w_flights = Map.empty\<rparr>" 1 ?load miniredis] by (simp add: flight_valid_def)
  have 4: "run_step miniredis \<lparr>w_db = ?s, w_flights = [1 \<mapsto> ?load]\<rparr> (Begun 2 ?load)
      \<lparr>w_db = ?s, w_flights = [1 \<mapsto> ?load, 2 \<mapsto> ?load]\<rparr>"
    using begin_call [of "\<lparr>w_db = ?s, w_flights = [1 \<mapsto> ?load]\<rparr>" 2 ?load miniredis] by (simp add: flight_valid_def)
  have 5: "run_step miniredis \<lparr>w_db = ?s, w_flights = [1 \<mapsto> ?load, 2 \<mapsto> ?load]\<rparr> (Answered 2 ?load (Some (js ''k'')))
      \<lparr>w_db = ?s', w_flights = [1 \<mapsto> ?load, 2 \<mapsto> ?load](2 := None)\<rparr>"
    using answer [of "\<lparr>w_db = ?s, w_flights = [1 \<mapsto> ?load, 2 \<mapsto> ?load]\<rparr>" 2 ?load miniredis] loaded by simp
  have "run miniredis ?w0 race \<lparr>w_db = ?s', w_flights = [1 \<mapsto> ?load, 2 \<mapsto> ?load](2 := None)\<rparr>"
    using run_more [OF run_more [OF run_more [OF run_more [OF 1 2] 3] 4] 5] by (simp add: race_def)
  then show ?thesis by blast
qed

theorem reads_bounded_by_saves_witness:
  "times (\<lambda>l. given_text (hex_encode [1]) l \<noteq> None) race \<le> times (\<lambda>l. set_text (hex_encode [1]) l \<noteq> None) race"
proof -
  obtain w' where run: "run miniredis \<lparr>w_db = empty_redis, w_flights = Map.empty\<rparr> race w'" using race_run by blast
  have "randomID (Some [1]) = Some (hex_encode [1])" by (simp add: randomID_def)
  from reads_bounded_by_saves [OF mini.redis_server_axioms run _ _ this] show ?thesis
    by (simp add: empty_redis_ok empty_redis_view split: if_splits)
qed

end
