(* ===== verification/Templates.thy ===== *)
theory Templates
  imports Handlers
begin

text \<open>
  The opening tag of \<open>main\<close> in \<open>templates/base.html\<close>, in which the server tells the scripts the kind of the page, the
  ID of the key and its settings, and how a browser reads it. The escaping is that of \<open>html/template\<close> for a
  quoted attribute; the reader is that of the HTML standard: first the newlines of the input are normalised, then
  the tokenizer runs from the \<open><\<close> of a start tag to its \<open>>\<close>, with the character references that the
  escaping writes.
\<close>

section \<open>Writing\<close>

definition attr_char :: "code_unit \<Rightarrow> jsstring" where
  "attr_char c =
     (if c = 0 then [0xFFFD]
      else if c = 34 then js ''&#34;''
      else if c = 38 then js ''&amp;''
      else if c = 39 then js ''&#39;''
      else if c = 43 then js ''&#43;''
      else if c = 60 then js ''&lt;''
      else if c = 62 then js ''&gt;''
      else [c])"

definition attr_escape :: "jsstring \<Rightarrow> jsstring" where
  "attr_escape s = concat (map attr_char s)"

definition template_attr :: "string \<Rightarrow> jsstring \<Rightarrow> jsstring" where
  "template_attr name s = 10 # replicate 4 32 @ js name @ [61, 34] @ attr_escape s @ [34]"

text \<open>Integers are written in decimal.\<close>

definition go_int :: "int \<Rightarrow> jsstring" where
  "go_int n = (if n < 0 then 45 # decimal (nat (- n)) else decimal (nat n))"

definition main_tag :: "page_data \<Rightarrow> jsstring" where
  "main_tag pd =
     js ''<main'' @ template_attr ''class'' (js ''shell'') @ template_attr ''data-page'' (Page pd) @
     template_attr ''data-share-id'' (ShareID pd) @ template_attr ''data-autohide-seconds'' (go_int (AutoHideSeconds pd)) @
     template_attr ''data-max-ttl-seconds'' (go_int (MaxTTLSeconds pd)) @ js ''>''"

section \<open>Reading\<close>

text \<open>Before the tokenizer sees them, a carriage return with a line feed, and one without, become a line feed.\<close>

fun normalize_newlines :: "jsstring \<Rightarrow> jsstring" where
  "normalize_newlines [] = []"
| "normalize_newlines [c] = [if c = 13 then 10 else c]"
| "normalize_newlines (c # d # s) =
     (if c = 13 \<and> d = 10 then 10 # normalize_newlines s else (if c = 13 then 10 else c) # normalize_newlines (d # s))"

definition tag_space :: "code_unit \<Rightarrow> bool" where
  "tag_space c \<longleftrightarrow> c \<in> {9, 10, 12, 13, 32}"

definition lower_unit :: "code_unit \<Rightarrow> code_unit" where
  "lower_unit c = (if 65 \<le> c \<and> c \<le> 90 then c + 32 else c)"

text \<open>A character reference at the front of a text, with the length it takes.\<close>

definition named_references :: "(jsstring \<times> code_unit) list" where
  "named_references = [(js ''&amp;'', 38), (js ''&lt;'', 60), (js ''&gt;'', 62), (js ''&#34;'', 34), (js ''&#39;'', 39), (js ''&#43;'', 43)]"

definition reference :: "jsstring \<Rightarrow> (code_unit \<times> nat) option" where
  "reference s =
     map_option (\<lambda>(r, c). (c, length r)) (find (\<lambda>(r, c). take (length r) s = r) named_references)"

function unreference :: "jsstring \<Rightarrow> jsstring" where
  "unreference [] = []"
| "unreference (c # s) =
     (case reference (c # s) of
        None \<Rightarrow> c # unreference s
      | Some (d, n) \<Rightarrow> d # unreference (drop (n - 1) s))"
  by pat_completeness auto
termination
  by (relation "measure length") auto

text \<open>A null character inside a tag is read as the replacement character.\<close>

definition no_null :: "code_unit \<Rightarrow> code_unit" where
  "no_null c = (if c = 0 then 0xFFFD else c)"

text \<open>
  The states of the tokenizer: inside the tag's name, before, inside and after an attribute's name, before its
  value, inside it with the quote that ends it or without, and after a quoted value.
\<close>

datatype tag_state =
    TagName
  | BeforeName
  | InName jsstring
  | AfterName jsstring
  | BeforeValue jsstring
  | QuotedValue code_unit jsstring jsstring
  | PlainValue jsstring jsstring
  | AfterQuoted

record tag =
  tag_name :: jsstring
  tag_attrs :: "(jsstring \<times> jsstring) list"

definition add_attr :: "jsstring \<Rightarrow> jsstring \<Rightarrow> tag \<Rightarrow> tag" where
  "add_attr name v t = t\<lparr>tag_attrs := tag_attrs t @ [(name, unreference v)]\<rparr>"

text \<open>One character: the next state, or \<open>None\<close> at the end of the tag.\<close>

fun tag_step :: "tag_state \<Rightarrow> tag \<Rightarrow> code_unit \<Rightarrow> tag_state option \<times> tag" where
  "tag_step TagName t c =
     (if tag_space c \<or> c = 47 then (Some BeforeName, t)
      else if c = 62 then (None, t)
      else (Some TagName, t\<lparr>tag_name := tag_name t @ [lower_unit (no_null c)]\<rparr>))"
| "tag_step BeforeName t c =
     (if tag_space c \<or> c = 47 then (Some BeforeName, t)
      else if c = 62 then (None, t)
      else (Some (InName [lower_unit (no_null c)]), t))"
| "tag_step (InName n) t c =
     (if tag_space c then (Some (AfterName n), t)
      else if c = 47 then (Some BeforeName, add_attr n [] t)
      else if c = 61 then (Some (BeforeValue n), t)
      else if c = 62 then (None, add_attr n [] t)
      else (Some (InName (n @ [lower_unit (no_null c)])), t))"
| "tag_step (AfterName n) t c =
     (if tag_space c then (Some (AfterName n), t)
      else if c = 47 then (Some BeforeName, add_attr n [] t)
      else if c = 61 then (Some (BeforeValue n), t)
      else if c = 62 then (None, add_attr n [] t)
      else (Some (InName [lower_unit (no_null c)]), add_attr n [] t))"
| "tag_step (BeforeValue n) t c =
     (if tag_space c then (Some (BeforeValue n), t)
      else if c = 34 \<or> c = 39 then (Some (QuotedValue c n []), t)
      else if c = 62 then (None, add_attr n [] t)
      else (Some (PlainValue n [no_null c]), t))"
| "tag_step (QuotedValue q n v) t c =
     (if c = q then (Some AfterQuoted, add_attr n v t) else (Some (QuotedValue q n (v @ [no_null c])), t))"
| "tag_step (PlainValue n v) t c =
     (if tag_space c then (Some BeforeName, add_attr n v t)
      else if c = 62 then (None, add_attr n v t)
      else (Some (PlainValue n (v @ [no_null c])), t))"
| "tag_step AfterQuoted t c =
     (if tag_space c \<or> c = 47 then (Some BeforeName, t)
      else if c = 62 then (None, t)
      else (Some (InName [lower_unit (no_null c)]), t))"

fun tag_loop :: "tag_state \<Rightarrow> tag \<Rightarrow> jsstring \<Rightarrow> (tag \<times> jsstring) option" where
  "tag_loop st t [] = None"
| "tag_loop st t (c # s) =
     (case tag_step st t c of
        (None, t') \<Rightarrow> Some (t', s)
      | (Some st', t') \<Rightarrow> tag_loop st' t' s)"

definition read_tag :: "jsstring \<Rightarrow> (tag \<times> jsstring) option" where
  "read_tag html =
     (let s = normalize_newlines html
      in if s \<noteq> [] \<and> hd s = 60 then tag_loop TagName \<lparr>tag_name = [], tag_attrs = []\<rparr> (tl s) else None)"

text \<open>Of attributes with the same name the first counts; \<open>Number\<close> of a text in decimal digits.\<close>

definition data_attr :: "string \<Rightarrow> tag \<Rightarrow> jsstring option" where
  "data_attr name t = map_of (tag_attrs t) (js name)"

definition attr_number :: "string \<Rightarrow> tag \<Rightarrow> int option" where
  "attr_number name t = Option.bind (data_attr name t) parse_int64"

section \<open>What is written is read\<close>

text \<open>
  What a reader gets of a text: the reader normalises newlines, the escaping replaces null characters. A text is
  read as it is if it has no null character and no carriage return, and only then.
\<close>

definition browser_text :: "jsstring \<Rightarrow> jsstring" where
  "browser_text s = map no_null (normalize_newlines s)"

lemma normalize_skip: "13 \<notin> set p \<Longrightarrow> normalize_newlines (p @ s) = p @ normalize_newlines s"
proof (induction p)
  case (Cons c p)
  then show ?case by (cases "p @ s") auto
qed simp

lemma normalize_plain: "13 \<notin> set s \<Longrightarrow> normalize_newlines s = s"
  using normalize_skip [of s "[]"] by simp

lemma normalize_set: "13 \<notin> set (normalize_newlines s)"
  by (induction s rule: normalize_newlines.induct) auto

lemma normalize_append:
  "t \<noteq> [] \<Longrightarrow> hd t \<noteq> 10 \<Longrightarrow> normalize_newlines (s @ t) = normalize_newlines s @ normalize_newlines t"
proof (induction s rule: normalize_newlines.induct)
  case (2 c)
  then show ?case by (cases t) auto
qed auto

lemma browser_text_id: "browser_text s = s \<longleftrightarrow> 0 \<notin> set s \<and> 13 \<notin> set s"
proof
  have "13 \<notin> set (browser_text s)" "0 \<notin> set (browser_text s)"
    using normalize_set [of s] by (auto simp: browser_text_def no_null_def split: if_splits)
  then show "0 \<notin> set s \<and> 13 \<notin> set s" if "browser_text s = s" using that by simp
next
  assume plain: "0 \<notin> set s \<and> 13 \<notin> set s"
  then have "map no_null s = s" by (intro map_idI) (auto simp: no_null_def)
  with plain show "browser_text s = s" by (simp add: browser_text_def normalize_plain)
qed

text \<open>Normalising an escaped text is escaping the normalised one.\<close>

lemma attr_escape_simps [simp]: "attr_escape [] = []" "attr_escape (c # s) = attr_char c @ attr_escape s"
  by (simp_all add: attr_escape_def)

lemma attr_char_newlines: "attr_char 13 = [13]" "attr_char 10 = [10]"
  "attr_char c \<noteq> []" "c \<noteq> 10 \<Longrightarrow> hd (attr_char c) \<noteq> 10" "c \<noteq> 13 \<Longrightarrow> 13 \<notin> set (attr_char c)"
  by (simp_all add: attr_char_def js_simps)

lemma normalize_escape: "normalize_newlines (attr_escape s) = attr_escape (normalize_newlines s)"
proof (induction s rule: normalize_newlines.induct)
  case (2 c)
  then show ?case
    using normalize_plain [OF attr_char_newlines(5)] by (cases "c = 13") (simp_all add: attr_char_newlines)
next
  case (3 c d s)
  show ?case
  proof (cases "c = 13")
    case cr: True
    show ?thesis
    proof (cases "d = 10")
      case True
      with cr 3 show ?thesis by (simp add: attr_char_newlines)
    next
      case False
      have "attr_escape (d # s) \<noteq> []" "hd (attr_escape (d # s)) \<noteq> 10"
        using attr_char_newlines(3) [of d] attr_char_newlines(4) [OF False] by simp_all
      then have "normalize_newlines ([13] @ attr_escape (d # s)) = [10] @ normalize_newlines (attr_escape (d # s))"
        by (subst normalize_append) simp_all
      with cr False 3(2) show ?thesis by (simp add: attr_char_newlines)
    qed
  next
    case False
    with 3(2) normalize_skip [OF attr_char_newlines(5) [OF False], of "attr_escape (d # s)"] show ?thesis by simp
  qed
qed simp

lemma attr_char_reference: "unreference (attr_char c @ s) = no_null c # unreference s"
  by (auto simp: attr_char_def reference_def named_references_def no_null_def js_simps)

lemma unreference_escape: "unreference (attr_escape s) = map no_null s"
  by (induction s) (simp_all add: attr_char_reference)

lemma attr_escape_quote: "34 \<notin> set (attr_escape s)" "0 \<notin> set (attr_escape s)"
proof -
  have "34 \<notin> set (attr_char c)" "0 \<notin> set (attr_char c)" for c by (simp_all add: attr_char_def js_simps)
  then show "34 \<notin> set (attr_escape s)" "0 \<notin> set (attr_escape s)" by (simp_all add: attr_escape_def)
qed

lemma loop_quoted:
  "q \<notin> set v \<Longrightarrow> 0 \<notin> set v \<Longrightarrow>
   tag_loop (QuotedValue q n w) t (v @ q # s) = tag_loop AfterQuoted (add_attr n (w @ v) t) s"
  by (induction v arbitrary: w) (auto simp: no_null_def)

lemma loop_name:
  "list_all (\<lambda>c. \<not> tag_space c \<and> c \<notin> {0, 47, 61, 62} \<and> lower_unit c = c) m \<Longrightarrow>
   tag_loop (InName n) t (m @ 61 # s) = tag_loop (BeforeValue (n @ m)) t s"
  by (induction m arbitrary: n) (auto simp: tag_space_def no_null_def)

definition plain_name :: "jsstring \<Rightarrow> bool" where
  "plain_name m \<longleftrightarrow> m \<noteq> [] \<and> list_all (\<lambda>c. \<not> tag_space c \<and> c \<notin> {0, 47, 61, 62} \<and> lower_unit c = c) m"

lemma loop_attr:
  assumes "st = TagName \<or> st = AfterQuoted" and "plain_name (js name)"
  shows "tag_loop st t (template_attr name v @ s) =
    tag_loop AfterQuoted (t\<lparr>tag_attrs := tag_attrs t @ [(js name, map no_null v)]\<rparr>) s"
proof -
  have "tag_loop st t (template_attr name v @ s) = tag_loop BeforeName t (js name @ 61 # 34 # attr_escape v @ 34 # s)"
    using assms(1) by (auto simp: template_attr_def tag_space_def numeral_eq_Suc)
  also have "\<dots> = tag_loop (BeforeValue (js name)) t (34 # attr_escape v @ 34 # s)"
    using assms(2) loop_name [of "tl (js name)" "[hd (js name)]" t]
    by (cases "js name") (auto simp: plain_name_def no_null_def)
  also have "\<dots> = tag_loop AfterQuoted (t\<lparr>tag_attrs := tag_attrs t @ [(js name, map no_null v)]\<rparr>) s"
    using loop_quoted [where q = 34 and v = "attr_escape v" and n = "js name" and w = "[]" and t = t and s = s,
        OF attr_escape_quote]
    by (simp add: tag_space_def add_attr_def unreference_escape)
  finally show ?thesis .
qed

lemma normalize_attr:
  assumes "plain_name (js name)"
  shows "normalize_newlines (template_attr name v @ s) = template_attr name (normalize_newlines v) @ normalize_newlines s"
proof -
  have "13 \<notin> set (10 # replicate 4 32 @ js name @ [61, 34])"
    using assms by (auto simp: plain_name_def tag_space_def list_all_iff)
  from normalize_skip [OF this, of "attr_escape v @ 34 # s"] normalize_append [of "34 # s" "attr_escape v"]
    normalize_skip [of "[34]" s]
  show ?thesis by (simp add: template_attr_def normalize_escape)
qed

lemma main_names:
  "plain_name (js ''class'')" "plain_name (js ''data-page'')" "plain_name (js ''data-share-id'')"
  "plain_name (js ''data-autohide-seconds'')" "plain_name (js ''data-max-ttl-seconds'')"
  by (simp_all add: plain_name_def js_simps tag_space_def lower_unit_def)

lemma go_int_plain: "browser_text (go_int n) = go_int n"
proof -
  have "u \<notin> set (decimal k)" if "u \<in> {0, 13}" for u k
    using that decimal_digits [of k] by (auto simp: list_all_iff json_digit_def)
  then show ?thesis by (auto simp: go_int_def browser_text_id)
qed

definition main_attrs :: "page_data \<Rightarrow> (jsstring \<times> jsstring) list" where
  "main_attrs pd =
     [(js ''class'', js ''shell''), (js ''data-page'', browser_text (Page pd)), (js ''data-share-id'', browser_text (ShareID pd)),
      (js ''data-autohide-seconds'', go_int (AutoHideSeconds pd)), (js ''data-max-ttl-seconds'', go_int (MaxTTLSeconds pd))]"

lemma read_main_tag:
  "read_tag (main_tag pd @ s) = Some (\<lparr>tag_name = js ''main'', tag_attrs = main_attrs pd\<rparr>, normalize_newlines s)"
proof -
  let ?t = "\<lparr>tag_name = js ''main'', tag_attrs = []\<rparr>" and ?n = normalize_newlines
  let ?attrs = "template_attr ''class'' (?n (js ''shell'')) @ template_attr ''data-page'' (?n (Page pd)) @
     template_attr ''data-share-id'' (?n (ShareID pd)) @ template_attr ''data-autohide-seconds'' (?n (go_int (AutoHideSeconds pd))) @
     template_attr ''data-max-ttl-seconds'' (?n (go_int (MaxTTLSeconds pd))) @ 62 # ?n s"
  have shell: "browser_text (js ''shell'') = js ''shell''" by (simp add: browser_text_id js_simps)
  have "13 \<notin> set (js ''<main'')" by (simp add: js_simps)
  from normalize_skip [OF this] have "normalize_newlines (main_tag pd @ s) = js ''<main'' @ ?attrs"
    using normalize_skip [of "[62]" s]
    by (simp only: main_tag_def append_assoc normalize_attr main_names) (simp add: js_simps)
  then have "read_tag (main_tag pd @ s) = tag_loop TagName ?t ?attrs"
    by (simp add: read_tag_def js_simps tag_space_def lower_unit_def no_null_def)
  also have "tag_loop TagName ?t ?attrs = tag_loop AfterQuoted \<lparr>tag_name = js ''main'', tag_attrs = main_attrs pd\<rparr> (62 # ?n s)"
    using shell go_int_plain by (simp add: loop_attr main_names main_attrs_def browser_text_def)
  also have "\<dots> = Some (\<lparr>tag_name = js ''main'', tag_attrs = main_attrs pd\<rparr>, ?n s)"
    by (simp add: tag_space_def)
  finally show ?thesis .
qed

lemma main_data:
  assumes "read_tag (main_tag pd @ s) = Some (t, rest)"
  shows "rest = normalize_newlines s" "data_attr ''data-page'' t = Some (browser_text (Page pd))"
    "data_attr ''data-share-id'' t = Some (browser_text (ShareID pd))"
    "0 \<le> AutoHideSeconds pd \<Longrightarrow> AutoHideSeconds pd < 2 ^ 63 \<Longrightarrow>
     attr_number ''data-autohide-seconds'' t = Some (AutoHideSeconds pd)"
    "0 \<le> MaxTTLSeconds pd \<Longrightarrow> MaxTTLSeconds pd < 2 ^ 63 \<Longrightarrow>
     attr_number ''data-max-ttl-seconds'' t = Some (MaxTTLSeconds pd)"
proof -
  have t: "t = \<lparr>tag_name = js ''main'', tag_attrs = main_attrs pd\<rparr>" "rest = normalize_newlines s"
    using assms read_main_tag [of pd s] by simp_all
  have number: "parse_int64 (go_int n) = Some n" if "0 \<le> n" "n < 2 ^ 63" for n
    using that parse_int64_decimal [of "nat n"] by (simp add: go_int_def)
  show "rest = normalize_newlines s" by (rule t(2))
  show "data_attr ''data-page'' t = Some (browser_text (Page pd))"
    "data_attr ''data-share-id'' t = Some (browser_text (ShareID pd))"
    by (simp_all add: t data_attr_def main_attrs_def js_simps)
  show "0 \<le> AutoHideSeconds pd \<Longrightarrow> AutoHideSeconds pd < 2 ^ 63 \<Longrightarrow>
      attr_number ''data-autohide-seconds'' t = Some (AutoHideSeconds pd)"
    "0 \<le> MaxTTLSeconds pd \<Longrightarrow> MaxTTLSeconds pd < 2 ^ 63 \<Longrightarrow>
      attr_number ''data-max-ttl-seconds'' t = Some (MaxTTLSeconds pd)"
    by (simp_all add: t attr_number_def data_attr_def main_attrs_def js_simps number)
qed

end
