(* ===== verification/Pages.thy ===== *)
theory Pages
  imports CreateSpec Templates Server
begin

text \<open>
  The pages as the application serves them and as their scripts start on them. A page is its template's text
  around the opening tag of \<open>main\<close>; of the text before and after it nothing is assumed.
\<close>

definition page_html :: "(page_data \<Rightarrow> jsstring) \<Rightarrow> (page_data \<Rightarrow> jsstring) \<Rightarrow> page_data \<Rightarrow> jsstring" where
  "page_html before after pd = before pd @ main_tag pd @ after pd"

definition base_template :: "(page_data \<Rightarrow> jsstring) \<Rightarrow> (page_data \<Rightarrow> jsstring) \<Rightarrow> page_templates" where
  "base_template before after = Some (\<lambda>pd. Some (page_html before after pd))"

text \<open>The tag as the browser reads it out of a reply, and what follows it.\<close>

definition page_root :: "(page_data \<Rightarrow> jsstring) \<Rightarrow> page_data \<Rightarrow> jsstring \<Rightarrow> (tag \<times> jsstring) option" where
  "page_root before pd html = read_tag (drop (length (before pd)) html)"

lemma page_root_html: "page_root before pd (page_html before after pd) = read_tag (main_tag pd @ after pd)"
  by (simp add: page_root_def page_html_def)

section \<open>Serving a page\<close>

lemma render_sends:
  assumes "w_sent w = None" and "w_body w = []"
  shows "\<exists>hs. w_sent (renderPage (base_template before after) pd w) =
      Some (if StatusCode pd = 0 then 200 else StatusCode pd, hs) \<and>
    w_body (renderPage (base_template before after) pd w) = page_html before after pd"
  using assms by (simp add: renderPage_def base_template_def write_body_def write_header_def header_set_def Let_def)

lemma serve_page:
  assumes get: "rq_method rq = js ''GET''" and "rq_segments rq \<noteq> [js ''static'']" "hd (rq_segments rq) \<noteq> js ''static''"
    and route: "dynamicMux a rq (s, secured_writer) = Returned (s, renderPage (base_template before after) pd secured_writer)"
    and "StatusCode pd = 0"
  shows "\<exists>hs. serve a rq s = (s, Some (200, hs, page_html before after pd))"
proof -
  obtain hs where sent: "w_sent (renderPage (base_template before after) pd secured_writer) = Some (200, hs)"
    "w_body (renderPage (base_template before after) pd secured_writer) = page_html before after pd"
    using render_sends [OF secured_writer(2,3), of before after pd] assms(5) by auto
  have "newAppHandler a rq (s, new_writer) = Returned (s, renderPage (base_template before after) pd secured_writer)"
    unfolding serve_dynamic [OF assms(2,3)] by (rule dynamicHandler_writer [OF route])
  from serve_returned [OF this] sent get show ?thesis
    by (simp add: write_header_def js_simps)
qed

lemma serve_home:
  assumes "p_templates a = base_template before after" and "rq_method rq = js ''GET''" and "rq_segments rq = [[]]"
  shows "\<exists>hs. serve a rq s = (s, Some (200, hs, page_html before after (home_data (app_settings a))))"
proof (rule serve_page [OF assms(2)])
  show "dynamicMux a rq (s, secured_writer) = Returned (s, renderPage (base_template before after) (home_data (app_settings a)) secured_writer)"
    by (simp add: dynamicMux_def dynamic_route_def is_get_def assms HomePage_def js_simps)
qed (simp_all add: assms home_data_def js_simps)

lemma serve_share:
  assumes "p_templates a = base_template before after" and "rq_method rq = js ''GET''"
    and "rq_segments rq = [js ''share'', k]" and "k \<noteq> []"
  shows "\<exists>hs. serve a rq s = (s, Some (200, hs, page_html before after (share_data (app_settings a) k)))"
proof (rule serve_page [OF assms(2)])
  show "dynamicMux a rq (s, secured_writer) =
      Returned (s, renderPage (base_template before after) (share_data (app_settings a) k) secured_writer)"
    using assms by (simp add: dynamicMux_def dynamic_route_def is_get_def SharePage_handler_def js_simps)
qed (simp_all add: assms share_data_def js_simps)

text \<open>What the script of a share page reads as its ID, and that serving the page leaves the stores alone.\<close>

lemma served_share_tag:
  assumes "p_templates a = base_template before after" and "rq_method rq = js ''GET''"
    and "rq_segments rq = [js ''share'', k]" and "k \<noteq> []"
    and "serve a rq s = (s', Some (c, hs, html))"
    and "page_root before (share_data (app_settings a) k) html = Some (t, rest)"
  shows "s' = s" and "data_attr ''data-share-id'' t = Some (browser_text k)"
proof -
  let ?pd = "share_data (app_settings a) k"
  have served: "s' = s" "html = page_html before after ?pd" using serve_share [OF assms(1-4), of s] assms(5) by auto
  show "s' = s" by (rule served(1))
  have "read_tag (main_tag ?pd @ after ?pd) = Some (t, rest)" using assms(6) by (simp add: served(2) page_root_html)
  from main_data(3) [OF this] show "data_attr ''data-share-id'' t = Some (browser_text k)"
    by (simp add: share_data_def js_simps)
qed

lemma served_id_tag:
  assumes "p_templates a = base_template before after" and "rq_method rq = js ''GET''"
    and "rq_segments rq = [js ''share'', k]" and "hex_id k"
    and "serve a rq s = (s', Some (c, hs, html))"
    and "page_root before (share_data (app_settings a) k) html = Some (t, rest)"
  shows "s' = s" and "data_attr ''data-share-id'' t = Some k"
  using served_share_tag [OF assms(1-3) _ assms(5,6)] hex_id_plain [OF assms(4)] browser_text_id [of k] by simp_all

section \<open>The limit of the create page\<close>

text \<open>No event changes the limit the page was started with.\<close>

lemma step_max_ttl: "max_ttl (create_step pf p e) = max_ttl p"
proof (cases e)
  case (Submit windowConfirm close)
  then show ?thesis
    by (cases rule: submit_start_cases [of pf windowConfirm close p]) (simp_all add: create_step_def)
next
  case (Reply outcome rnd)
  show ?thesis
  proof (cases "in_flight p")
    case (Some mt)
    then obtain m t k where "in_flight p = Some (m, t, k)" by (cases mt) auto
    from submit_finish_fields(2) [OF this] Reply show ?thesis by (simp add: create_step_def)
  qed (simp add: Reply create_step_def submit_finish_def)
qed (simp_all add: create_step_def type_message_def choose_preset_def type_custom_def
    new_note_def copy_share_url_def set_page_status_def Let_def split_beta split: sum.split)

lemma run_max_ttl: "max_ttl (foldl (create_step pf) p es) = max_ttl p"
  by (induction es arbitrary: p) (simp_all add: step_max_ttl)

lemma init_max_ttl: "init_create_page attr canShare doc = Inr p \<Longrightarrow> max_ttl p = page_max_ttl attr"
  by (auto simp: init_create_page_def Let_def bindR_def split: sum.splits)

lemma app_limit:
  "60 \<le> maxTTL (app_settings a) div second" "maxTTL (app_settings a) div second \<le> 604800"
  "page_max_ttl (Some (maxTTL (app_settings a) div second)) = nat (maxTTL (app_settings a) div second)"
proof -
  have ok: "settings_ok (app_settings a)" unfolding app_settings_def by (intro setters_ok New_ok)
  then have "minTTL div second \<le> maxTTL (app_settings a) div second"
    "maxTTL (app_settings a) div second \<le> maxAllowedTTL div second"
    by (auto intro!: zdiv_mono1 simp: settings_ok_def second_def)
  then show "60 \<le> maxTTL (app_settings a) div second" "maxTTL (app_settings a) div second \<le> 604800"
    by (simp_all add: duration_defs)
  then show "page_max_ttl (Some (maxTTL (app_settings a) div second)) = nat (maxTTL (app_settings a) div second)"
    by (simp add: page_max_ttl_def maxTTLSeconds_def)
qed

section \<open>Properties\<close>

text \<open>C15: The create page never asks for an expiry the server rejects. The page is served at \<open>/\<close> with the
  server's longest time to live in its tag; the script reads the tag, sets up the controls, and then, whatever
  the user does and whatever is answered, every request it sends asks for a number of seconds that this server
  accepts as it is.\<close>
theorem requested_expiry_accepted:
  assumes "p_templates a = base_template before after" and "rq_method rq = js ''GET''" and "rq_segments rq = [[]]"
    and "serve a rq s = (s', Some (200, hs, html))"
    and "page_root before (home_data (app_settings a)) html = Some (t, rest)"
    and "init_create_page (attr_number ''data-max-ttl-seconds'' t) canShare doc = Inr p"
    and "document_ok (presets (form doc))" and "at_most_one_checked (presets (form doc))"
    and "ledger_ok (net doc)" and "\<not> submit_disabled doc" and "in_flight doc = None"
  shows "\<exists>ttls. wire (net (foldl (create_step pf) p es)) = wire (net doc) @ map create_request ttls \<and>
    list_all (\<lambda>n. request_ttl (app_settings a) (int n) = Some (int n * second)) ttls"
proof -
  let ?pd = "home_data (app_settings a)" and ?max = "maxTTL (app_settings a) div second"
  have "html = page_html before after ?pd" using serve_home [OF assms(1-3), of s] assms(4) by auto
  then have tag: "read_tag (main_tag ?pd @ after ?pd) = Some (t, rest)" using assms(5) by (simp add: page_root_html)
  have "attr_number ''data-max-ttl-seconds'' t = Some ?max"
    using main_data(5) [OF tag] app_limit [of a] by (simp add: home_data_def js_simps)
  then have limit: "max_ttl (foldl (create_step pf) p es) = nat ?max"
    using init_max_ttl [OF assms(6)] app_limit(3) [of a] by (simp add: run_max_ttl)
  have "create_init (wire (net doc)) p" using assms(6-11) unfolding create_init_def by blast
  from create_machine.inv_run [OF this, of pf es] obtain ttls
    where ttls: "wire (net (foldl (create_step pf) p es)) = wire (net doc) @ map create_request ttls"
      "\<forall>n \<in> set ttls. 60 \<le> n \<and> n \<le> nat ?max"
    unfolding create_inv_def create_requests_def limit by blast
  have "request_ttl (app_settings a) (int n) = Some (int n * second)" if "n \<in> set ttls" for n
  proof -
    have "60 \<le> int n" "int n \<le> ?max" using ttls(2) that by auto
    then show ?thesis by (simp add: request_ttl_def minTTL_def second_def)
  qed
  with ttls(1) show ?thesis by (auto simp: list_all_iff)
qed

text \<open>An example: the application with its default settings and templates without text around the tag.\<close>

definition bare_app :: "unit app_parts" where
  "bare_app = example_parts\<lparr>p_auto_hide := 60, p_max_ttl := maxAllowedTTL, p_templates := base_template (\<lambda>_. []) (\<lambda>_. [])\<rparr>"

lemma bare_settings: "app_settings bare_app = \<lparr>autoHide = 60, maxTTL = maxAllowedTTL\<rparr>"
  by (simp add: app_settings_def bare_app_def SetMaxTTL_def SetAutoHideSeconds_def New_def duration_defs)

theorem requested_expiry_accepted_witness:
  "\<exists>ttls. wire (net (foldl (create_step template_platform) started_page [TypeMessage (js ''secret''), Submit True Dismissed])) =
     wire (net template_page) @ map create_request ttls \<and>
     list_all (\<lambda>n. request_ttl (app_settings bare_app) (int n) = Some (int n * second)) ttls"
proof -
  let ?rq = "example_request ''GET'' [[]]" and ?pd = "home_data (app_settings bare_app)"
  have a: "p_templates bare_app = base_template (\<lambda>_. []) (\<lambda>_. [])" "rq_method ?rq = js ''GET''" "rq_segments ?rq = [[]]"
    by (simp_all add: bare_app_def example_request_def)
  obtain hs where served: "serve bare_app ?rq () = ((), Some (200, hs, page_html (\<lambda>_. []) (\<lambda>_. []) ?pd))"
    using serve_home [OF a, of "()"] by blast
  obtain t where root: "page_root (\<lambda>_. []) ?pd (page_html (\<lambda>_. []) (\<lambda>_. []) ?pd) = Some (t, [])"
    using read_main_tag [of ?pd "[]"] by (simp add: page_root_html home_data_def js_simps)
  have "attr_number ''data-max-ttl-seconds'' t = Some 604800"
    using main_data(5) [of ?pd "[]" t "[]"] root
    by (simp add: page_root_html home_data_def js_simps bare_settings duration_defs)
  then have started: "init_create_page (attr_number ''data-max-ttl-seconds'' t) False template_page = Inr started_page"
    by (simp add: started_by_template)
  show ?thesis
    by (rule requested_expiry_accepted [OF a served root started])
      (simp_all add: template_document template_net)
qed

text \<open>C16: The share page is told the ID in its address, and nothing else can get into its tag. For every ID, a text
  chosen by whoever made the link, the application answers with the page; the browser reads out of the opening tag the five
  attributes of the template, the kind of the page, the configured seconds, and the ID with its newlines
  normalised and its null characters replaced: the ID itself exactly when it has neither a null character nor a
  carriage return. The tag ends where the template ends it.\<close>
theorem share_page_told:
  assumes "p_templates a = base_template before after" and "rq_method rq = js ''GET''"
    and "rq_segments rq = [js ''share'', k]" and "k \<noteq> []" and "autoHide (app_settings a) < 2 ^ 63"
    and "pd = share_data (app_settings a) k"
  shows "\<exists>hs html t. serve a rq s = (s, Some (200, hs, html)) \<and>
    page_root before pd html = Some (t, normalize_newlines (after pd)) \<and> tag_name t = js ''main'' \<and>
    map fst (tag_attrs t) = map js [''class'', ''data-page'', ''data-share-id'', ''data-autohide-seconds'', ''data-max-ttl-seconds''] \<and>
    data_attr ''data-page'' t = Some (js ''share'') \<and>
    data_attr ''data-share-id'' t = Some (map no_null (normalize_newlines k)) \<and>
    (data_attr ''data-share-id'' t = Some k \<longleftrightarrow> 0 \<notin> set k \<and> 13 \<notin> set k) \<and>
    attr_number ''data-autohide-seconds'' t = Some (autoHide (app_settings a))"
proof -
  let ?t = "\<lparr>tag_name = js ''main'', tag_attrs = main_attrs pd\<rparr>"
  have tag: "read_tag (main_tag pd @ after pd) = Some (?t, normalize_newlines (after pd))" by (rule read_main_tag)
  have "settings_ok (app_settings a)" unfolding app_settings_def by (intro setters_ok New_ok)
  then have "attr_number ''data-autohide-seconds'' ?t = Some (autoHide (app_settings a))"
    using main_data(4) [OF tag] assms(5,6) by (simp add: share_data_def settings_ok_def)
  moreover have share: "browser_text (js ''share'') = js ''share''" by (simp add: browser_text_id js_simps)
  have "data_attr ''data-page'' ?t = Some (js ''share'')" "data_attr ''data-share-id'' ?t = Some (browser_text k)"
    using main_data(2,3) [OF tag] assms(6) share by (simp_all add: share_data_def)
  moreover have "map fst (tag_attrs ?t) = map js [''class'', ''data-page'', ''data-share-id'', ''data-autohide-seconds'', ''data-max-ttl-seconds'']"
    by (simp add: main_attrs_def)
  moreover have "page_root before pd (page_html before after pd) = Some (?t, normalize_newlines (after pd))"
    by (simp only: page_root_html tag)
  moreover obtain hs where "serve a rq s = (s, Some (200, hs, page_html before after pd))"
    using serve_share [OF assms(1-4), of s] assms(6) by blast
  moreover have "data_attr ''data-share-id'' ?t = Some k \<longleftrightarrow> 0 \<notin> set k \<and> 13 \<notin> set k"
    using calculation(3) browser_text_id [of k] by simp
  ultimately show ?thesis
    unfolding browser_text_def [symmetric]
    by (intro exI [of _ hs] exI [of _ "page_html before after pd"] exI [of _ ?t] conjI) simp_all
qed

theorem share_page_told_witness:
  "\<exists>hs html t. serve bare_app (example_request ''GET'' [js ''share'', js ''\" onclick=x'']) () = ((), Some (200, hs, html)) \<and>
    data_attr ''data-share-id'' t = Some (js ''\" onclick=x'') \<and>
    page_root (\<lambda>_. []) (share_data (app_settings bare_app) (js ''\" onclick=x'')) html = Some (t, [])"
proof -
  let ?k = "js ''\" onclick=x''"
  have "p_templates bare_app = base_template (\<lambda>_. []) (\<lambda>_. [])" "rq_method (example_request ''GET'' [js ''share'', ?k]) = js ''GET''"
    "rq_segments (example_request ''GET'' [js ''share'', ?k]) = [js ''share'', ?k]"
    by (simp_all add: bare_app_def example_request_def)
  note told = share_page_told [OF this _ _ refl, of "()"]
  have "?k \<noteq> []" "autoHide (app_settings bare_app) < 2 ^ 63" "0 \<notin> set ?k \<and> 13 \<notin> set ?k"
    by (simp_all add: js_simps bare_settings)
  with told show ?thesis by simp blast
qed

end
