(* ===== verification/Confidential.thy ===== *)
theory Confidential
  imports CreateSpec
begin

text \<open>
  What the server can learn from the create page, as a statement on two runs. The user types different notes
  in them and does the same otherwise, and the server answers the same; then all requests and the whole ledger
  are the same. Of a note only two facts can show: whether it is blank, and whether it is above the size from
  which the page asks back.
\<close>

section \<open>Pages that differ in the note\<close>

definition alike_notes :: "jsstring \<Rightarrow> jsstring \<Rightarrow> bool" where
  "alike_notes m n \<longleftrightarrow> (trim m = [] \<longleftrightarrow> trim n = []) \<and>
     (softPlaintextLimitBytes < byteLength m \<longleftrightarrow> softPlaintextLimitBytes < byteLength n)"

definition expiry_of :: "(jsstring \<times> nat \<times> nat option) option \<Rightarrow> (nat \<times> nat option) option" where
  "expiry_of = map_option snd"

definition alike_pages :: "create_page \<Rightarrow> create_page \<Rightarrow> bool" where
  "alike_pages p q \<longleftrightarrow> form p = form q \<and> alike_notes (message p) (message q) \<and> result_hidden p = result_hidden q \<and>
     submit_disabled p = submit_disabled q \<and> show_modal (size_warning p) = show_modal (size_warning q) \<and>
     return_value (size_warning p) = return_value (size_warning q) \<and> net p = net q \<and> max_ttl p = max_ttl q \<and>
     expiry_of (in_flight p) = expiry_of (in_flight q)"

text \<open>The events: any notes that are alike, the same choices, and replies with the same randomness, of which the
  vector has the length the script asks for.\<close>

fun alike_events :: "'aes create_event \<Rightarrow> 'aes create_event \<Rightarrow> bool" where
  "alike_events (TypeMessage m) e \<longleftrightarrow> (\<exists>n. e = TypeMessage n \<and> alike_notes m n)"
| "alike_events (Reply outcome rnd) e \<longleftrightarrow> e = Reply outcome rnd \<and> length (fresh_iv rnd) = 12"
| "alike_events (CopyLink cb) e \<longleftrightarrow> (\<exists>cb'. e = CopyLink cb')"
| "alike_events d e \<longleftrightarrow> d = e"

section \<open>Whether a note can be encrypted does not depend on it\<close>

lemma encryption_uniform:
  assumes "aes_ok wc" and "0x8000 \<le> argLimit" and "length (fresh_iv rnd) = 12"
  shows "(\<exists>e. \<forall>m. encryptMessage argLimit wc rnd pem m = Some (Inl e)) \<or>
    (\<forall>m. \<exists>enc. encryptMessage argLimit wc rnd pem m = Some (Inr enc))"
proof -
  let ?key = "fresh_aes rnd"
  obtain raw where raw: "export_raw wc ?key = Inr raw" using assms(1) unfolding aes_ok_def by blast
  have gen: "generate_aes wc ?key = Inr ?key" using assms(1) unfolding aes_ok_def by blast
  have gcm: "\<exists>c. gcm_encrypt wc ?key (fresh_iv rnd) p = Inr c" for p
    using assms(1,3) unfolding aes_ok_def by blast
  have chunk: "0 < chunkSizeForPlaintext n" "chunkSizeForPlaintext n \<le> argLimit" for n
    using chunkSizeForPlaintext_bounds [of n] assms(2) by linarith+
  have unfolded: "encryptMessage argLimit wc rnd pem m = bindO (Some (importRsaPublicKey wc pem)) (\<lambda>publicKey.
      bindO (Some (rsa_encrypt wc publicKey (oaep_seed rnd) raw)) (\<lambda>w.
        Some (Inr \<lparr>wrapped = b64url w, iv = b64url (fresh_iv rnd),
          ct = b64url (projr (gcm_encrypt wc ?key (fresh_iv rnd) (text_encode m)))\<rparr>)))" for m
    using gcm [of "text_encode m"]
    by (auto simp: encryptMessage_def generateAesKey_def Let_def gen raw bytesToBase64URL_result chunk)
  show ?thesis
  proof (cases "importRsaPublicKey wc pem")
    case (Inr publicKey)
    then show ?thesis
      by (cases "rsa_encrypt wc publicKey (oaep_seed rnd) raw") (simp_all add: unfolded)
  qed (simp add: unfolded)
qed

lemma prefix_long: "length p \<le> length x \<Longrightarrow> prefix p (x @ y) \<longleftrightarrow> prefix p x"
  by (auto simp: prefix_def append_eq_append_conv2)

text \<open>Nor does whether the link made of it can be shown.\<close>

lemma anatomy_uniform:
  assumes "buildShareURL origin keyId enc = Inr link" and "buildShareURL origin keyId enc' = Inr link'"
  shows "isl (renderAnatomy loc link) \<longleftrightarrow> isl (renderAnatomy loc link')"
proof -
  obtain eid f f' where "encodeURIComponent keyId = Inr eid" "link = (origin @ js ''/share/'' @ eid @ js ''#'') @ f"
    "link' = (origin @ js ''/share/'' @ eid @ js ''#'') @ f'"
    using assms by (cases "encodeURIComponent keyId") (auto simp: buildShareURL_def Let_def)
  moreover have "length (js ''https://'') \<le> length (origin @ js ''/share/'' @ eid @ js ''#'')"
    "length (js ''http://'') \<le> length (origin @ js ''/share/'' @ eid @ js ''#'')"
    by (simp_all add: js_simps)
  ultimately have "prefix (js ''https://'') link = prefix (js ''https://'') link'"
    "prefix (js ''http://'') link = prefix (js ''http://'') link'"
    by (metis prefix_long)+
  then show ?thesis
    by (simp add: renderAnatomy_def splitShareURL_def parse_url_def bindR_def)
qed

section \<open>One event\<close>

lemma show_link_hidden:
  "result_hidden (show_link pf ttl link p) \<longleftrightarrow> isl (renderAnatomy (locale_number pf) link) \<and> result_hidden p"
  by (simp add: show_link_def set_page_status_def Let_def split_beta split: sum.split)

lemma show_link_others:
  "form (show_link pf ttl link p) = form p" "message (show_link pf ttl link p) = message p"
  "size_warning (show_link pf ttl link p) = size_warning p" "net (show_link pf ttl link p) = net p"
  "max_ttl (show_link pf ttl link p) = max_ttl p"
  by (simp_all add: show_link_def set_page_status_def Let_def split_beta split: sum.split)

lemma start_alike:
  assumes "alike_pages p q"
  shows "alike_pages (submit_start pf windowConfirm close p) (submit_start pf windowConfirm close q)"
proof -
  have confirm: "snd (confirmLargeMessage loc windowConfirm close b (size_warning p)) =
      snd (confirmLargeMessage loc windowConfirm close b' (size_warning q))"
    "show_modal (fst (confirmLargeMessage loc windowConfirm close b (size_warning p))) =
      show_modal (fst (confirmLargeMessage loc windowConfirm close b' (size_warning q)))"
    "return_value (fst (confirmLargeMessage loc windowConfirm close b (size_warning p))) =
      return_value (fst (confirmLargeMessage loc windowConfirm close b' (size_warning q)))" for loc b b'
    using assms
    by (simp_all add: alike_pages_def confirmLargeMessage_def close_dialog_def Let_def split: dialog_close.split)
  have texts: "trim (message p) = [] \<longleftrightarrow> trim (message q) = []"
    "softPlaintextLimitBytes < byteLength (message p) \<longleftrightarrow> softPlaintextLimitBytes < byteLength (message q)"
    using assms by (simp_all add: alike_pages_def alike_notes_def)
  show ?thesis
  proof (cases "trim (message q) = [] \<or> isl (selectedTTL (locale_number pf) (form q) (max_ttl q))")
    case True
    with assms texts(1) show ?thesis
      by (auto simp: submit_start_def set_page_status_def alike_pages_def Let_def split: sum.split)
  next
    case False
    then obtain ttl where "selectedTTL (locale_number pf) (form q) (max_ttl q) = Inr ttl" "trim (message q) \<noteq> []"
      by (cases "selectedTTL (locale_number pf) (form q) (max_ttl q)") auto
    with assms texts confirm [of "locale_number pf" "byteLength (message p)" "byteLength (message q)"] show ?thesis
      by (cases "softPlaintextLimitBytes < byteLength (message q)")
        (simp_all add: submit_start_def set_page_status_def alike_pages_def Let_def split_beta expiry_of_def)
  qed
qed

lemma finish_alike:
  assumes like: "alike_pages p q" and "aes_ok (crypto pf)" and "0x8000 \<le> arg_limit pf" and "length (fresh_iv rnd) = 12"
  shows "alike_pages (submit_finish pf outcome rnd p) (submit_finish pf outcome rnd q)"
proof (cases "in_flight p")
  case None
  then have "in_flight q = None" using like by (simp add: alike_pages_def expiry_of_def)
  with None like show ?thesis by (simp add: submit_finish_def)
next
  case (Some x)
  obtain m ttl entry where p: "in_flight p = Some (m, ttl, entry)" using Some by (cases x) auto
  then obtain n where q: "in_flight q = Some (n, ttl, entry)"
    using like by (cases "in_flight q") (auto simp: alike_pages_def expiry_of_def)
  have net: "net q = net p" using like by (simp add: alike_pages_def)
  obtain net' reply where reply: "createKey_finish entry outcome (net p) = (net', reply)"
    by (cases "createKey_finish entry outcome (net p)")
  show ?thesis
  proof (cases reply)
    case (Inl e)
    with like p q reply net show ?thesis
      by (simp add: submit_finish_def set_page_status_def alike_pages_def expiry_of_def)
  next
    case (Inr key)
    let ?enc = "encryptMessage (arg_limit pf) (crypto pf) rnd (reply_pub key)"
    consider (fails) e where "\<And>m. ?enc m = Some (Inl e)" | (works) "\<And>m. \<exists>enc. ?enc m = Some (Inr enc)"
      using encryption_uniform [OF assms(2-4), of "reply_pub key"] by blast
    then show ?thesis
    proof cases
      case fails
      with Inr like p q reply net show ?thesis
        by (simp add: submit_finish_def set_page_status_def alike_pages_def expiry_of_def)
    next
      case works
      obtain enc enc' where enc: "?enc m = Some (Inr enc)" "?enc n = Some (Inr enc')" using works by blast
      show ?thesis
      proof (cases "encodeURIComponent (reply_id key)")
        case (Inl e)
        with Inr like p q reply net enc show ?thesis
          by (simp add: submit_finish_def set_page_status_def alike_pages_def expiry_of_def buildShareURL_def Let_def)
      next
        case (Inr eid)
        obtain link link' where link: "buildShareURL (page_origin pf) (reply_id key) enc = Inr link"
          "buildShareURL (page_origin pf) (reply_id key) enc' = Inr link'"
          by (simp add: buildShareURL_def Inr Let_def)
        from \<open>reply = Inr key\<close> like p q reply net enc link anatomy_uniform [OF link, of "locale_number pf"] show ?thesis
          by (simp add: submit_finish_def alike_pages_def expiry_of_def show_link_hidden show_link_others)
      qed
    qed
  qed
qed

lemma step_alike:
  assumes like: "alike_pages p q" and events: "alike_events e f" and "aes_ok (crypto pf)" and "0x8000 \<le> arg_limit pf"
  shows "alike_pages (create_step pf p e) (create_step pf q f)"
proof (cases e)
  case (Submit windowConfirm close)
  then have "f = Submit windowConfirm close" using events by simp
  moreover have "submit_disabled q = submit_disabled p" using like by (simp add: alike_pages_def)
  ultimately show ?thesis
    using Submit start_alike [OF like, of pf windowConfirm close] like by (cases "submit_disabled p") (simp_all add: create_step_def)
next
  case (Reply outcome rnd)
  with events finish_alike [OF like assms(3,4)] show ?thesis by (simp add: create_step_def)
next
  case NewNote
  then have f: "f = NewNote" using events by simp
  have blank: "alike_notes [] []" by (simp add: alike_notes_def)
  have same: "form p = form q" "max_ttl p = max_ttl q" "result_hidden p = result_hidden q"
    using like by (simp_all add: alike_pages_def)
  have "alike_pages (new_note pf p) (new_note pf q)"
  proof (cases "result_hidden q")
    case False
    then show ?thesis
      using like blank
      by (cases "configureExpiryOptions (max_ttl q) (reset_expiry (form q))")
        (simp_all add: new_note_def same alike_pages_def set_page_status_def Let_def)
  qed (use like in \<open>simp add: new_note_def same\<close>)
  with NewNote f show ?thesis by (simp add: create_step_def)
next
  case (CopyLink cb)
  then obtain cb' where f: "f = CopyLink cb'" using events by auto
  have copied: "form (copy_share_url c x) = form x" "message (copy_share_url c x) = message x"
    "result_hidden (copy_share_url c x) = result_hidden x" "submit_disabled (copy_share_url c x) = submit_disabled x"
    "size_warning (copy_share_url c x) = size_warning x" "net (copy_share_url c x) = net x"
    "max_ttl (copy_share_url c x) = max_ttl x" "in_flight (copy_share_url c x) = in_flight x" for c x
    by (simp_all add: copy_share_url_def set_page_status_def Let_def split_beta split: sum.split)
  show ?thesis using CopyLink f like by (simp add: create_step_def alike_pages_def copied)
next
  case (TypeMessage m)
  then show ?thesis using like events by (auto simp: create_step_def type_message_def alike_pages_def)
next
  case (ChoosePreset k)
  then have "f = ChoosePreset k" using events by simp
  with ChoosePreset like show ?thesis by (simp add: create_step_def choose_preset_def alike_pages_def Let_def)
next
  case (TypeCustom n)
  then have "f = TypeCustom n" using events by simp
  with TypeCustom like show ?thesis by (simp add: create_step_def type_custom_def alike_pages_def)
next
  case CopyTimer
  then have "f = CopyTimer" using events by simp
  with CopyTimer like show ?thesis by (simp add: create_step_def alike_pages_def)
qed

lemma run_alike_pages:
  assumes "aes_ok (crypto pf)" and "0x8000 \<le> arg_limit pf"
  shows "list_all2 alike_events es fs \<Longrightarrow> alike_pages p q \<Longrightarrow> alike_pages (foldl (create_step pf) p es) (foldl (create_step pf) q fs)"
  by (induction es fs arbitrary: p q rule: list_all2_induct) (simp_all add: step_alike assms)

lemma byteLength_ascii: "ascii s \<Longrightarrow> byteLength s = length s"
proof -
  assume "ascii s"
  then have "text_encode s = concat (map (\<lambda>u. [of_nat (unat u)]) s)"
    unfolding text_encode_def code_points_ascii [OF \<open>ascii s\<close>] map_map
    by (intro arg_cong [where f = concat] map_cong) (auto simp: ascii_def list_all_iff utf8_cp_def)
  then show ?thesis by (simp add: byteLength_def length_concat comp_def sum_list_triv)
qed

section \<open>Properties\<close>

text \<open>C5: The server learns nothing of a note. Take two runs of the create page from the same page, in which the user
  types notes that are both blank or both not, and both above the size of the warning or both not, and does
  the same otherwise, with the same answers from the server and with Web Crypto as documented. Then both runs
  have sent the same requests and show the same ledger.\<close>
theorem requests_hide_note:
  assumes "aes_ok (crypto pf)" and "0x8000 \<le> arg_limit pf" and "list_all2 alike_events es fs"
  shows "net (foldl (create_step pf) p es) = net (foldl (create_step pf) p fs)"
proof -
  have "alike_pages p p" by (simp add: alike_pages_def alike_notes_def)
  from run_alike_pages [OF assms this] show ?thesis by (simp add: alike_pages_def)
qed

theorem requests_hide_note_witness:
  "net (foldl (create_step template_platform) started_page
      [TypeMessage (js ''secret''), Submit True Dismissed, Reply (Some created_reply) fixed_randomness, NewNote]) =
   net (foldl (create_step template_platform) started_page
      [TypeMessage (js ''x''), Submit True Dismissed, Reply (Some created_reply) fixed_randomness, NewNote])"
proof (rule requests_hide_note)
  have "ascii (js ''secret'')" "ascii (js ''x'')" by (simp_all add: js_simps)
  then have "byteLength (js ''secret'') = 6" "byteLength (js ''x'') = 1" by (simp_all add: byteLength_ascii js_simps)
  moreover have "trim (js ''secret'') \<noteq> []" "trim (js ''x'') \<noteq> []"
    by (simp_all add: trim_eq_Nil_iff js_simps is_space_def)
  ultimately have "alike_notes (js ''secret'') (js ''x'')" by (simp add: alike_notes_def softPlaintextLimitBytes_def)
  then show "list_all2 alike_events
      [TypeMessage (js ''secret''), Submit True Dismissed, Reply (Some created_reply) fixed_randomness, NewNote]
      [TypeMessage (js ''x''), Submit True Dismissed, Reply (Some created_reply) fixed_randomness, NewNote]"
    by (simp add: fixed_randomness_def)
qed (simp_all add: template_platform_def plain_crypto_ok)

end
