(* ===== verification/QrCode.thy ===== *)
theory QrCode
  imports CreatePage GoDuration
begin

text \<open>
  \<open>static/qrcode.js\<close>, the QR library the create page draws its links with, from the text to the data of the
  code: the size of the code that is chosen for a text, and the bits that are put into it. \<open>makeCode\<close> throws
  when no size is large enough. The error correction, the placing of the bits and the drawing are not
  modelled; they do not depend on the length of the text.
\<close>

unbundle bit_operations_syntax

section \<open>Tables\<close>

text \<open>The levels of error correction; the columns of the two tables are in this order.\<close>

datatype qr_level = LevelL | LevelM | LevelQ | LevelH

fun level_column :: "qr_level \<Rightarrow> nat" where
  "level_column LevelL = 0"
| "level_column LevelM = 1"
| "level_column LevelQ = 2"
| "level_column LevelH = 3"

text \<open>How many bytes a code of each type holds (the variable \<open>l\<close>).\<close>

definition type_capacity :: "nat list list" where
  "type_capacity =
     [[17, 14, 11, 7], [32, 26, 20, 14], [53, 42, 32, 24], [78, 62, 46, 34], [106, 84, 60, 44],
      [134, 106, 74, 58], [154, 122, 86, 64], [192, 152, 108, 84], [230, 180, 130, 98], [271, 213, 151, 119],
      [321, 251, 177, 137], [367, 287, 203, 155], [425, 331, 241, 177], [458, 362, 258, 194], [520, 412, 292, 220],
      [586, 450, 322, 250], [644, 504, 364, 280], [718, 560, 394, 310], [792, 624, 442, 338], [858, 666, 482, 382],
      [929, 711, 509, 403], [1003, 779, 565, 439], [1091, 857, 611, 461], [1171, 911, 661, 511], [1273, 997, 715, 535],
      [1367, 1059, 751, 593], [1465, 1125, 805, 625], [1528, 1190, 868, 658], [1628, 1264, 908, 698], [1732, 1370, 982, 742],
      [1840, 1452, 1030, 790], [1952, 1538, 1112, 842], [2068, 1628, 1168, 898], [2188, 1722, 1228, 958], [2303, 1809, 1283, 983],
      [2431, 1911, 1351, 1051], [2563, 1989, 1423, 1093], [2699, 2099, 1499, 1139], [2809, 2213, 1579, 1219], [2953, 2331, 1663, 1273]]"

text \<open>The blocks of a code, four rows for a type: how many, their bytes, and their data bytes.\<close>

definition RS_BLOCK_TABLE :: "nat list list" where
  "RS_BLOCK_TABLE =
     [[1, 26, 19], [1, 26, 16], [1, 26, 13], [1, 26, 9], [1, 44, 34],
      [1, 44, 28], [1, 44, 22], [1, 44, 16], [1, 70, 55], [1, 70, 44],
      [2, 35, 17], [2, 35, 13], [1, 100, 80], [2, 50, 32], [2, 50, 24],
      [4, 25, 9], [1, 134, 108], [2, 67, 43], [2, 33, 15, 2, 34, 16], [2, 33, 11, 2, 34, 12],
      [2, 86, 68], [4, 43, 27], [4, 43, 19], [4, 43, 15], [2, 98, 78],
      [4, 49, 31], [2, 32, 14, 4, 33, 15], [4, 39, 13, 1, 40, 14], [2, 121, 97], [2, 60, 38, 2, 61, 39],
      [4, 40, 18, 2, 41, 19], [4, 40, 14, 2, 41, 15], [2, 146, 116], [3, 58, 36, 2, 59, 37], [4, 36, 16, 4, 37, 17],
      [4, 36, 12, 4, 37, 13], [2, 86, 68, 2, 87, 69], [4, 69, 43, 1, 70, 44], [6, 43, 19, 2, 44, 20], [6, 43, 15, 2, 44, 16],
      [4, 101, 81], [1, 80, 50, 4, 81, 51], [4, 50, 22, 4, 51, 23], [3, 36, 12, 8, 37, 13], [2, 116, 92, 2, 117, 93],
      [6, 58, 36, 2, 59, 37], [4, 46, 20, 6, 47, 21], [7, 42, 14, 4, 43, 15], [4, 133, 107], [8, 59, 37, 1, 60, 38],
      [8, 44, 20, 4, 45, 21], [12, 33, 11, 4, 34, 12], [3, 145, 115, 1, 146, 116], [4, 64, 40, 5, 65, 41], [11, 36, 16, 5, 37, 17],
      [11, 36, 12, 5, 37, 13], [5, 109, 87, 1, 110, 88], [5, 65, 41, 5, 66, 42], [5, 54, 24, 7, 55, 25], [11, 36, 12],
      [5, 122, 98, 1, 123, 99], [7, 73, 45, 3, 74, 46], [15, 43, 19, 2, 44, 20], [3, 45, 15, 13, 46, 16], [1, 135, 107, 5, 136, 108],
      [10, 74, 46, 1, 75, 47], [1, 50, 22, 15, 51, 23], [2, 42, 14, 17, 43, 15], [5, 150, 120, 1, 151, 121], [9, 69, 43, 4, 70, 44],
      [17, 50, 22, 1, 51, 23], [2, 42, 14, 19, 43, 15], [3, 141, 113, 4, 142, 114], [3, 70, 44, 11, 71, 45], [17, 47, 21, 4, 48, 22],
      [9, 39, 13, 16, 40, 14], [3, 135, 107, 5, 136, 108], [3, 67, 41, 13, 68, 42], [15, 54, 24, 5, 55, 25], [15, 43, 15, 10, 44, 16],
      [4, 144, 116, 4, 145, 117], [17, 68, 42], [17, 50, 22, 6, 51, 23], [19, 46, 16, 6, 47, 17], [2, 139, 111, 7, 140, 112],
      [17, 74, 46], [7, 54, 24, 16, 55, 25], [34, 37, 13], [4, 151, 121, 5, 152, 122], [4, 75, 47, 14, 76, 48],
      [11, 54, 24, 14, 55, 25], [16, 45, 15, 14, 46, 16], [6, 147, 117, 4, 148, 118], [6, 73, 45, 14, 74, 46], [11, 54, 24, 16, 55, 25],
      [30, 46, 16, 2, 47, 17], [8, 132, 106, 4, 133, 107], [8, 75, 47, 13, 76, 48], [7, 54, 24, 22, 55, 25], [22, 45, 15, 13, 46, 16],
      [10, 142, 114, 2, 143, 115], [19, 74, 46, 4, 75, 47], [28, 50, 22, 6, 51, 23], [33, 46, 16, 4, 47, 17], [8, 152, 122, 4, 153, 123],
      [22, 73, 45, 3, 74, 46], [8, 53, 23, 26, 54, 24], [12, 45, 15, 28, 46, 16], [3, 147, 117, 10, 148, 118], [3, 73, 45, 23, 74, 46],
      [4, 54, 24, 31, 55, 25], [11, 45, 15, 31, 46, 16], [7, 146, 116, 7, 147, 117], [21, 73, 45, 7, 74, 46], [1, 53, 23, 37, 54, 24],
      [19, 45, 15, 26, 46, 16], [5, 145, 115, 10, 146, 116], [19, 75, 47, 10, 76, 48], [15, 54, 24, 25, 55, 25], [23, 45, 15, 25, 46, 16],
      [13, 145, 115, 3, 146, 116], [2, 74, 46, 29, 75, 47], [42, 54, 24, 1, 55, 25], [23, 45, 15, 28, 46, 16], [17, 145, 115],
      [10, 74, 46, 23, 75, 47], [10, 54, 24, 35, 55, 25], [19, 45, 15, 35, 46, 16], [17, 145, 115, 1, 146, 116], [14, 74, 46, 21, 75, 47],
      [29, 54, 24, 19, 55, 25], [11, 45, 15, 46, 46, 16], [13, 145, 115, 6, 146, 116], [14, 74, 46, 23, 75, 47], [44, 54, 24, 7, 55, 25],
      [59, 46, 16, 1, 47, 17], [12, 151, 121, 7, 152, 122], [12, 75, 47, 26, 76, 48], [39, 54, 24, 14, 55, 25], [22, 45, 15, 41, 46, 16],
      [6, 151, 121, 14, 152, 122], [6, 75, 47, 34, 76, 48], [46, 54, 24, 10, 55, 25], [2, 45, 15, 64, 46, 16], [17, 152, 122, 4, 153, 123],
      [29, 74, 46, 14, 75, 47], [49, 54, 24, 10, 55, 25], [24, 45, 15, 46, 46, 16], [4, 152, 122, 18, 153, 123], [13, 74, 46, 32, 75, 47],
      [48, 54, 24, 14, 55, 25], [42, 45, 15, 32, 46, 16], [20, 147, 117, 4, 148, 118], [40, 75, 47, 7, 76, 48], [43, 54, 24, 22, 55, 25],
      [10, 45, 15, 67, 46, 16], [19, 148, 118, 6, 149, 119], [18, 75, 47, 31, 76, 48], [34, 54, 24, 34, 55, 25], [20, 45, 15, 61, 46, 16]]"

section \<open>Comparing a number with a text\<close>

text \<open>
  \<open>n == s\<close> for a number and a string: JavaScript reads the string as a number. Only numbers that are not
  negative are needed; a decimal number is rounded to the nearest double.
\<close>

definition radix_value :: "nat \<Rightarrow> jsstring \<Rightarrow> nat option" where
  "radix_value base ds =
     (if ds = [] \<or> list_ex (\<lambda>u. case json_hex u of None \<Rightarrow> True | Some d \<Rightarrow> base \<le> d) ds then None
      else Some (foldl (\<lambda>v u. v * base + the (json_hex u)) 0 ds))"

text \<open>The exponent after the digits, which must be all of the rest.\<close>

definition exponent_value :: "jsstring \<Rightarrow> int option" where
  "exponent_value s =
     (if s = [] then Some 0
      else if hd s = 101 \<or> hd s = 69 then
        (let r = tl s; ds = (if r \<noteq> [] \<and> (hd r = 43 \<or> hd r = 45) then tl r else r)
         in if ds = [] \<or> \<not> list_all json_digit ds then None
            else Some (if r \<noteq> [] \<and> hd r = 45 then - int (digits_value ds) else int (digits_value ds)))
      else None)"

definition decimal_value :: "jsstring \<Rightarrow> double option" where
  "decimal_value s =
     (let whole = takeWhile json_digit s; r = dropWhile json_digit s;
          frac = (if r \<noteq> [] \<and> hd r = 46 then takeWhile json_digit (tl r) else []);
          r1 = (if r \<noteq> [] \<and> hd r = 46 then dropWhile json_digit (tl r) else r)
      in if whole @ frac = [] then None
         else map_option (\<lambda>e. round_double (digits_value (whole @ frac) * 10 ^ nat e) (10 ^ length frac * 10 ^ nat (- e)) 0)
           (exponent_value r1))"

definition number_of_string :: "jsstring \<Rightarrow> double option" where
  "number_of_string s =
     (let s1 = trim s
      in if s1 = [] then Some (0, 0)
         else if take 2 s1 \<in> {js ''0x'', js ''0X''} then map_option (\<lambda>n. round_double n 1 0) (radix_value 16 (drop 2 s1))
         else if take 2 s1 \<in> {js ''0o'', js ''0O''} then map_option (\<lambda>n. round_double n 1 0) (radix_value 8 (drop 2 s1))
         else if take 2 s1 \<in> {js ''0b'', js ''0B''} then map_option (\<lambda>n. round_double n 1 0) (radix_value 2 (drop 2 s1))
         else if hd s1 = 43 then decimal_value (tl s1)
         else decimal_value s1)"

definition loosely_equal :: "nat \<Rightarrow> jsstring \<Rightarrow> bool" where
  "loosely_equal n s =
     (case number_of_string s of
        None \<Rightarrow> False
      | Some (m, e) \<Rightarrow> n * 2 ^ nat (- e) = m * 2 ^ nat e)"

section \<open>The size of a code\<close>

text \<open>\<open>encodeURI\<close> leaves more characters than \<open>encodeURIComponent\<close>.\<close>

definition uri_reserved :: "nat \<Rightarrow> bool" where
  "uri_reserved x \<longleftrightarrow> x \<in> {59, 47, 63, 58, 64, 38, 61, 43, 36, 44, 35}"

definition encodeURI :: "jsstring \<Rightarrow> jsstring result" where
  "encodeURI s =
     (if well_formed s then
        Inr (concat (map (\<lambda>c. if uri_unreserved c \<or> uri_reserved c then [of_nat c]
                              else concat (map percent_byte (utf8_cp c))) (code_points s)))
      else Inl URIError)"

text \<open>\<open>replace(/\%[0-9a-fA-F]{2}/g, "a")\<close>.\<close>

fun collapse_escapes :: "jsstring \<Rightarrow> jsstring" where
  "collapse_escapes (u # x # y # s) =
     (if u = 37 \<and> json_hex x \<noteq> None \<and> json_hex y \<noteq> None then 97 # collapse_escapes s
      else u # collapse_escapes (x # y # s))"
| "collapse_escapes s = s"

text \<open>
  The function \<open>s\<close>, the length of a text in bytes. It compares the length with the text itself, not with its
  length, so it adds the three bytes of a byte order mark to every text that is not a numeral.
\<close>

definition byte_count :: "jsstring \<Rightarrow> nat result" where
  "byte_count a =
     bindR (encodeURI a) (\<lambda>e.
       (let n = length (collapse_escapes e) in Inr (n + (if loosely_equal n a then 0 else 3))))"

text \<open>The function \<open>r\<close>; past the last type, reading a column of \<open>undefined\<close> throws.\<close>

fun type_loop :: "nat \<Rightarrow> nat \<Rightarrow> nat \<Rightarrow> nat list list \<Rightarrow> nat result" where
  "type_loop column e c [] = Inl TypeError"
| "type_loop column e c (row # table) = (if e \<le> row ! column then Inr c else type_loop column e (c + 1) table)"

definition typeNumber :: "qr_level \<Rightarrow> jsstring \<Rightarrow> nat result" where
  "typeNumber level a = bindR (byte_count a) (\<lambda>e. type_loop (level_column level) e 1 type_capacity)"

section \<open>The data of a code\<close>

text \<open>
  \<open>QR8bitByte\<close> (the function \<open>a\<close>): the bytes of the text. The array \<open>b\<close> is shared by all characters, so
  bytes of a longer one stay in it.
\<close>

definition char_bytes :: "nat \<Rightarrow> nat list \<Rightarrow> nat list" where
  "char_bytes f b =
     (if 65536 < f then
        [240 OR drop_bit 18 (1835008 AND f), 128 OR drop_bit 12 (258048 AND f), 128 OR drop_bit 6 (4032 AND f), 128 OR 63 AND f]
      else if 2048 < f then
        [224 OR drop_bit 12 (61440 AND f), 128 OR drop_bit 6 (4032 AND f), 128 OR 63 AND f] @ drop 3 b
      else if 128 < f then
        [192 OR drop_bit 6 (1984 AND f), 128 OR 63 AND f] @ drop 2 b
      else [f] @ drop 1 b)"

fun parse_chars :: "nat list \<Rightarrow> jsstring \<Rightarrow> nat list" where
  "parse_chars b [] = []"
| "parse_chars b (u # s) = (let b' = char_bytes (unat u) b in b' @ parse_chars b' s)"

definition parsedData :: "jsstring \<Rightarrow> nat list" where
  "parsedData s = (let d = parse_chars [] s in if length d \<noteq> length s then [239, 187, 191] @ d else d)"

text \<open>\<open>QRBitBuffer.put\<close>: the highest bit first.\<close>

definition put_bits :: "nat \<Rightarrow> nat \<Rightarrow> bool list" where
  "put_bits len n = map (\<lambda>i. odd (n div 2 ^ (len - i - 1))) [0..<len]"

definition getLengthInBits :: "nat \<Rightarrow> nat result" where
  "getLengthInBits t =
     (if 1 \<le> t \<and> t < 10 then Inr 8 else if t < 27 then Inr 16 else if t < 41 then Inr 16
      else Inl (JsError (js ''type:'' @ decimal t)))"

text \<open>\<open>getRSBlocks\<close>: the sizes of the blocks of a code and of their data.\<close>

fun block_sizes :: "nat list \<Rightarrow> (nat \<times> nat) list" where
  "block_sizes (n # k # l # row) = replicate n (k, l) @ block_sizes row"
| "block_sizes row = []"

fun level_number :: "qr_level \<Rightarrow> nat" where
  "level_number LevelL = 1"
| "level_number LevelM = 0"
| "level_number LevelQ = 3"
| "level_number LevelH = 2"

definition getRSBlocks :: "nat \<Rightarrow> qr_level \<Rightarrow> (nat \<times> nat) list result" where
  "getRSBlocks t level =
     (let i = 4 * (t - 1) + level_column level
      in if 1 \<le> t \<and> i < length RS_BLOCK_TABLE then Inr (block_sizes (RS_BLOCK_TABLE ! i))
         else Inl (JsError (js ''bad rs block @ typeNumber:'' @ decimal t @ js ''/errorCorrectLevel:'' @ decimal (level_number level))))"

function pad_bits :: "nat \<Rightarrow> bool list \<Rightarrow> bool list" where
  "pad_bits capacity bs =
     (if capacity \<le> length bs then bs
      else
        (let b1 = bs @ put_bits 8 236
         in if capacity \<le> length b1 then b1 else pad_bits capacity (b1 @ put_bits 8 17)))"
  by pat_completeness auto
termination by (relation "measure (\<lambda>(capacity, bs). capacity - length bs)") (auto simp: put_bits_def)

declare pad_bits.simps [simp del]

text \<open>What the buffer of \<open>createData\<close> holds at first: the mode, the length and the bytes.\<close>

definition segment_bits :: "nat \<Rightarrow> nat list \<Rightarrow> bool list" where
  "segment_bits len d = put_bits 4 4 @ put_bits len (length d) @ concat (map (put_bits 8) d)"

text \<open>\<open>createData\<close> up to \<open>createBytes\<close>: the blocks, and the bits that are split into their data.\<close>

definition createData :: "nat \<Rightarrow> qr_level \<Rightarrow> nat list \<Rightarrow> ((nat \<times> nat) list \<times> bool list) result" where
  "createData t level d =
     bindR (getRSBlocks t level) (\<lambda>blocks. bindR (getLengthInBits t) (\<lambda>len.
       (let bs = segment_bits len d;
            capacity = 8 * sum_list (map snd blocks)
        in if capacity < length bs
           then Inl (JsError (js ''code length overflow. ('' @ decimal (length bs) @ js ''>'' @ decimal capacity @ js '')''))
           else
             (let b1 = (if length bs + 4 \<le> capacity then bs @ put_bits 4 0 else bs);
                  b2 = b1 @ replicate ((8 - length b1 mod 8) mod 8) False
              in Inr (blocks, pad_bits capacity b2)))))"

definition makeCode :: "qr_level \<Rightarrow> jsstring \<Rightarrow> (nat \<times> (nat \<times> nat) list \<times> bool list) result" where
  "makeCode level a =
     bindR (typeNumber level a) (\<lambda>t. map_sum id (Pair t) (createData t level (parsedData a)))"

text \<open>The library as the create page uses it; without a text there is nothing to draw.\<close>

definition qrcode_js :: "jsstring \<Rightarrow> qr_library" where
  "qrcode_js value = (if value \<noteq> [] \<and> throws (makeCode LevelM value) then QRThrows else QRDraws)"

section \<open>The tables agree\<close>

text \<open>What the first table promises fits into the blocks of the second, but for type 15 at the highest level,
  whose row lacks blocks.\<close>

definition header_bits :: "nat \<Rightarrow> nat" where
  "header_bits t = 4 + (if t < 10 then 8 else 16)"

definition data_bytes :: "nat list \<Rightarrow> nat" where
  "data_bytes row = sum_list (map snd (block_sizes row))"

lemma data_bytes_simps [simp]:
  "data_bytes [] = 0" "data_bytes (n # k # l # row) = n * l + data_bytes row"
  by (simp_all add: data_bytes_def sum_list_replicate map_replicate)

definition row_fits :: "nat \<Rightarrow> nat \<Rightarrow> nat list \<Rightarrow> bool" where
  "row_fits t capacity row \<longleftrightarrow> header_bits t + 8 * capacity \<le> 8 * data_bytes row"

fun tables_fit :: "nat \<Rightarrow> nat list list \<Rightarrow> nat list list \<Rightarrow> bool" where
  "tables_fit t ([a, b, c, d] # rows) (l # m # q # h # blocks) \<longleftrightarrow>
     row_fits t a l \<and> row_fits t b m \<and> row_fits t c q \<and> (t = 15 \<or> row_fits t d h) \<and> a < 2 ^ (header_bits t - 4) \<and> b \<le> a \<and> c \<le> a \<and> d \<le> a \<and>
     tables_fit (t + 1) rows blocks"
| "tables_fit t rows blocks \<longleftrightarrow> rows = [] \<and> blocks = []"

lemma tables_agree: "tables_fit 1 type_capacity RS_BLOCK_TABLE"
  unfolding type_capacity_def RS_BLOCK_TABLE_def
  by (simp add: row_fits_def header_bits_def)

lemma tables_fit_length: "tables_fit t rows blocks \<Longrightarrow> length blocks = 4 * length rows"
  by (induction t rows blocks rule: tables_fit.induct) auto

lemma tables_fit_row:
  "tables_fit t rows blocks \<Longrightarrow> i < length rows \<Longrightarrow>
   ((level = LevelH \<and> t + i = 15) \<or> row_fits (t + i) (rows ! i ! level_column level) (blocks ! (4 * i + level_column level))) \<and>
   rows ! i ! level_column level < 2 ^ (header_bits (t + i) - 4)"
proof (induction t rows blocks arbitrary: i rule: tables_fit.induct)
  case (1 t a b c d rows l m q h blocks)
  show ?case
  proof (cases i)
    case 0
    with "1.prems" show ?thesis by (cases level) auto
  next
    case (Suc j)
    with "1.prems" "1.IH" [of j] show ?thesis by (simp add: eval_nat_numeral)
  qed
qed simp_all

lemma table_lengths: "length type_capacity = 40" "length RS_BLOCK_TABLE = 160"
  using tables_fit_length [OF tables_agree] by (simp_all add: type_capacity_def)

text \<open>A type from the table: its blocks hold what the table says, and the length fits into its bits.\<close>

lemma type_blocks:
  fixes level :: qr_level
  assumes "1 \<le> t" and "t \<le> 40"
  defines "i \<equiv> 4 * (t - 1) + level_column level"
  shows "getRSBlocks t level = Inr (block_sizes (RS_BLOCK_TABLE ! i))"
    and "getLengthInBits t = Inr (header_bits t - 4)"
    and "level \<noteq> LevelH \<or> t \<noteq> 15 \<Longrightarrow> n \<le> type_capacity ! (t - 1) ! level_column level \<Longrightarrow>
      header_bits t + 8 * n \<le> 8 * sum_list (map snd (block_sizes (RS_BLOCK_TABLE ! i)))"
    and "n \<le> type_capacity ! (t - 1) ! level_column level \<Longrightarrow> n < 2 ^ (header_bits t - 4)"
proof -
  have "level_column level < 4" by (cases level) simp_all
  with assms(2) show "getRSBlocks t level = Inr (block_sizes (RS_BLOCK_TABLE ! i))"
    using assms(1) by (simp add: getRSBlocks_def i_def table_lengths Let_def less_mult_imp_div_less)
  show "getLengthInBits t = Inr (header_bits t - 4)"
    using assms(1,2) by (auto simp: getLengthInBits_def header_bits_def)
  have "t - 1 < length type_capacity" using assms(1,2) by (simp add: table_lengths)
  note row = tables_fit_row [OF tables_agree this, of level]
  show "header_bits t + 8 * n \<le> 8 * sum_list (map snd (block_sizes (RS_BLOCK_TABLE ! i)))"
    if "level \<noteq> LevelH \<or> t \<noteq> 15" "n \<le> type_capacity ! (t - 1) ! level_column level"
    using row that assms(1) by (auto simp: row_fits_def data_bytes_def i_def)
  show "n < 2 ^ (header_bits t - 4)" if "n \<le> type_capacity ! (t - 1) ! level_column level"
    using row that assms(1) by simp
qed

lemma type_loop_Inr:
  "type_loop column e c rows = Inr t \<Longrightarrow> c \<le> t \<and> t - c < length rows \<and> e \<le> rows ! (t - c) ! column"
proof (induction column e c rows rule: type_loop.induct)
  case (2 column e c row rows)
  show ?case
  proof (cases "e \<le> row ! column")
    case False
    with "2.prems" "2.IH" have "c + 1 \<le> t \<and> t - (c + 1) < length rows \<and> e \<le> rows ! (t - (c + 1)) ! column" by simp
    moreover from this have "t - c = Suc (t - (c + 1))" by arith
    ultimately show ?thesis by simp
  qed (use "2.prems" in simp)
qed simp

lemma type_loop_throws: "throws (type_loop column e c rows) \<longleftrightarrow> list_all (\<lambda>row. row ! column < e) rows"
  by (induction column e c rows rule: type_loop.induct) auto

lemma largest_code: "throws (type_loop (level_column LevelM) e 1 type_capacity) \<longleftrightarrow> qrCapacity < e"
  unfolding type_loop_throws by (auto simp: type_capacity_def qrCapacity_def)

section \<open>ASCII texts\<close>

lemma collapse_plain: "u \<noteq> 37 \<Longrightarrow> collapse_escapes (u # s) = u # collapse_escapes s"
  by (cases s; cases "tl s") auto

lemma hex_digit_hex: "n < 16 \<Longrightarrow> json_hex (hex_digit n) \<noteq> None"
proof -
  assume n: "n < 16"
  then have u: "unat (hex_digit n) = (if n < 10 then 48 + n else 55 + n)"
    by (simp add: hex_digit_def unat_of_nat_unit del: of_nat_add)
  with n show ?thesis by (auto simp: json_hex_def word_le_nat_alt)
qed

lemma collapse_byte: "collapse_escapes (percent_byte b @ s) = 97 # collapse_escapes s"
proof -
  have "unat b div 16 < 16" "unat b mod 16 < 16" using unsigned_less [of b, where ?'a = nat] by (simp_all add: less_mult_imp_div_less)
  then show ?thesis using hex_digit_hex by (simp add: percent_byte_def)
qed

lemma byte_count_ascii:
  assumes "ascii a"
  shows "byte_count a = Inr (length a + (if loosely_equal (length a) a then 0 else 3))"
proof -
  have "length (collapse_escapes (concat (map (\<lambda>c. if uri_unreserved c \<or> uri_reserved c then [of_nat c]
      else concat (map percent_byte (utf8_cp c))) (map unat a)))) = length a"
    using assms
  proof (induction a)
    case (Cons u a)
    have "u \<noteq> 37" if "uri_unreserved (unat u) \<or> uri_reserved (unat u)"
      using that by (auto simp: uri_unreserved_def uri_reserved_def is_alnum_def)
    then show ?case
      using Cons by (auto simp: collapse_plain collapse_byte utf8_cp_def)
  qed simp
  then show ?thesis
    using assms by (simp add: byte_count_def encodeURI_def well_formed_def to_well_formed_ascii code_points_ascii)
qed

lemma parsed_ascii:
  assumes "ascii a"
  shows "parsedData a = map unat a"
proof -
  have "parse_chars b a = map unat a" if "length b \<le> 1" for b
    using assms that by (induction a arbitrary: b) (auto simp: char_bytes_def Let_def)
  then show ?thesis by (simp add: parsedData_def)
qed

section \<open>Reading the data of a code\<close>

definition bits_value :: "bool list \<Rightarrow> nat" where
  "bits_value bs = foldl (\<lambda>v b. 2 * v + of_bool b) 0 bs"

text \<open>A reader knows the type of the code from its size: four bits for the kind of data, the length, the bytes.\<close>

definition read_data :: "nat \<Rightarrow> bool list \<Rightarrow> nat list option" where
  "read_data t bs =
     (if bits_value (take 4 bs) \<noteq> 4 then None
      else
        (let n = bits_value (take (header_bits t - 4) (drop 4 bs))
         in Some (map (\<lambda>i. bits_value (take 8 (drop (header_bits t + 8 * i) bs))) [0..<n])))"

lemma put_bits_Suc: "put_bits (Suc len) n = odd (n div 2 ^ len) # put_bits len n"
proof -
  have "[0..<Suc len] = 0 # map Suc [0..<len]" by (simp add: upt_conv_Cons map_Suc_upt del: upt_Suc)
  then show ?thesis by (simp add: put_bits_def o_def)
qed

lemma length_put_bits [simp]: "length (put_bits len n) = len"
  by (simp add: put_bits_def)

lemma foldl_bits: "foldl (\<lambda>v b. 2 * v + of_bool b) v (put_bits len n) = v * 2 ^ len + n mod 2 ^ len"
proof (induction len arbitrary: v)
  case (Suc len)
  have "n mod 2 ^ Suc len = 2 ^ len * of_bool (odd (n div 2 ^ len)) + n mod 2 ^ len"
    using mod_mult2_eq [of n "2 ^ len" 2] by (simp add: mult.commute mod_2_eq_odd)
  then show ?case
    unfolding put_bits_Suc foldl.simps Suc.IH by (simp add: algebra_simps)
qed (simp add: put_bits_def)

interpretation bits: codec "put_bits len" "\<lambda>bs. Inr (bits_value bs)" "\<lambda>n. n < 2 ^ len" for len
  by unfold_locales (simp add: bits_value_def foldl_bits)

lemma bits_back: "n < 2 ^ len \<Longrightarrow> bits_value (put_bits len n) = n"
  using bits.dec_enc [of n len] by simp

lemma take_bytes: "i < length d \<Longrightarrow> take 8 (drop (8 * i) (concat (map (put_bits 8) d) @ rest)) = put_bits 8 (d ! i)"
proof (induction d arbitrary: i)
  case (Cons b d)
  then show ?case by (cases i) auto
qed simp

lemma drop_prefix: "length xs = n \<Longrightarrow> drop (n + k) (xs @ ys) = drop k ys"
  by auto

lemma read_back:
  assumes "length d < 2 ^ (header_bits t - 4)" and "list_all (\<lambda>b. b < 256) d"
  shows "read_data t (segment_bits (header_bits t - 4) d @ rest) = Some d"
proof -
  let ?h = "header_bits t - 4" and ?body = "concat (map (put_bits 8) d)"
  let ?pre = "put_bits 4 4 @ put_bits ?h (length d)"
  have pre: "length ?pre = header_bits t" by (simp add: header_bits_def)
  have bytes: "bits_value (take 8 (drop (header_bits t + 8 * i) (?pre @ ?body @ rest))) = d ! i" if "i < length d" for i
  proof -
    have "drop (header_bits t + 8 * i) (?pre @ ?body @ rest) = drop (8 * i) (?body @ rest)"
      by (rule drop_prefix [OF pre])
    then show ?thesis using that assms(2) by (simp only: take_bytes [OF that]) (simp add: bits_back list_all_length)
  qed
  have "map (\<lambda>i. bits_value (take 8 (drop (header_bits t + 8 * i) (?pre @ ?body @ rest)))) [0..<length d] = d"
    by (rule nth_equalityI) (simp_all only: length_map length_upt nth_map_upt bytes add_0 diff_zero)
  moreover have "bits_value (take 4 (?pre @ ?body @ rest)) = 4"
    "bits_value (take ?h (drop 4 (?pre @ ?body @ rest))) = length d"
    using assms(1) by (simp_all add: bits_back)
  ultimately have "read_data t (?pre @ ?body @ rest) = Some d" unfolding read_data_def Let_def by presburger
  then show ?thesis by (simp add: segment_bits_def)
qed

text \<open>The padding fills the code and changes nothing before it.\<close>

lemma pad_bits_fills:
  assumes "8 dvd capacity" and "8 dvd length bs" and "length bs \<le> capacity"
  shows "\<exists>rest. pad_bits capacity bs = bs @ rest \<and> length (pad_bits capacity bs) = capacity"
  using assms
proof (induction capacity bs rule: pad_bits.induct)
  case (1 capacity bs)
  let ?b1 = "bs @ put_bits 8 236" and ?b2 = "(bs @ put_bits 8 236) @ put_bits 8 17"
  obtain m n where mn: "capacity = 8 * m" "length bs = 8 * n" using "1.prems" by (auto elim!: dvdE)
  show ?case
  proof (cases "capacity \<le> length ?b1")
    case True
    with "1.prems" mn show ?thesis by (subst (1 2) pad_bits.simps) auto
  next
    case False
    then have step: "pad_bits capacity bs = pad_bits capacity ?b2"
      by (subst pad_bits.simps) (simp add: Let_def)
    have "n + 2 \<le> m" "length ?b2 = 8 * (n + 2)" using False mn by simp_all
    then have "length ?b2 \<le> capacity" "8 dvd length ?b2" using mn by simp_all
    then obtain rest where "pad_bits capacity ?b2 = ?b2 @ rest" "length (pad_bits capacity ?b2) = capacity"
      using "1.IH" [OF _ refl False "1.prems"(1)] False by auto
    then show ?thesis unfolding step by auto
  qed
qed

section \<open>The code of a text\<close>

lemma length_segment: "length (segment_bits (header_bits t - 4) d) = header_bits t + 8 * length d"
proof -
  have "length (concat (map (put_bits 8) d)) = 8 * length d" by (induction d) simp_all
  then show ?thesis by (simp add: segment_bits_def header_bits_def)
qed

lemma whole_bytes:
  fixes n :: nat
  shows "8 dvd n + (8 - n mod 8) mod 8" and "n \<le> c \<Longrightarrow> 8 dvd c \<Longrightarrow> n + (8 - n mod 8) mod 8 \<le> c"
proof -
  obtain q r where n: "n = 8 * q + r" "r < 8" by (rule that [of "n div 8" "n mod 8"]) simp_all
  then have up: "n + (8 - n mod 8) mod 8 = 8 * (if r = 0 then q else q + 1)" by simp
  show "8 dvd n + (8 - n mod 8) mod 8" unfolding up by simp
  assume "n \<le> c" and "8 dvd c"
  then obtain k where "c = 8 * k" "8 * q + r \<le> 8 * k" using n by blast
  then show "n + (8 - n mod 8) mod 8 \<le> c" unfolding up by auto
qed

lemma createData_bits:
  fixes level :: qr_level
  assumes "1 \<le> t" and "t \<le> 40"
  defines "capacity \<equiv> 8 * sum_list (map snd (block_sizes (RS_BLOCK_TABLE ! (4 * (t - 1) + level_column level))))"
  shows "throws (createData t level d) \<longleftrightarrow> capacity < header_bits t + 8 * length d"
    and "createData t level d = Inr (blocks, bs) \<Longrightarrow>
      length bs = capacity \<and> (\<exists>rest. bs = segment_bits (header_bits t - 4) d @ rest)"
proof -
  let ?pre = "segment_bits (header_bits t - 4) d"
  let ?b1 = "if length ?pre + 4 \<le> capacity then ?pre @ put_bits 4 0 else ?pre"
  let ?b2 = "?b1 @ replicate ((8 - length ?b1 mod 8) mod 8) False"
  have create: "createData t level d = (if capacity < length ?pre
      then Inl (JsError (js ''code length overflow. ('' @ decimal (length ?pre) @ js ''>'' @ decimal capacity @ js '')''))
      else Inr (block_sizes (RS_BLOCK_TABLE ! (4 * (t - 1) + level_column level)), pad_bits capacity ?b2))"
    by (simp only: createData_def type_blocks(1,2) [OF assms(1,2)] capacity_def Let_def bindR_simps)
  show "throws (createData t level d) \<longleftrightarrow> capacity < header_bits t + 8 * length d"
    by (simp only: create length_segment throws_simps split: if_split) simp
  assume made: "createData t level d = Inr (blocks, bs)"
  have bs: "bs = pad_bits capacity ?b2" and fits: "length ?pre \<le> capacity"
    using made unfolding create by (simp_all split: if_splits)
  have "\<exists>rest. pad_bits capacity ?b2 = ?b2 @ rest \<and> length (pad_bits capacity ?b2) = capacity"
  proof (rule pad_bits_fills)
    show eight: "8 dvd capacity" by (simp add: capacity_def)
    have b1: "length ?b1 \<le> capacity" using fits by simp
    have b2: "length ?b2 = length ?b1 + (8 - length ?b1 mod 8) mod 8" by simp
    show "8 dvd length ?b2" unfolding b2 by (rule whole_bytes(1))
    show "length ?b2 \<le> capacity" unfolding b2 by (rule whole_bytes(2) [OF b1 eight])
  qed
  then obtain rest where "bs = ?b2 @ rest" "length bs = capacity" unfolding bs by blast
  moreover have "\<exists>r. ?b2 = ?pre @ r" by simp
  ultimately show "length bs = capacity \<and> (\<exists>rest. bs = ?pre @ rest)" by (metis append.assoc)
qed

text \<open>For an ASCII text, a type that is large enough is never refused later, but for type 15 at the highest level.\<close>

lemma makeCode_ascii:
  assumes "ascii a"
  defines "e \<equiv> length a + (if loosely_equal (length a) a then 0 else 3)"
  shows "throws (makeCode LevelM a) \<longleftrightarrow> qrCapacity < e"
    and "makeCode level a = Inr (t, blocks, bs) \<Longrightarrow>
      1 \<le> t \<and> t \<le> 40 \<and> length a \<le> type_capacity ! (t - 1) ! level_column level \<and> createData t level (map unat a) = Inr (blocks, bs)"
proof -
  have kind: "typeNumber level a = type_loop (level_column level) e 1 type_capacity" for level
    by (simp add: typeNumber_def byte_count_ascii [OF assms(1)] e_def)
  have range: "1 \<le> t \<and> t \<le> 40 \<and> length a \<le> type_capacity ! (t - 1) ! level_column level"
    if "typeNumber level a = Inr t" for t level
    using type_loop_Inr [OF that [unfolded kind]] by (auto simp: table_lengths e_def)
  show "throws (makeCode LevelM a) \<longleftrightarrow> qrCapacity < e"
  proof (cases "typeNumber LevelM a")
    case (Inl err)
    then show ?thesis using largest_code [of e] by (simp add: makeCode_def) (simp add: kind)
  next
    case (Inr t)
    note t = range [OF Inr]
    have "\<not> throws (createData t LevelM (map unat a))"
      using createData_bits(1) [of t LevelM] type_blocks(3) [of t LevelM "length a"] t by simp
    moreover have "\<not> qrCapacity < e" using largest_code [of e] Inr unfolding kind by simp
    ultimately show ?thesis
      by (cases "createData t LevelM (map unat a)") (simp_all add: makeCode_def Inr parsed_ascii [OF assms(1)])
  qed
  assume "makeCode level a = Inr (t, blocks, bs)"
  then have "typeNumber level a = Inr t" "createData t level (map unat a) = Inr (blocks, bs)"
    by (cases "typeNumber level a"; cases "createData (projr (typeNumber level a)) level (map unat a)";
        simp add: makeCode_def parsed_ascii [OF assms(1)])+
  with range show "1 \<le> t \<and> t \<le> 40 \<and> length a \<le> type_capacity ! (t - 1) ! level_column level \<and>
      createData t level (map unat a) = Inr (blocks, bs)" by blast
qed

text \<open>A link is no numeral.\<close>

lemma link_no_number: "\<not> loosely_equal n (js ''http'' @ s)"
proof -
  have "trim (104 # r) = 104 # rev (dropWhile is_space (rev r))" for r
  proof -
    have h: "\<not> is_space 104" by (simp add: is_space_def)
    then show ?thesis by (simp add: trim_def dropWhile_append)
  qed
  then obtain r where "trim (js ''http'' @ s) = 104 # r" by (simp add: js_simps)
  then show ?thesis
    by (auto simp: loosely_equal_def number_of_string_def decimal_value_def json_digit_def js_simps Let_def)
qed

lemma origin_http: "origin_ok origin \<Longrightarrow> \<exists>s. origin = js ''http'' @ s"
proof -
  assume "origin_ok origin"
  then obtain host where "origin = js ''https://'' @ host \<or> origin = js ''http://'' @ host" unfolding origin_ok_def by blast
  then show ?thesis by (auto simp: js_simps)
qed

lemma link_ascii:
  assumes "buildShareURL origin keyId e = Inr link" and "link_values e" and "hex_id keyId" and "ascii origin"
  shows "ascii link"
proof -
  have id: "ascii keyId" using hex_id_alnum [OF assms(3)] by (auto simp: ascii_def list_all_iff is_alnum_def)
  have "ascii (wrapped e)" "ascii (iv e)" "ascii (ct e)"
    using assms(2) by (simp_all add: link_values_def base64URLPattern_def base64url_ascii)
  with id assms(4) show ?thesis
    using assms(1) by (auto simp: buildShareURL_result [OF assms(3)] link_fragment_text [OF assms(2)] ascii_def js_simps)
qed

section \<open>Properties\<close>

text \<open>C27: Which links are drawn. The library counts three bytes too many for a link, so the create page shows a QR
  code exactly for links of at most 2328 characters, three less than \<open>qrCapacity\<close>, which it compares with when
  it says that a link fits.\<close>
theorem qr_code_drawn:
  assumes "buildShareURL origin keyId e = Inr link" and "link_values e" and "hex_id keyId"
    and "origin_ok origin" and "ascii origin"
  shows "snd (renderQRCode (qrcode_js link) link) \<longleftrightarrow> length link + 3 \<le> qrCapacity"
proof -
  obtain s where s: "origin = js ''http'' @ s" using origin_http [OF assms(4)] by blast
  then obtain r where r: "link = js ''http'' @ r" using assms(1) by (auto simp: buildShareURL_result [OF assms(3)])
  have "link \<noteq> []" by (simp add: r js_simps)
  then show ?thesis
    using makeCode_ascii(1) [OF link_ascii [OF assms(1-3,5)]] link_no_number [of "length link" r]
    by (simp add: qrcode_js_def renderQRCode_def r [symmetric] not_less)
qed

text \<open>C28: What is in a QR code. Whenever the library makes a code of an ASCII text, at any level, the bits it puts
  into the code are as many as its blocks hold, and a reader gets the text back from them.\<close>
theorem qr_code_read:
  assumes "ascii a" and "makeCode level a = Inr (t, blocks, bs)"
  shows "map_option (map of_nat) (read_data t bs) = Some a \<and> length bs = 8 * sum_list (map snd blocks)"
proof -
  have t: "1 \<le> t" "t \<le> 40" "length a \<le> type_capacity ! (t - 1) ! level_column level"
    and made: "createData t level (map unat a) = Inr (blocks, bs)"
    using makeCode_ascii(2) [OF assms] by simp_all
  obtain rest where bs: "bs = segment_bits (header_bits t - 4) (map unat a) @ rest"
    "length bs = 8 * sum_list (map snd (block_sizes (RS_BLOCK_TABLE ! (4 * (t - 1) + level_column level))))"
    using createData_bits(2) [OF t(1,2) made] by blast
  have "blocks = block_sizes (RS_BLOCK_TABLE ! (4 * (t - 1) + level_column level))"
    using made unfolding createData_def type_blocks(1,2) [OF t(1,2)] by (auto simp: Let_def split: if_splits)
  moreover have "list_all (\<lambda>b. b < 256) (map unat a)" using assms(1) by (auto simp: ascii_def list_all_iff)
  then have "read_data t bs = Some (map unat a)"
    unfolding bs(1) using type_blocks(4) [OF t(1,2), of "length a" level] t(3) by (intro read_back) simp_all
  ultimately show ?thesis using bs(2) by (simp add: map_idI)
qed

text \<open>A link of 2329 characters.\<close>

definition long_values :: encrypted where
  "long_values = \<lparr>wrapped = replicate 683 65, iv = replicate 16 65, ct = replicate 1560 65\<rparr>"

definition long_id :: jsstring where
  "long_id = replicate 32 48"

theorem qr_code_drawn_witness:
  "\<exists>link. buildShareURL (js ''https://kb.example'') long_id long_values = Inr link \<and> length link = 2329 \<and>
     length link \<le> qrCapacity \<and> \<not> snd (renderQRCode (qrcode_js link) link)"
proof -
  have id: "hex_id long_id" by (simp add: hex_id_def long_id_def list_all_iff)
  have vals: "link_values long_values"
    by (simp add: link_values_def long_values_def base64URLPattern_def is_base64url_unit_def list_all_iff)
  have origin: "origin_ok (js ''https://kb.example'')" "ascii (js ''https://kb.example'')"
    by (auto simp: origin_ok_def js_simps)
  obtain link where link: "buildShareURL (js ''https://kb.example'') long_id long_values = Inr link"
    by (simp add: buildShareURL_result [OF id])
  moreover have "length link = 2329"
    using link unfolding buildShareURL_result [OF id] link_fragment_text [OF vals]
    by (auto simp: long_values_def long_id_def js_simps)
  ultimately show ?thesis
    using qr_code_drawn [OF link vals id origin] by (simp add: qrCapacity_def)
qed

theorem qr_code_read_witness:
  "\<exists>t blocks bs. makeCode LevelM (js ''https://kb.example'') = Inr (t, blocks, bs) \<and>
     map_option (map of_nat) (read_data t bs) = Some (js ''https://kb.example'')"
proof -
  have ascii: "ascii (js ''https://kb.example'')" by (simp add: js_simps)
  have "\<not> throws (makeCode LevelM (js ''https://kb.example''))"
    unfolding makeCode_ascii(1) [OF ascii] by (simp add: qrCapacity_def js_simps)
  then obtain t blocks bs where "makeCode LevelM (js ''https://kb.example'') = Inr (t, blocks, bs)"
    by (cases "makeCode LevelM (js ''https://kb.example'')") auto
  with qr_code_read [OF ascii this] show ?thesis by blast
qed

end
