(* ===== verification/SecondStore.thy ===== *)
theory SecondStore
  imports RedisStore
begin

text \<open>
  \<open>internal/store\<close>, a second copy of the stores that nothing in the program imports. It differs from \<open>store.go\<close> in
  one operation: \<open>Save\<close> on Redis writes with \<open>SetNX\<close>, which leaves a key alone that is there, and draws up to
  three IDs. Its other operations have the texts of \<open>store.go\<close> and the definitions of \<open>KeyStore\<close> and \<open>RedisStore\<close>.
\<close>

section \<open>SetNX\<close>

text \<open>What go-redis sends. Go's division rounds towards zero.\<close>

definition SetNX_args :: "jsstring \<Rightarrow> jsstring \<Rightarrow> int \<Rightarrow> jsstring list" where
  "SetNX_args k v expiration =
     (if expiration = 0 then [js ''setnx'', k, v]
      else if expiration = -1 then [js ''set'', k, v, js ''keepttl'', js ''nx'']
      else if usePrecise expiration then
        [js ''set'', k, v, js ''px'', itoa (if 0 < expiration then formatMs expiration else - (- expiration div millisecond)), js ''nx'']
      else [js ''set'', k, v, js ''ex'', itoa (formatSec expiration), js ''nx''])"

definition view_setnx :: "jsstring \<Rightarrow> jsstring \<Rightarrow> int \<Rightarrow> redis_view \<Rightarrow> redis_view \<times> bool" where
  "view_setnx k v ttl V = (if V k = None then (view_set k v ttl V, True) else (V, False))"

text \<open>The command as a parameter: the reply says whether the key was set, or is an error.\<close>

locale redis_nx = redis_server +
  fixes setnx :: "jsstring \<Rightarrow> jsstring \<Rightarrow> int \<Rightarrow> 'a \<Rightarrow> 'a \<times> bool option"
  assumes setnx_ok: "ok s \<Longrightarrow> positive_duration ttl \<Longrightarrow> ok (fst (setnx k v ttl s))"
    and setnx_view: "ok s \<Longrightarrow> positive_duration ttl \<Longrightarrow>
      (view (fst (setnx k v ttl s)), snd (setnx k v ttl s)) = map_prod id Some (view_setnx k v (sent_ttl ttl) (view s))"
begin

lemma setnx_simps:
  assumes "ok s" and "positive_duration ttl"
  shows "view (fst (setnx k v ttl s)) = (if view s k = None then view_set k v (sent_ttl ttl) (view s) else view s)"
    and "snd (setnx k v ttl s) = Some (view s k = None)"
  using setnx_view [OF assms, of k v] by (auto simp: view_setnx_def split: if_splits)

text \<open>A call, with its retries, leaves every key alone that was there; it reports success only for a new key.\<close>

lemma setnx_call:
  assumes "positive_duration ttl"
  shows "ok s \<Longrightarrow>
    ok (fst (redis_call (setnx k v ttl) as s)) \<and>
    (\<forall>j. view s j \<noteq> None \<or> j \<noteq> k \<longrightarrow> view (fst (redis_call (setnx k v ttl) as s)) j = view s j) \<and>
    (snd (redis_call (setnx k v ttl) as s) = Some (Some True) \<longrightarrow>
       view s k = None \<and> view (fst (redis_call (setnx k v ttl) as s)) k = Some (v, Some (sent_ttl ttl)))"
proof (induction "setnx k v ttl" as s rule: redis_call.induct)
  case (2 as s)
  then show ?case using assms by (auto simp: setnx_ok setnx_simps view_set_def)
next
  case (3 as s)
  then show ?case using assms by (auto simp: setnx_ok setnx_simps view_set_def split: if_splits)
qed simp_all

end

section \<open>miniredis\<close>

definition mini_setnx :: "jsstring \<Rightarrow> jsstring \<Rightarrow> int \<Rightarrow> redis_db \<Rightarrow> redis_db \<times> bool option" where
  "mini_setnx k v ttl db =
     (let (db', r) = cmd_set 0 (tl (SetNX_args k v ttl)) db
      in (db', case r of OkReply \<Rightarrow> Some True | NullReply \<Rightarrow> Some False | _ \<Rightarrow> None))"

lemma set_options_nx:
  "set_options now args opts = Some opts' \<Longrightarrow> set_options now (args @ [js ''nx'']) opts = Some (opts'\<lparr>so_nx := True\<rparr>)"
proof (induction now args opts rule: set_options.induct)
  case (1 now opts)
  then show ?case by (simp add: upper_def js_simps)
next
  case (2 now a args opts)
  show ?case
  proof (cases "upper a \<in> {js ''NX'', js ''XX'', js ''KEEPTTL'', js ''GET''}")
    case True
    have "js ''GET'' \<notin> {js ''PX'', js ''PXAT'', js ''EX'', js ''EXAT''}" by (simp add: js_simps)
    with True "2.prems" "2.IH" [OF refl] show ?thesis by (simp add: Let_def split: if_split_asm)
  next
    case False
    then have timed: "upper a \<in> {js ''PX'', js ''PXAT'', js ''EX'', js ''EXAT''}"
      using "2.prems" by (simp add: Let_def split: if_split_asm)
    then obtain n rest where args: "args = n # rest"
      using False "2.prems" by (cases args) (auto simp: Let_def)
    obtain opts1 where opts1: "set_expire now (upper a) n opts = Some opts1" "set_options now rest opts1 = Some opts'"
      using False timed "2.prems" by (auto simp: Let_def args split: option.split_asm)
    have "set_options now (rest @ [js ''nx'']) opts1 = Some (opts'\<lparr>so_nx := True\<rparr>)"
      using False timed opts1 by (intro "2.IH"(4) [OF refl _ _ _ _ args]) auto
    with False timed opts1 show ?thesis by (simp add: Let_def args)
  qed
qed

lemma setnx_refines:
  assumes "db_ok db" and "positive_duration ttl"
  shows "db_ok (fst (mini_setnx k v ttl db)) \<and>
    (db_view (fst (mini_setnx k v ttl db)), snd (mini_setnx k v ttl db)) = map_prod id Some (view_setnx k v (sent_ttl ttl) (db_view db))"
proof -
  have pos: "0 < ttl" by (rule positive_durationD(1) [OF assms(2)])
  then have "tl (SetNX_args k v ttl) = k # v # drop 3 (Set_args k v ttl) @ [js ''nx'']"
    by (auto simp: SetNX_args_def Set_args_def itoa_def formatMs_def formatSec_def second_def millisecond_def
        pos_imp_zdiv_neg_iff)
  then have run: "cmd_set 0 (tl (SetNX_args k v ttl)) db =
      set_key (no_set_opts\<lparr>so_ttl := sent_ttl ttl, so_ttlSet := True, so_nx := True\<rparr>) k v db"
    using set_options_nx [OF set_args_options [OF assms(2)]] by (simp add: cmd_set_def no_set_opts_def)
  have set: "r_set miniredis k v ttl db = fst (set_key (no_set_opts\<lparr>so_ttl := sent_ttl ttl, so_ttlSet := True\<rparr>) k v db)"
    using set_args_options [OF assms(2), of 0 k v] by (simp add: miniredis_def cmd_set_def Set_args_def)
  note refines = set_refines [OF assms, of k v]
  show ?thesis
  proof (rule db_key_cases [OF assms(1), of k])
    assume absent: "db_keys db k = None" "db_strings db k = None" "db_ttl db k = None"
    then have "set_key (no_set_opts\<lparr>so_ttl := sent_ttl ttl, so_ttlSet := True, so_nx := True\<rparr>) k v db =
        (r_set miniredis k v ttl db, OkReply)"
      unfolding set by (simp add: set_key_def no_set_opts_def Let_def)
    then show ?thesis using refines absent(2) by (simp add: mini_setnx_def run view_setnx_def db_view_def)
  next
    fix old
    assume "db_keys db k = Some StringType" "db_strings db k = Some old"
    then show ?thesis
      using assms(1) by (simp add: mini_setnx_def run set_key_def no_set_opts_def Let_def view_setnx_def db_view_def)
  qed
qed

interpretation mini_nx: redis_nx miniredis db_view db_ok mini_setnx
  by unfold_locales (use setnx_refines in blast)+

section \<open>Save\<close>

text \<open>The loop: each round draws its own ID and makes its own call.\<close>

fun nx_save_loop ::
  "(jsstring \<Rightarrow> jsstring \<Rightarrow> int \<Rightarrow> 's \<Rightarrow> 's \<times> bool option) \<Rightarrow> jsstring \<Rightarrow> int \<Rightarrow> (bytes option \<times> attempt list) list \<Rightarrow> 's \<Rightarrow>
   's \<times> jsstring option"
where
  "nx_save_loop setnx payload ttl [] s = (s, None)"
| "nx_save_loop setnx payload ttl ((random, as) # rounds) s =
     (case randomID random of
        None \<Rightarrow> (s, None)
      | Some keyId \<Rightarrow>
          (case redis_call (setnx keyId payload ttl) as s of
             (s', Some (Some True)) \<Rightarrow> (s', Some keyId)
           | (s', Some (Some False)) \<Rightarrow> nx_save_loop setnx payload ttl rounds s'
           | (s', _) \<Rightarrow> (s', None)))"

definition nx_save ::
  "(jsstring \<Rightarrow> jsstring \<Rightarrow> int \<Rightarrow> 's \<Rightarrow> 's \<times> bool option) \<Rightarrow> (int \<Rightarrow> jsstring option) \<Rightarrow> (nat \<Rightarrow> bytes option \<times> attempt list) \<Rightarrow>
   key_record \<Rightarrow> int \<Rightarrow> 's \<Rightarrow> 's \<times> jsstring option"
where
  "nx_save setnx showTime draws rcd ttl s =
     (case encode_record showTime rcd of
        None \<Rightarrow> (s, None)
      | Some payload \<Rightarrow> nx_save_loop setnx payload ttl (map draws [0..<3]) s)"

context redis_nx
begin

lemma loop_keeps:
  assumes "positive_duration ttl"
  shows "ok s \<Longrightarrow> nx_save_loop setnx payload ttl rounds s = (s', r) \<Longrightarrow>
    ok s' \<and> (\<forall>j. view s j \<noteq> None \<longrightarrow> view s' j = view s j) \<and>
    (\<forall>k. r = Some k \<longrightarrow> view s k = None \<and> view s' k = Some (payload, Some (sent_ttl ttl)) \<and>
       (\<exists>random \<in> fst ` set rounds. randomID random = Some k))"
proof (induction rounds arbitrary: s)
  case (Cons x rounds)
  obtain random as where x: "x = (random, as)" by (cases x)
  show ?case
  proof (cases "randomID random")
    case None
    with Cons.prems show ?thesis by (simp add: x)
  next
    case (Some k)
    obtain s1 reply where call: "redis_call (setnx k payload ttl) as s = (s1, reply)" by fastforce
    note step = setnx_call [OF assms Cons.prems(1), of k payload as, unfolded call]
    show ?thesis
    proof (cases "reply = Some (Some False)")
      case True
      with Cons.prems(2) Some call have "nx_save_loop setnx payload ttl rounds s1 = (s', r)" by (simp add: x)
      from Cons.IH [OF _ this] step
      have later: "ok s'" "\<And>j. view s1 j \<noteq> None \<Longrightarrow> view s' j = view s1 j"
        "\<And>k. r = Some k \<Longrightarrow> view s1 k = None \<and> view s' k = Some (payload, Some (sent_ttl ttl)) \<and>
          (\<exists>random \<in> fst ` set rounds. randomID random = Some k)"
        by simp_all
      have first: "view s1 j = view s j" if "view s j \<noteq> None" for j using step that by simp
      have "view s' j = view s j" if "view s j \<noteq> None" for j using first [OF that] later(2) [of j] that by simp
      moreover have "view s j = None" if "r = Some j" for j using later(3) [OF that] first [of j] by (cases "view s j") auto
      ultimately show ?thesis using later(1,3) by (simp add: x)
    next
      case False
      then have "s' = s1" "r = Some j \<Longrightarrow> j = k \<and> reply = Some (Some True)" for j
        using Cons.prems(2) Some call by (auto simp: x split: option.splits bool.splits)
      with step Some show ?thesis by (auto simp: x)
    qed
  qed
qed simp

end

section \<open>What it promises\<close>

text \<open>A save of this copy overwrites nothing. Whatever IDs are drawn, and whatever happens to the calls and
  their retries, every key that is in the database stays as it is; and an ID that is returned was free and
  holds the record now, for its time to live.\<close>
theorem nx_save_overwrites_nothing:
  assumes "redis_nx R view ok setnx" and "ok s" and "positive_duration ttl"
    and "nx_save setnx showTime draws rcd ttl s = (s', r)"
  shows "(\<forall>j. view s j \<noteq> None \<longrightarrow> view s' j = view s j) \<and>
    (\<forall>k. r = Some k \<longrightarrow> view s k = None \<and>
       (\<exists>payload. encode_record showTime rcd = Some payload \<and> view s' k = Some (payload, Some (sent_ttl ttl))))"
proof (cases "encode_record showTime rcd")
  case (Some payload)
  then show ?thesis using redis_nx.loop_keeps [OF assms(1,3,2)] assms(4) by (auto simp: nx_save_def)
qed (use assms(4) in \<open>auto simp: nx_save_def\<close>)

theorem nx_save_overwrites_nothing_witness:
  "db_view (fst (nx_save mini_setnx (show_time (\<lambda>_. 0)) (\<lambda>i. (Some [of_nat i], [Delivered])) \<lparr>PrivPEM = js ''k'', CreatedAt = 0\<rparr>
       (60 * second) (r_set miniredis (hex_encode [0]) (js ''other'') (60 * second) empty_redis))) (hex_encode [0]) =
   Some (js ''other'', Some (60 * second))"
proof -
  let ?s = "r_set miniredis (hex_encode [0]) (js ''other'') (60 * second) empty_redis"
  have ok: "db_ok ?s" and held: "db_view ?s (hex_encode [0]) = Some (js ''other'', Some (60 * second))"
    using mini.set_ok [OF empty_redis_ok minute_durations(1)] mini.set_view [OF empty_redis_ok minute_durations(1)]
    by (simp_all add: view_set_def sent_ttl_seconds)
  obtain s' r where "nx_save mini_setnx (show_time (\<lambda>_. 0)) (\<lambda>i. (Some [of_nat i], [Delivered])) \<lparr>PrivPEM = js ''k'', CreatedAt = 0\<rparr>
      (60 * second) ?s = (s', r)" by fastforce
  from nx_save_overwrites_nothing [OF mini_nx.redis_nx_axioms ok minute_durations(1) this] held this show ?thesis by simp
qed

end
