(* ===== verification/Addresses.thy ===== *)
theory Addresses
  imports Server
begin

text \<open>
  The texts of peer addresses as \<open>net/http\<close> puts them into \<open>RemoteAddr\<close>, and what \<open>ParseIP\<close>, \<open>isTrustedProxy\<close>
  and \<open>remoteIP\<close> of \<open>handlers/middleware.go\<close> make of them.
\<close>

section \<open>Groups of an IPv6 address\<close>

fun hex_group :: "nat \<Rightarrow> jsstring" where
  "hex_group n = (if n < 16 then [hex_lower n] else hex_group (n div 16) @ [hex_lower (n mod 16)])"

declare hex_group.simps [simp del]

fun group_text :: "nat list \<Rightarrow> jsstring" where
  "group_text [] = []"
| "group_text [g] = hex_group g"
| "group_text (g # h # gs) = hex_group g @ 58 # group_text (h # gs)"

definition group_bytes :: "nat list \<Rightarrow> nat list" where
  "group_bytes gs = concat (map (\<lambda>g. [g div 256, g mod 256]) gs)"

lemma group_bytes_simps [simp]:
  "group_bytes [] = []" "group_bytes (g # gs) = g div 256 # g mod 256 # group_bytes gs"
  "group_bytes (gs @ hs) = group_bytes gs @ group_bytes hs" "length (group_bytes gs) = 2 * length gs"
  by (induction gs) (simp_all add: group_bytes_def)

lemma group_bytes_inj: "group_bytes gs = group_bytes hs \<longleftrightarrow> gs = hs"
proof (induction gs arbitrary: hs)
  case Nil
  then show ?case by (cases hs) simp_all
next
  case (Cons g gs)
  have "g = h" if "g div 256 = h div 256" "g mod 256 = h mod 256" for h
    using that by (metis div_mult_mod_eq)
  with Cons show ?case by (cases hs) auto
qed

lemma json_hex_lower: "n < 16 \<Longrightarrow> json_hex (hex_lower n) = Some n"
  using unat_hex_lower [of n] by (auto simp: json_hex_def word_le_nat_alt)

lemma hex_group_digits: "list_all (\<lambda>u. json_hex u \<noteq> None) (hex_group n)"
proof (induction n rule: hex_group.induct)
  case (1 n)
  then show ?case by (subst hex_group.simps) (simp add: json_hex_lower)
qed

lemma hex_group_not_Nil [simp]: "hex_group n \<noteq> []"
  by (subst hex_group.simps) simp

lemma hex_group_value: "ipv6_hex (hex_group n) = n"
proof (induction n rule: hex_group.induct)
  case (1 n)
  then show ?case by (subst hex_group.simps) (simp add: ipv6_hex_def json_hex_lower)
qed

lemma hex_group_length: "n < 16 ^ Suc k \<Longrightarrow> length (hex_group n) \<le> Suc k"
proof (induction k arbitrary: n)
  case 0
  then show ?case by (subst hex_group.simps) simp
next
  case (Suc k)
  then have "length (hex_group (n div 16)) \<le> Suc k" by (intro Suc.IH) (simp add: less_mult_imp_div_less)
  then show ?case by (subst hex_group.simps) simp
qed

text \<open>Digits are none of the characters with a meaning.\<close>

lemma hex_group_plain: "set (hex_group n) \<inter> {37, 46, 58, 91, 93} = {}"
proof -
  have "u \<notin> {37, 46, 58, 91, 93}" if "u \<in> set (hex_group n)" for u
    using hex_group_digits [of n] that by (auto simp: list_all_iff json_hex_def word_le_nat_alt)
  then show ?thesis by blast
qed

lemma group_text_plain: "set (group_text gs) \<inter> {37, 46, 91, 93} = {}"
  by (induction gs rule: group_text.induct) (use hex_group_plain in auto)

lemma group_text_hd:
  assumes "gs \<noteq> []"
  shows "group_text gs \<noteq> []" "hd (group_text gs) \<noteq> 58" "hd (group_text gs) \<noteq> 91"
proof -
  obtain g rest where "gs = g # rest" using assms by (cases gs) auto
  then obtain r where t: "group_text gs = hex_group g @ r" by (cases rest) auto
  have "hd (hex_group g) \<in> set (hex_group g)" by simp
  moreover have "58 \<notin> set (hex_group g)" "91 \<notin> set (hex_group g)" using hex_group_plain [of g] by blast+
  ultimately have "hd (hex_group g) \<noteq> 58" "hd (hex_group g) \<noteq> 91" by metis+
  then show "group_text gs \<noteq> []" "hd (group_text gs) \<noteq> 58" "hd (group_text gs) \<noteq> 91" by (simp_all add: t)
qed

section \<open>Reading them\<close>

definition groups_ok :: "nat list \<Rightarrow> bool" where
  "groups_ok gs \<longleftrightarrow> list_all (\<lambda>g. g < 0x10000) gs"

lemma span_group:
  assumes "s = [] \<or> hd s = 58"
  shows "takeWhile (\<lambda>u. json_hex u \<noteq> None) (hex_group g @ s) = hex_group g"
    and "dropWhile (\<lambda>u. json_hex u \<noteq> None) (hex_group g @ s) = s"
proof -
  have "json_hex 58 = None" by (simp add: json_hex_def word_le_nat_alt)
  with assms have "takeWhile (\<lambda>u. json_hex u \<noteq> None) s = []" "dropWhile (\<lambda>u. json_hex u \<noteq> None) s = s"
    by (cases s; auto)+
  then show "takeWhile (\<lambda>u. json_hex u \<noteq> None) (hex_group g @ s) = hex_group g"
    and "dropWhile (\<lambda>u. json_hex u \<noteq> None) (hex_group g @ s) = s"
    using hex_group_digits [of g] by (simp_all add: list_all_iff takeWhile_append dropWhile_append)
qed

lemma loop_group:
  assumes "g < 0x10000" and "length bs < 16" and "s = [] \<or> hd s = 58"
  shows "ipv6_loop bs e (hex_group g @ s) =
    (let bs' = bs @ [g div 256, g mod 256]
     in if s = [] then Some (bs', e)
        else if length s = 1 then None
        else if hd (tl s) = 58 then
          (if e \<noteq> None then None
           else if tl (tl s) = [] then Some (bs', Some (length bs'))
           else ipv6_loop bs' (Some (length bs')) (tl (tl s)))
        else ipv6_loop bs' e (tl s))"
proof -
  have "length (hex_group g) \<le> 4" using hex_group_length [of g 3] assms(1) by simp
  moreover have "hd s \<noteq> 46" if "s \<noteq> []" using assms(3) that by auto
  ultimately show ?thesis
    using assms(2,3)
    by (subst ipv6_loop.simps) (simp only: span_group [OF assms(3)] Let_def hex_group_value, auto)
qed

lemma loop_groups:
  assumes "gs \<noteq> []" and "groups_ok gs" and "length bs + 2 * length gs \<le> 16"
  shows "ipv6_loop bs e (group_text gs) = Some (bs @ group_bytes gs, e)"
  using assms
proof (induction gs arbitrary: bs rule: group_text.induct)
  case (2 g)
  then show ?case using loop_group [of g bs "[]" e] by (simp add: groups_ok_def)
next
  case (3 g h gs)
  have "ipv6_loop bs e (group_text (g # h # gs)) = ipv6_loop (bs @ [g div 256, g mod 256]) e (group_text (h # gs))"
    using 3 group_text_hd [of "h # gs"] loop_group [of g bs "58 # group_text (h # gs)" e] by (simp add: groups_ok_def Let_def)
  also have "\<dots> = Some (bs @ group_bytes (g # h # gs), e)"
    using 3 by (simp add: groups_ok_def)
  finally show ?case .
qed simp

lemma loop_shortened:
  assumes "gs \<noteq> []" and "groups_ok gs" and "length bs + 2 * length gs < 16"
  shows "ipv6_loop bs None (group_text gs @ 58 # 58 # t) =
    (if t = [] then Some (bs @ group_bytes gs, Some (length bs + 2 * length gs))
     else ipv6_loop (bs @ group_bytes gs) (Some (length bs + 2 * length gs)) t)"
  using assms
proof (induction gs arbitrary: bs rule: group_text.induct)
  case (2 g)
  then show ?case using loop_group [of g bs "58 # 58 # t" None] by (simp add: groups_ok_def Let_def)
next
  case (3 g h gs)
  have "ipv6_loop bs None (group_text (g # h # gs) @ 58 # 58 # t) =
      ipv6_loop (bs @ [g div 256, g mod 256]) None (group_text (h # gs) @ 58 # 58 # t)"
    using 3 group_text_hd [of "h # gs"] loop_group [of g bs "58 # group_text (h # gs) @ 58 # 58 # t" None]
    by (simp add: groups_ok_def Let_def)
  also have "\<dots> = (if t = [] then Some (bs @ group_bytes (g # h # gs), Some (length bs + 2 * length (g # h # gs)))
     else ipv6_loop (bs @ group_bytes (g # h # gs)) (Some (length bs + 2 * length (g # h # gs))) t)"
    using 3 by (simp add: groups_ok_def)
  finally show ?case .
qed simp


lemma group_text_two_colons:
  assumes "3 \<le> length gs"
  shows "\<exists>a b. group_text gs = a @ 58 # b \<and> 58 \<in> set b \<and> 58 \<notin> set a"
proof -
  obtain g h i rest where gs: "gs = g # h # i # rest"
    using assms by (metis Suc_le_length_iff numeral_3_eq_3)
  have "58 \<notin> set (hex_group g)" using hex_group_plain [of g] by blast
  then show ?thesis by (intro exI [of _ "hex_group g"] exI [of _ "group_text (h # i # rest)"]) (simp add: gs)
qed

text \<open>A whole address, and one with a run of zero groups written as a double colon.\<close>

definition shortened :: "nat \<Rightarrow> nat \<Rightarrow> nat list \<Rightarrow> jsstring" where
  "shortened i j gs = group_text (take i gs) @ 58 # 58 # group_text (drop j gs)"

lemma parse_whole:
  assumes "length gs = 8" and "groups_ok gs"
  shows "parse_ipv6 (group_text gs) = Some (group_bytes gs)"
proof -
  have "gs \<noteq> []" using assms(1) by auto
  moreover have "group_text gs ! 0 \<noteq> 58" using group_text_hd(1,2) [OF calculation] by (simp add: hd_conv_nth)
  ultimately show ?thesis using loop_groups [of gs "[]" None] assms by (simp add: parse_ipv6_def)
qed

lemma zero_bytes: "group_bytes (replicate n 0) = replicate (2 * n) 0"
  by (induction n) simp_all

lemma parse_shortened:
  assumes "length gs = 8" and "groups_ok gs" and "i < j" and "j \<le> 8" and "list_all (\<lambda>g. g = 0) (drop i (take j gs))"
  shows "parse_ipv6 (shortened i j gs) = Some (group_bytes gs)"
proof -
  define pre post where "pre = take i gs" and "post = drop j gs"
  have "drop i (take j gs) = replicate (j - i) 0"
    using assms(1,4,5) by (intro replicate_eqI) (auto simp: list_all_iff)
  then have gs: "gs = pre @ replicate (j - i) 0 @ post"
    using append_take_drop_id [of i "take j gs"] append_take_drop_id [of j gs] assms(3)
    by (simp add: pre_def post_def min_absorb1) (metis append.assoc append_take_drop_id)
  have ok: "groups_ok pre" "groups_ok post" using assms(2) unfolding gs groups_ok_def by simp_all
  have len: "length pre = i" "length post = 8 - j" using assms(1,3,4) by (simp_all add: pre_def post_def)
  let ?bs = "group_bytes pre @ group_bytes post"
  have result: "ipv6_loop [] (if pre = [] then Some 0 else None) (if pre = [] then group_text post else shortened i j gs) =
      Some (?bs, Some (2 * i))" if "pre \<noteq> [] \<or> post \<noteq> []"
  proof (cases "pre = []")
    case True
    with that show ?thesis using loop_groups [of post "[]" "Some 0"] ok(2) len assms(3,4) by auto
  next
    case False
    have nil: "group_text post = [] \<longleftrightarrow> post = []" using group_text_hd(1) [of post] by auto
    have "ipv6_loop [] None (shortened i j gs) = Some (?bs, Some (2 * i))"
      using loop_shortened [OF False ok(1), of "[]" "group_text post"] loop_groups [of post "group_bytes pre" "Some (2 * i)"]
        ok(2) len assms(3,4) nil
      by (auto simp: shortened_def pre_def [symmetric] post_def [symmetric])
    with False show ?thesis by simp
  qed
  have leading: "2 \<le> length (shortened i j gs) \<and> shortened i j gs ! 0 = 58 \<and> shortened i j gs ! 1 = 58 \<longleftrightarrow> pre = []"
  proof (cases "pre = []")
    case False
    then have "shortened i j gs ! 0 = hd (group_text pre)"
      using group_text_hd(1) [OF False] by (simp add: shortened_def pre_def nth_append hd_conv_nth)
    with group_text_hd(2) [OF False] False show ?thesis by simp
  qed (simp add: shortened_def pre_def [symmetric])
  have empty: "shortened i j gs = [58, 58] @ group_text post" if "pre = []"
    using that by (simp add: shortened_def pre_def [symmetric] post_def [symmetric])
  have "take (2 * i) ?bs @ replicate (16 - length ?bs) 0 @ drop (2 * i) ?bs = group_bytes gs"
  proof -
    have "16 - length ?bs = 2 * (j - i)" using len assms(3,4) by simp
    then show ?thesis using len(1) by (simp add: gs zero_bytes)
  qed
  moreover have "length ?bs < 16" using len assms(3,4) by simp
  ultimately show ?thesis
  proof (cases "pre = [] \<and> post = []")
    case True
    then have "i = 0" "j = 8" using len assms(4) by auto
    with True empty \<open>take _ _ @ _ @ _ = _\<close> show ?thesis by (simp add: parse_ipv6_def)
  next
    case False
    then have "\<not> (pre = [] \<and> length (shortened i j gs) = 2)"
      using group_text_hd(1) [of post] empty by auto
    moreover have "(if pre = [] then drop 2 (shortened i j gs) else shortened i j gs) =
        (if pre = [] then group_text post else shortened i j gs)"
      using empty by simp
    moreover have "pre \<noteq> [] \<or> post \<noteq> []" using False by blast
    note result [OF this]
    ultimately show ?thesis
      using \<open>take _ _ @ _ @ _ = _\<close> \<open>length ?bs < 16\<close> leading
      unfolding parse_ipv6_def Let_def by (simp only: if_False simp_thms option.case prod.case if_True)
  qed
qed


section \<open>Peers\<close>

text \<open>
  A peer and the texts for it: an IPv4 address with dots; the eight groups of an IPv6 address, one run of zero groups
  of any length written as a double colon or none; such an address with a zone; and a text that is no address,
  such as that of a Unix socket.
\<close>

datatype peer =
    IPv4Peer nat nat nat nat
  | IPv6Peer "nat list"
  | ZonedPeer "nat list" jsstring
  | NamedPeer jsstring

definition ipv6_text :: "nat list \<Rightarrow> jsstring \<Rightarrow> bool" where
  "ipv6_text gs t \<longleftrightarrow> length gs = 8 \<and> groups_ok gs \<and>
     (t = group_text gs \<or>
      (\<exists>i \<in> {..8}. \<exists>j \<in> {..8}. i < j \<and> list_all (\<lambda>g. g = 0) (drop i (take j gs)) \<and> t = shortened i j gs))"

fun peer_text :: "peer \<Rightarrow> jsstring \<Rightarrow> bool" where
  "peer_text (IPv4Peer b1 b2 b3 b4) t \<longleftrightarrow> b1 < 256 \<and> b2 < 256 \<and> b3 < 256 \<and> b4 < 256 \<and> t = dotted b1 b2 b3 b4"
| "peer_text (IPv6Peer gs) t \<longleftrightarrow> ipv6_text gs t"
| "peer_text (ZonedPeer gs zone) t \<longleftrightarrow> (let address = takeWhile (\<lambda>u. u \<noteq> 37) t
     in ipv6_text gs address \<and> drop (length address) t = 37 # zone \<and> set zone \<inter> {91, 93} = {})"
| "peer_text (NamedPeer n) t \<longleftrightarrow> t = n \<and> set n \<inter> {46, 58, 91, 93} = {}"

text \<open>The peers a server trusts: loopback and private addresses, of IPv4 also in their IPv6 form.\<close>

definition trusted_ipv4 :: "nat \<Rightarrow> nat \<Rightarrow> bool" where
  "trusted_ipv4 b1 b2 \<longleftrightarrow> b1 \<in> {127, 10} \<or> (b1 = 172 \<and> 16 \<le> b2 \<and> b2 \<le> 31) \<or> (b1 = 192 \<and> b2 = 168)"

fun trusted_peer :: "peer \<Rightarrow> bool" where
  "trusted_peer (IPv4Peer b1 b2 b3 b4) \<longleftrightarrow> trusted_ipv4 b1 b2"
| "trusted_peer (IPv6Peer gs) \<longleftrightarrow>
     (if take 6 gs = [0, 0, 0, 0, 0, 0xFFFF] then trusted_ipv4 (gs ! 6 div 256) (gs ! 6 mod 256)
      else gs = [0, 0, 0, 0, 0, 0, 0, 1] \<or> (0xFC00 \<le> gs ! 0 \<and> gs ! 0 \<le> 0xFDFF))"
| "trusted_peer (ZonedPeer gs zone) \<longleftrightarrow> False"
| "trusted_peer (NamedPeer n) \<longleftrightarrow> False"

lemma zoned_text:
  assumes "peer_text (ZonedPeer gs zone) t"
  obtains u where "ipv6_text gs u" "t = u @ 37 # zone" "set zone \<inter> {91, 93} = {}"
proof -
  let ?u = "takeWhile (\<lambda>u. u \<noteq> 37) t"
  have "ipv6_text gs ?u" "drop (length ?u) t = 37 # zone" "set zone \<inter> {91, 93} = {}"
    using assms by (simp_all add: Let_def)
  moreover have "t = ?u @ drop (length ?u) t" by (metis append_take_drop_id takeWhile_eq_take)
  ultimately show thesis by (intro that [of ?u]) simp_all
qed

lemma ipv6_text_parse: "ipv6_text gs t \<Longrightarrow> parse_ipv6 t = Some (group_bytes gs)"
  by (auto simp: ipv6_text_def parse_whole parse_shortened)

lemma ipv6_text_plain: "ipv6_text gs t \<Longrightarrow> set t \<inter> {37, 46, 91, 93} = {}"
  using group_text_plain by (fastforce simp: ipv6_text_def shortened_def)

lemma ipv6_text_colons:
  assumes "ipv6_text gs t"
  shows "\<exists>a b. t = a @ 58 # b \<and> 58 \<in> set b"
proof -
  have "3 \<le> length gs" using assms by (simp add: ipv6_text_def)
  with assms group_text_two_colons [of gs] show ?thesis unfolding ipv6_text_def shortened_def by fastforce
qed

lemma ipv6_text_hd: "ipv6_text gs t \<Longrightarrow> t \<noteq> [] \<and> hd t \<noteq> 91"
  using ipv6_text_colons [of gs t] ipv6_text_plain [of gs t] by (cases t) auto

lemma trusted_ipv6:
  assumes "ipv6_text gs t"
  shows "isTrustedProxy t \<longleftrightarrow> trusted_peer (IPv6Peer gs)"
proof -
  obtain a b where t: "t = a @ 58 # b" using ipv6_text_colons [OF assms] by blast
  have plain: "37 \<notin> set t" "46 \<notin> set t" using ipv6_text_plain [OF assms] by blast+
  then have "filter (\<lambda>u. u = 46 \<or> u = 58 \<or> u = 37) t = filter (\<lambda>u. u = 58) t"
    by (intro filter_cong) auto
  moreover have "58 \<in> set t" by (simp add: t)
  ultimately obtain rest where "filter (\<lambda>u. u = 46 \<or> u = 58 \<or> u = 37) t = 58 # rest"
    by (cases "filter (\<lambda>u. u = 58) t") (auto simp: filter_empty_conv filter_eq_Cons_iff)
  then have parse: "ParseIP t = Some (group_bytes gs)"
    using plain ipv6_text_parse [OF assms] by (simp add: ParseIP_def)
  obtain g0 g1 g2 g3 g4 g5 g6 g7 where gs: "gs = [g0, g1, g2, g3, g4, g5, g6, g7]"
    using assms by (auto simp: ipv6_text_def length_Suc_conv numeral_eq_Suc)
  have small: "g0 < 0x10000" "g5 < 0x10000" using assms by (simp_all add: ipv6_text_def groups_ok_def gs)
  have fc00: "g0 div 256 div 2 = 126 \<longleftrightarrow> 0xFC00 \<le> g0 \<and> g0 \<le> 0xFDFF"
    unfolding div_mult2_eq [symmetric] by auto
  have row: "g6 mod 256 div 16 = 1 \<longleftrightarrow> 16 \<le> g6 mod 256 \<and> g6 mod 256 \<le> 31" by auto
  have ten: "replicate 10 (0 :: nat) = [0, 0, 0, 0, 0, 0, 0, 0, 0, 0]" by (simp add: numeral_eq_Suc)
  have "take 12 (group_bytes gs) = group_bytes (take 6 gs)" by (simp add: gs)
  moreover have "replicate 10 0 @ [255, 255] = group_bytes [0, 0, 0, 0, 0, 0xFFFF]" by (simp add: ten)
  ultimately have mapped: "is_mapped (group_bytes gs) \<longleftrightarrow> take 6 gs = [0, 0, 0, 0, 0, 0xFFFF]"
    unfolding is_mapped_def by (simp only: group_bytes_inj)
  have "replicate 15 0 @ [1] = group_bytes [0, 0, 0, 0, 0, 0, 0, 1]" by code_simp
  then have one: "group_bytes gs = replicate 15 0 @ [1] \<longleftrightarrow> gs = [0, 0, 0, 0, 0, 0, 0, 1]"
    by (simp only: group_bytes_inj)
  have nths: "group_bytes gs ! 0 = g0 div 256" "group_bytes gs ! 12 = g6 div 256" "group_bytes gs ! 13 = g6 mod 256"
    by (simp_all add: gs)
  show ?thesis
    unfolding isTrustedProxy_def parse option.case IsLoopback_def IsPrivate_def mapped one nths
    by (auto simp: trusted_ipv4_def row fc00 gs)
qed


lemma trusted_text:
  assumes "peer_text p t"
  shows "isTrustedProxy t \<longleftrightarrow> trusted_peer p"
proof (cases p)
  case (IPv4Peer b1 b2 b3 b4)
  have "b2 div 16 = 1 \<longleftrightarrow> 16 \<le> b2 \<and> b2 \<le> 31" by auto
  with assms IPv4Peer trusted_dotted [of b1 b2 b3 b4] show ?thesis by (auto simp: trusted_ipv4_def)
next
  case (IPv6Peer gs)
  with assms trusted_ipv6 show ?thesis by simp
next
  case (ZonedPeer gs zone)
  with assms have "peer_text (ZonedPeer gs zone) t" by simp
  then obtain u where u: "ipv6_text gs u" "t = u @ 37 # zone" by (rule zoned_text)
  have "46 \<notin> set u" using ipv6_text_plain [OF u(1)] by blast
  moreover obtain a b where "u = a @ 58 # b" using ipv6_text_colons [OF u(1)] by blast
  moreover have "37 \<notin> set u" using ipv6_text_plain [OF u(1)] by blast
  ultimately have "filter (\<lambda>v. v = 46 \<or> v = 58 \<or> v = 37) u \<noteq> []" "hd (filter (\<lambda>v. v = 46 \<or> v = 58 \<or> v = 37) u) = 58"
    using hd_in_set [of "filter (\<lambda>v. v = 46 \<or> v = 58 \<or> v = 37) u"] by (auto simp: filter_empty_conv)
  then show ?thesis
    by (cases "filter (\<lambda>v. v = 46 \<or> v = 58 \<or> v = 37) u") (simp_all add: ZonedPeer u(2) isTrustedProxy_def ParseIP_def)
next
  case (NamedPeer n)
  have "ParseIP n = None"
  proof (cases "filter (\<lambda>u. u = 46 \<or> u = 58 \<or> u = 37) n")
    case (Cons v vs)
    then have "v \<in> set (filter (\<lambda>u. u = 46 \<or> u = 58 \<or> u = 37) n)" by (metis list.set_intros(1))
    then have "v \<in> set n" "v = 46 \<or> v = 58 \<or> v = 37" by simp_all
    then have "v = 37" using assms NamedPeer by auto
    with Cons show ?thesis by (simp add: ParseIP_def)
  qed (simp add: ParseIP_def)
  with assms NamedPeer show ?thesis by (simp add: isTrustedProxy_def)
qed

section \<open>Hosts and ports\<close>

text \<open>\<open>net.JoinHostPort\<close>, in which form the listener writes the peer.\<close>

definition JoinHostPort :: "jsstring \<Rightarrow> jsstring \<Rightarrow> jsstring" where
  "JoinHostPort host port = (if 58 \<in> set host then 91 # host @ 93 # 58 # port else host @ 58 # port)"

lemma last_colon:
  assumes "58 \<notin> set c"
  shows "length (p @ 58 # c) - 1 - the (index_of [58] (rev (p @ 58 # c))) = length p"
  using index_of_skip [of "[58]" "rev c" "58 # rev p"] assms by simp

lemma split_joined:
  assumes "set host \<inter> {91, 93} = {}" and "set port \<inter> {58, 91, 93} = {}"
  shows "SplitHostPort (JoinHostPort host port) = Some host"
proof (cases "58 \<in> set host")
  case True
  define h where "h = 91 # host @ 93 # 58 # port"
  have "length h - 1 - the (index_of [58] (rev h)) = length host + 2"
    using last_colon [of port "91 # host @ [93]"] assms(2) by (simp add: h_def)
  moreover have "index_of [93] h = Some (length host + 1)"
    using index_of_skip [of "[93]" "91 # host" "93 # 58 # port"] assms(1) by (simp add: h_def)
  moreover have "slice 1 (length host + 1) h = host" by (simp add: h_def slice_def)
  moreover have "58 \<in> set h" "hd h = 91" "91 \<notin> set (drop 1 h)" "93 \<notin> set (drop (length host + 1 + 1) h)"
    using assms by (auto simp: h_def)
  ultimately have "SplitHostPort h = Some host" by (simp add: SplitHostPort_def Let_def)
  with True show ?thesis by (simp add: JoinHostPort_def h_def)
next
  case False
  have "hd (host @ 58 # port) \<noteq> 91" using assms(1) by (cases host) auto
  with False assms show ?thesis
    unfolding SplitHostPort_def JoinHostPort_def by (simp add: Let_def last_colon [of port host, simplified])
qed

lemma split_bare:
  assumes "\<exists>a b. t = a @ 58 # b \<and> 58 \<in> set b" and "hd t \<noteq> 91"
  shows "SplitHostPort t = None"
proof -
  obtain a b where "t = a @ 58 # b" "58 \<in> set b" using assms(1) by blast
  moreover obtain b1 c where "b = b1 @ 58 # c" "58 \<notin> set c" using \<open>58 \<in> set b\<close> split_list_last by metis
  ultimately have t: "t = (a @ 58 # b1) @ 58 # c" and c: "58 \<notin> set c" by simp_all
  have "take (length (a @ 58 # b1)) t = a @ 58 # b1" by (simp add: t)
  then show ?thesis
    using assms(2) unfolding SplitHostPort_def Let_def t last_colon [OF c] by simp
qed

lemma dotted_plain: "set (dotted b1 b2 b3 b4) \<inter> {37, 58, 91, 93} = {}"
  using decimal_no_sign by (auto simp: dotted_def)

lemma peer_text_plain:
  assumes "peer_text p t"
  shows "set t \<inter> {91, 93} = {}" and "58 \<notin> set t \<or> (\<exists>a b. t = a @ 58 # b \<and> 58 \<in> set b)"
proof -
  have zoned: "set (u @ 37 # zone) \<inter> {91, 93} = {} \<and> (\<exists>a b. u @ 37 # zone = a @ 58 # b \<and> 58 \<in> set b)"
    if "ipv6_text gs u" "set zone \<inter> {91, 93} = {}" for gs u zone
  proof -
    note colons = ipv6_text_colons [OF that(1)] and plain = ipv6_text_plain [OF that(1)]
    obtain a b where "u = a @ 58 # b" "58 \<in> set b" using colons by blast
    then have "u @ 37 # zone = a @ 58 # (b @ 37 # zone)" "58 \<in> set (b @ 37 # zone)" by simp_all
    moreover have "set (u @ 37 # zone) \<inter> {91, 93} = {}" using plain that(2) by auto
    ultimately show ?thesis by blast
  qed
  have "set t \<inter> {91, 93} = {} \<and> (58 \<notin> set t \<or> (\<exists>a b. t = a @ 58 # b \<and> 58 \<in> set b))"
  proof (cases p)
    case (ZonedPeer gs zone)
    with assms have "peer_text (ZonedPeer gs zone) t" by simp
    then obtain u where "ipv6_text gs u" "t = u @ 37 # zone" "set zone \<inter> {91, 93} = {}" by (rule zoned_text)
    with zoned show ?thesis by blast
  next
    case (IPv4Peer b1 b2 b3 b4)
    with assms dotted_plain [of b1 b2 b3 b4] show ?thesis by auto
  next
    case (IPv6Peer gs)
    with assms have "ipv6_text gs t" by simp
    from ipv6_text_plain [OF this] ipv6_text_colons [OF this] show ?thesis by blast
  next
    case (NamedPeer n)
    with assms show ?thesis by auto
  qed
  then show "set t \<inter> {91, 93} = {}" "58 \<notin> set t \<or> (\<exists>a b. t = a @ 58 # b \<and> 58 \<in> set b)" by blast+
qed

lemma peer_direct:
  assumes "peer_text p t" and "rq_remote rq = t \<or> (rq_remote rq = JoinHostPort t port \<and> set port \<inter> {58, 91, 93} = {})"
  shows "directIP rq = t"
proof -
  note plain = peer_text_plain [OF assms(1)]
  have "SplitHostPort t = None"
  proof (cases "58 \<in> set t")
    case True
    then have "hd t \<noteq> 91" using plain(1) by (cases t) auto
    moreover have "\<exists>a b. t = a @ 58 # b \<and> 58 \<in> set b" using True plain(2) by blast
    ultimately show ?thesis by (intro split_bare)
  qed (simp add: SplitHostPort_def)
  with assms(2) split_joined [OF plain(1), of port] show ?thesis by (auto simp: directIP_def)
qed

section \<open>Properties\<close>

text \<open>C30: The address a client is limited by. For every peer, of IPv4 or IPv6, with a zone or without an address at
  all, in the texts the listener writes for it (\<open>peer_text\<close>), with a port or without: the header \<open>X-Forwarded-For\<close> counts only if the server is configured to trust it
  and the peer is a loopback or private address; then the client is the first entry, if that is not empty. In
  all other cases it is the peer, whatever the header says.\<close>
theorem client_address:
  assumes "peer_text p t" and "rq_remote rq = t \<or> (rq_remote rq = JoinHostPort t port \<and> set port \<inter> {58, 91, 93} = {})"
  shows "remoteIP rq trustXFF =
    (let first = (case rq_fields rq (js ''X-Forwarded-For'') of
           None \<Rightarrow> [] | Some xff \<Rightarrow> trim (takeWhile (\<lambda>u. u \<noteq> 44) xff))
     in if trustXFF \<and> trusted_peer p \<and> first \<noteq> [] then first else t)"
  using trusted_text [OF assms(1)]
  by (auto simp: remoteIP_def peer_direct [OF assms] hd_split_on Let_def split: option.split)

definition loopback6 :: "nat list" where
  "loopback6 = [0, 0, 0, 0, 0, 0, 0, 1]"

theorem client_address_witness:
  "remoteIP (example_request ''GET'' [[]]\<lparr>rq_remote := js ''[::1]:443''\<rparr>) True = js ''9.9.9.9''"
proof -
  have group: "hex_group (Suc 0) = [49]" by (subst hex_group.simps) (simp add: hex_lower_def)
  have "js ''::1'' = shortened 0 7 loopback6" by (simp add: loopback6_def shortened_def group js_simps)
  moreover have "list_all (\<lambda>g. g = 0) (drop 0 (take 7 loopback6))" "length loopback6 = 8" "groups_ok loopback6"
    by (simp_all add: loopback6_def groups_ok_def)
  moreover have "(0 :: nat) \<in> {..8}" "(7 :: nat) \<in> {..8}" "(0 :: nat) < 7" by simp_all
  ultimately have "ipv6_text loopback6 (js ''::1'')" unfolding ipv6_text_def by blast
  then have peer: "peer_text (IPv6Peer loopback6) (js ''::1'')" by simp
  have remote: "rq_remote (example_request ''GET'' [[]]\<lparr>rq_remote := js ''[::1]:443''\<rparr>) =
      JoinHostPort (js ''::1'') (js ''443'')"
    by (simp add: JoinHostPort_def js_simps)
  have "set (js ''443'') \<inter> {58, 91, 93} = {}" by (simp add: js_simps)
  moreover have "trim (takeWhile (\<lambda>u. u \<noteq> 44) (js ''9.9.9.9, 10.0.0.1'')) = js ''9.9.9.9''"
    by (simp add: js_simps trim_def is_space_def)
  moreover have "trusted_peer (IPv6Peer loopback6)" by (simp add: loopback6_def)
  ultimately show ?thesis
    using client_address [OF peer disjI2 [OF conjI [OF remote]], of True]
    by (simp add: example_request_def js_simps)
qed

end
