(* ===== verification/Spec2Isabelle.thy ===== *)
theory Spec2Isabelle
  imports Network Backends ServerRuns Pages Confidential QrCode SecondStore Addresses
begin

text \<open>
  KeyBank, one-time notes encrypted in the browser.

  The program. The writer's page (\<open>static/create.js\<close>) asks the server for a fresh RSA key pair
  (\<open>POST /api/keys\<close>, with nothing but an expiry), encrypts the note with a fresh AES key, wraps that key
  with the public key, and puts all of it into the fragment of a link, which browsers do not send. The
  server keeps the private key under a random ID. The reader's page (\<open>static/share.js\<close>) takes the link
  apart, fetches the private key once (\<open>GET /api/keys/{id}\<close>, which deletes it), decrypts, and shows the
  note for a limited time. Both pages write every request they make into a ledger the user sees.

  The theories, in the order of their imports:

  \<^item> \<open>KB_Prelude\<close>: JavaScript strings (lists of 16-bit units), bytes, thrown errors as the left side of
    a sum (\<open>'a result\<close>), the string functions used, and two interfaces: \<open>codec\<close>, a decoder that undoes
    an encoder, and \<open>machine\<close>, a step function with an invariant.
  \<^item> \<open>Base64\<close> and \<open>Utf8\<close>: \<open>btoa\<close>, \<open>atob\<close>, \<open>TextEncoder\<close> and \<open>TextDecoder\<close>, after the platform's
    standards, each a \<open>codec\<close>.
  \<^item> \<open>CryptoJs\<close>: \<open>static/crypto.js\<close>. The chunked serialisation is a loop that may not return
    (\<open>None\<close>); it is proved to return for every chunk size but zero. Web Crypto is a parameter, a record of
    the operations called; \<open>key_pair_ok\<close> and \<open>aes_ok\<close> state its documented behaviour, and \<open>plain_crypto\<close>
    is an instance, which shows that the two can be met.
  \<^item> \<open>KeyGen\<close>: \<open>generateKey\<close> of \<open>handlers/handlers.go\<close> and Go's PEM writer.
  \<^item> \<open>LinkJs\<close>: \<open>static/link.js\<close> over \<open>encodeURIComponent\<close>, \<open>URLSearchParams\<close> and \<open>URL\<close>.
  \<^item> \<open>UiJs\<close>: \<open>static/ui.js\<close>; a copy button with its timers is a \<open>machine\<close>.
  \<^item> \<open>ApiJs\<close>: \<open>static/api.js\<close> and \<open>static/app.js\<close>. A call is two functions, before and after its wait;
    \<open>page_net\<close> holds the ledger and what really went out; the interface \<open>api_call\<close> says that a call sends
    one known request and keeps the ledger true.
  \<^item> \<open>CreatePage\<close> and \<open>SharePage\<close>: the two pages. Each is a record of the local variables of its
    \<open>init\<close> function and of the parts of the document they write, with one function per handler and a
    step function over all events (\<open>create_step\<close>, \<open>share_step\<close>). A handler that waits is split at its
    waits, so other events can come in between. Both are interpretations of \<open>machine\<close>.
  \<^item> \<open>QrCode\<close>: \<open>static/qrcode.js\<close>, from a text to the data bits of its code: which size is chosen, when it
    throws, and what a reader gets back.
  \<^item> \<open>CreateSpec\<close> and \<open>ShareSpec\<close>: what the pages promise, over all event sequences, with an example
    page each.
  \<^item> \<open>KeyStore\<close>: the IDs, the in-memory store and the adapter of \<open>store.go\<close>; the interface
    \<open>onetime_store\<close> and its interpretation on the in-memory store.
  \<^item> \<open>GoJson\<close>: \<open>encoding/json\<close> (and \<open>JSON.parse\<close>) as a machine over characters, the decoder of a stream that
    ends or is cut off, the writer, and what is read back of what is written.
  \<^item> \<open>RedisDb\<close>: the Redis commands the program uses, as functions on an abstract database, as a parameter
    with the interface \<open>redis_server\<close>, and as the miniredis of the repository's tests, which refines the
    abstract database and is the interpretation of the interface; the retry loop of the Redis client.
  \<^item> \<open>GoTime\<close>: the text of a time in a record (RFC 3339), written and read as Go's \<open>time\<close> package does.
  \<^item> \<open>RedisStore\<close> and \<open>RateLimit\<close>: \<open>redisKeyStore\<close> of \<open>store.go\<close> with its JSON records, and \<open>ratelimit.go\<close>, under
    lost replies and retries; sequences of all operations on the database, for the single read of a key and for
    the bound on the requests allowed in any time.
  \<^item> \<open>ServerRuns\<close>: the Redis calls of many requests in flight at once, as a step relation on single attempts.
  \<^item> \<open>Handlers\<close>: \<open>handlers/handlers.go\<close>, each handler as a function on the store's state and a response writer.
  \<^item> \<open>Server\<close>: \<open>handlers/middleware.go\<close> and \<open>server.go\<close>: the middlewares, the client's address, the routes and
    the assembled application; \<open>serve\<close> is a request with its reply.
  \<^item> \<open>Addresses\<close>: the texts of the peers' addresses, of IPv4 and IPv6, and which of them the server trusts.
  \<^item> \<open>GoDuration\<close> and \<open>Config\<close>: \<open>config.go\<close>, with Go's \<open>time.ParseDuration\<close>.
  \<^item> \<open>Templates\<close> and \<open>Pages\<close>: the tag of \<open>templates/base.html\<close> that carries the server's settings and the ID,
    its escaping and its reading with the newlines normalised, and the two pages as the application serves them and the scripts start on
    them.
  \<^item> \<open>Confidential\<close>: two runs of the create page with different notes.
  \<^item> \<open>System\<close>: the application on its two stores as \<open>main.go\<close> chooses them, requests and replies between the
    pages and the application, and the exchanges of one key.
  \<^item> \<open>AppRelated\<close>: one request to two applications on stores that are related.
  \<^item> \<open>HttpRuns\<close>: sequences of arbitrary HTTP requests to the whole application on Redis: how often a key is
    handed out, and that requests for other things do not depend on it.
  \<^item> \<open>Backends\<close>: the application on the in-memory store and on Redis gives the same replies, up to what the theory
    lists.
  \<^item> \<open>SecondStore\<close>: \<open>internal/store\<close>, a second copy of the stores that the server does not import, where it
    differs: \<open>Save\<close> on Redis with \<open>SetNX\<close>, which overwrites nothing. \<open>internal/rate\<close> has the text of
    \<open>ratelimit.go\<close>.
  \<^item> \<open>Network\<close>: any number of create pages, share pages and strangers around the application, as a step relation:
    each key created is in one place at most, with a stranger, on a page, or in the database.

  What the groups of lemmas show. The codecs give the round trips, up to the whole way of a note (below). The
  machines give the safety statements: which requests can go out, that open and spent are final, how
  long plaintext stays, that controls and ledger are consistent. The case lemmas of the handlers give
  the results on every branch. The lemmas of the stores give the single read of a key: for one client after
  another on the in-memory store and on Redis, and over all interleavings in \<open>ServerRuns\<close>. Those of the
  server give which requests reach a handler, what bodies are accepted, and what goes out.

  Bounds. Numbers that the code keeps far below \<open>2 ^ 53\<close> (lengths, seconds, milliseconds) are natural
  numbers; bytes and string units are words. The number of arguments a JavaScript call may have is a
  parameter; the theorems that need a bound ask for at least 32768, the largest chunk. Times on the
  server are nanoseconds as integers; the integers read from texts have 64 bits. The attempts of a Redis
  call are a list of any length, so the client's limit of four is included. The reader of JSON stops at 10000
  open arrays and objects, as Go's does.

  Parameters. Web Crypto, RSA and DER, random bytes and the clock; Redis, through \<open>redis_server\<close>; the local
  time zone and Go's lenient reader of times that are not RFC 3339; the text of a page before and after the opening tag of \<open>main\<close>; the file server
  behind \<open>/static/\<close>. On the server texts are ASCII.

  Not modelled. Logging, listening, time limits of connections and shutdown are I/O. Redirects of paths that
  are not canonical, which \<open>net/http\<close> makes before any handler or middleware runs (\<open>canonical_path\<close> of \<open>Server\<close>
  tells the others), and the sniffed content type of a key are left out. The head and the body of a reply reach a
  page in one step. Focus, selection and styling of the pages are not part of their state. Of the QR
  library the error correction, the mask, the placing of the bits and the drawing are left out; the pages see
  only whether it loads, draws or throws. Of the templates only the opening tag of \<open>main\<close> is
  modelled, which is the one element the scripts read settings from. Of the vendored
  modules only the retry loop and the arguments of \<open>SET\<close> and \<open>SETNX\<close> of go-redis and the commands of
  miniredis that the program sends are modelled.
\<close>

section \<open>A note from the writer to the reader\<close>

text \<open>C2: A note reaches its reader. The server generates a key pair and sends its PEM texts; the writer's
  browser encrypts the message and builds the link; the reader's browser takes the link apart and decrypts
  with the private key. Under the documented contracts of RSA-OAEP and AES-GCM, for every message, every
  random choice and every chunking limit of at least 32768 arguments: nothing throws, the link is as long
  as the create page predicted, its path names the key, and the text decrypted is the message (as
  \<open>TextEncoder\<close> and \<open>TextDecoder\<close> carry it).\<close>
theorem note_reaches_reader:
  assumes "generateKey (Some k) marshalPriv marshalPub = Some (pubPem, privPem)"
    and "marshalPriv k = Some privDer" and "marshalPub k = Some pubDer"
    and "privDer \<noteq> []" and "pubDer \<noteq> []" and "key_pair_ok wc pubDer privDer" and "aes_ok wc"
    and "0x8000 \<le> argLimit" and "length (fresh_iv rnd) = 12" and "hex_id keyId" and "origin_ok origin"
  shows "\<exists>enc link u f. encryptMessage argLimit wc rnd pubPem note = Some (Inr enc) \<and>
     buildShareURL origin keyId enc = Inr link \<and>
     length link = estimateLinkLength origin (byteLength note) \<and>
     parse_url link = Inr u \<and> url_pathname u = js ''/share/'' @ keyId \<and>
     parseFragment (url_hash u) = Inr f \<and>
     decryptMessage wc privPem (wrapped f) (iv f) (ct f) = Inr (received_text note)"
proof -
  have pem: "pemToBytes pubPem (js ''PUBLIC KEY'') = Inr pubDer"
    "pemToBytes privPem (js ''PRIVATE KEY'') = Inr privDer"
    using assms(1-3) public_pem.dec_enc [OF assms(5)] private_pem.dec_enc [OF assms(4)]
    by (auto simp: generateKey_def)
  obtain w c where enc: "encryptMessage argLimit wc rnd pubPem note =
      Some (Inr \<lparr>wrapped = b64url w, iv = b64url (fresh_iv rnd), ct = b64url c\<rparr>)"
    and len: "length w = 512" "length c = length (text_encode note) + 16"
    and dec: "decryptMessage wc privPem (b64url w) (b64url (fresh_iv rnd)) (b64url c) =
      Inr (received_text note)"
    by (rule encrypt_decrypt [OF assms(6-9) pem])
  let ?e = "\<lparr>wrapped = b64url w, iv = b64url (fresh_iv rnd), ct = b64url c\<rparr>"
  have vals: "link_values ?e" using len assms(9) by (auto simp: link_values_def)
  obtain link where link: "buildShareURL origin keyId ?e = Inr link"
    "parse_url link = Inr \<lparr>url_origin = origin, url_pathname = js ''/share/'' @ keyId, url_search = [],
       url_hash = 35 # link_fragment ?e\<rparr>"
    using built_link_parts [OF assms(11,10) vals] by blast
  have "length link = estimateLinkLength origin (byteLength note)"
    using link_length [OF len(1) assms(9) len(2) assms(10) link(1)] by (simp add: byteLength_def)
  with enc link parseFragment_link_fragment [OF vals] dec show ?thesis by fastforce
qed

theorem note_reaches_reader_witness:
  "\<exists>enc link u f. encryptMessage 0x8000 plain_crypto fixed_randomness
       (pem_encode (js ''PUBLIC KEY'') [1]) (js ''hello'') = Some (Inr enc) \<and>
     buildShareURL (js ''https://kb.example'') example_id enc = Inr link \<and>
     length link = estimateLinkLength (js ''https://kb.example'') (byteLength (js ''hello'')) \<and>
     parse_url link = Inr u \<and> url_pathname u = js ''/share/'' @ example_id \<and>
     parseFragment (url_hash u) = Inr f \<and>
     decryptMessage plain_crypto (pem_encode (js ''PRIVATE KEY'') [1]) (wrapped f) (iv f) (ct f) =
       Inr (received_text (js ''hello''))"
  by (rule note_reaches_reader [where k = "()" and marshalPriv = "\<lambda>_. Some [1]" and marshalPub = "\<lambda>_. Some [1]"
        and privDer = "[1]" and pubDer = "[1]"])
     (simp_all add: generateKey_def plain_crypto_ok fixed_randomness_def example_id_hex example_origin)

text \<open>The two pages together. When the create page's submit handler gets a key from the server, it
  shows a link; a share page opened at that link, whose reader clicks the button and gets the matching
  private key, opens the note: it shows the message, says so, and starts the auto-hide interval.\<close>
theorem pages_deliver_note:
  assumes "in_flight p = Some (note, ttl, entry)"
    and "response_ok created" and "body_json created = Inr \<lparr>reply_id = keyId, reply_pub = pubPem\<rparr>"
    and "q = create_step pf p (Reply (Some created) rnd)"
    and "pemToBytes pubPem (js ''PUBLIC KEY'') = Inr pubDer"
    and "pemToBytes privPem (js ''PRIVATE KEY'') = Inr privDer"
    and "key_pair_ok (crypto pf) pubDer privDer" and "aes_ok (crypto pf)"
    and "0x8000 \<le> arg_limit pf" and "length (fresh_iv rnd) = 12" and "hex_id keyId"
    and "origin_ok (page_origin pf)" and "response_ok fetched" and "body_text fetched = Inr privPem"
    and "href doc = share_url q" and "share_id doc = keyId" and "sp_crypto spf = crypto pf"
    and "r = foldl (share_step spf) (init_share_page (sp_loc spf) (sp_message spf) attr doc)
       [DecryptClick, KeyReply (Some fetched), Decrypted now]"
  shows "\<not> result_hidden q \<and> card r = Opened \<and> plaintext_out r = received_text note \<and>
     \<not> plaintext_hidden r \<and> hide_timer r = Some (now + auto_hide_seconds attr * 1000) \<and>
     share_status r = setStatus decrypted_message Success"
  by (rule pages_deliver [OF assms])

definition found_reply :: response where
  "found_reply = \<lparr>status = 200, body_text = Inr (pem_encode (js ''PRIVATE KEY'') [1]), body_json = Inl SyntaxError\<rparr>"

definition written_page :: create_page where
  "written_page = create_step template_platform
     (started_page\<lparr>in_flight := Some (js ''secret'', 3600, None)\<rparr>)
     (Reply (Some created_reply) fixed_randomness)"

theorem pages_deliver_note_witness:
  "plaintext_out (foldl (share_step example_platform)
     (init_share_page (sp_loc example_platform) (sp_message example_platform) (Some 60)
       (example_document []\<lparr>href := share_url written_page\<rparr>))
     [DecryptClick, KeyReply (Some found_reply), Decrypted 0]) = received_text (js ''secret'')"
proof -
  have "in_flight (started_page\<lparr>in_flight := Some (js ''secret'', 3600, None)\<rparr>) =
      Some (js ''secret'', 3600, None)" by simp
  note delivered = pages_deliver_note [OF this _ _ written_page_def, where keyId = example_id
      and pubPem = "pem_encode (js ''PUBLIC KEY'') [1]" and privPem = "pem_encode (js ''PRIVATE KEY'') [1]" and pubDer = "[1]" and privDer = "[1]"
      and fetched = found_reply and doc = "example_document []\<lparr>href := share_url written_page\<rparr>"
      and spf = example_platform and attr = "Some 60" and now = 0, OF _ _ _ _ _ _ _ _ _ _ _ _ _ _ _ refl]
  have "origin_ok (page_origin template_platform)"
    using example_origin by (simp add: template_platform_def)
  then show ?thesis
    by (intro delivered [THEN conjunct2, THEN conjunct2, THEN conjunct1])
       (simp_all add: created_reply_def found_reply_def response_ok_def template_platform_def example_platform_def
         plain_crypto_ok fixed_randomness_def example_id_hex [unfolded example_id_def] example_document_def example_id_def
         public_pem.dec_enc private_pem.dec_enc)
qed

section \<open>A note through the server\<close>

text \<open>C1: The whole program on Redis. The create page's request is served by the application, with its limiter,
  its JSON and its store; the page makes the link of the reply. Within the time to live the reader's browser asks
  the application for the path of that link; the script of the page it gets reads the key's ID out of the page's
  tag and the note's parts out of the link, fetches the key through the application, with a Redis that answers
  the first command it executes, and shows the note, as \<open>TextEncoder\<close> and \<open>TextDecoder\<close> carry it
  (\<open>received_text\<close>). A request for the same key after any further time does not get the key: the reply is
  404, 429 or 500, whatever happens to the Redis calls.\<close>
theorem note_through_server:
  assumes "redis_server R view ok" and "ok s" and "whole_minutes_zone zone"
    and "in_flight p = Some (note, n, entry)" and "60 \<le> n" and "int n \<le> longest_expiry cfg"
    and "generateKey (Some kp) marshalPriv marshalPub = Some (pubPem, privPem)"
    and "marshalPriv kp = Some privDer" and "marshalPub kp = Some pubDer" and "privDer \<noteq> []" and "pubDer \<noteq> []"
    and "key_pair_ok (crypto pf) pubDer privDer" and "aes_ok (crypto pf)" and "0x8000 \<le> arg_limit pf"
    and "length (fresh_iv rnd) = 12" and "origin_ok (page_origin pf)"
    and "a1 = redis_app R (show_time zone) (read_time lenient) cfg (base_template before after) files su1"
    and "new_keypair su1 = Some (pubPem, privPem)" and "random_bytes su1 = Some bs" and "length bs = 16"
    and "show_time zone (time_now su1) \<noteq> None" and "Delivered \<in> set (store_attempts su1)"
    and "snd (p_create_limiter a1 (remoteIP (received_request peer1 added1 (create_request n)) (p_trust_xff a1)) s)"
    and "serve a1 (received_request peer1 added1 (create_request n)) s = (s1, Some reply1)"
    and "q = create_step pf p (Reply (Some (received_reply reply1)) rnd)"
    and "0 \<le> d" and "d < int n * second"
    and "parse_url (share_url q) = Inr u"
    and "rq_method rq = js ''GET''" and "split_on 47 (url_pathname u) = [] # rq_segments rq"
    and "a = redis_app R (show_time zone) (read_time lenient) cfg (base_template before after) files su"
    and "serve a rq (r_elapse R d s1) = (sp, Some (200, hs, html))"
    and "page_root before (share_data (app_settings a) (last (rq_segments rq))) html = Some (t, after_tag)"
    and "href doc = share_url q" and "data_attr ''data-share-id'' t = Some (share_id doc)"
    and "a2 = redis_app R (show_time zone) (read_time lenient) cfg (base_template before after) files su2"
    and "first_executed (store_attempts su2) = Delivered # rest"
    and "snd (p_fetch_limiter a2 (remoteIP (received_request peer2 added2 (fetch_request (share_id doc))) (p_trust_xff a2)) sp)"
    and "serve a2 (received_request peer2 added2 (fetch_request (share_id doc))) sp = (s2, Some reply2)"
    and "sp_crypto spf = crypto pf"
    and "r = foldl (share_step spf) (init_share_page (sp_loc spf) (sp_message spf) (map_option nat (attr_number ''data-autohide-seconds'' t)) doc)
       [DecryptClick, KeyReply (Some (received_reply reply2)), Decrypted now]"
    and "0 \<le> d'" and "a3 = redis_app R (show_time zone) (read_time lenient) cfg (base_template before after) files su3"
    and "serve a3 (received_request peer3 added3 (fetch_request (hex_encode bs))) (r_elapse R d' s2) = (s3, Some reply3)"
  shows "card r = Opened \<and> plaintext_out r = received_text note \<and> \<not> plaintext_hidden r \<and>
    status (received_reply reply3) \<in> {404, 429, 500}"
proof -
  let ?k = "hex_encode bs"
  have pem: "pemToBytes pubPem (js ''PUBLIC KEY'') = Inr pubDer" "pemToBytes privPem (js ''PRIVATE KEY'') = Inr privDer"
    using assms(7-9) public_pem.dec_enc [OF assms(11)] private_pem.dec_enc [OF assms(10)]
    by (auto simp: generateKey_def)
  note time = rfc3339_ok [OF assms(3), of lenient]
  have id: "hex_id ?k" by (rule hex_encode_hex_id [OF assms(20)])
  have created: "status (received_reply reply1) = 201"
    "body_json (received_reply reply1) = Inr \<lparr>reply_id = ?k, reply_pub = pubPem\<rparr>"
    by (rule redis_create [OF assms(1,2) time assms(5,6,17-19,21-23)], use assms(24) in simp)+
  then have ok1: "response_ok (received_reply reply1)" by (simp add: response_ok_def)
  have "url_pathname u = js ''/share/'' @ ?k"
    using shown_link(2) [OF assms(4) ok1 created(2) assms(25) pem assms(12-15) id assms(16)] assms(28) by auto
  then have rq: "rq_segments rq = [js ''share'', ?k]" using share_path_segments [OF id] assms(30) by simp
  have page: "p_templates a = base_template before after" by (simp add: assms(31) redis_app_def)
  have root: "page_root before (share_data (app_settings a) ?k) html = Some (t, after_tag)"
    using assms(33) by (simp add: rq)
  note tag = served_id_tag [OF page assms(29) rq id assms(32) root]
  have doc: "share_id doc = ?k" using tag(2) assms(35) by simp
  note exchanges = key_exchanges [OF assms(1,2) time assms(5,6,17-24,26,27,36,37)
      assms(38,39) [unfolded doc tag(1)] assms(42-44)]
  have ok2: "response_ok (received_reply reply2)" using exchanges(2) by (simp add: response_ok_def)
  show ?thesis
    using pages_deliver [OF assms(4) ok1 created(2) assms(25) pem assms(12-15) id assms(16) ok2 exchanges(4) assms(34) doc
        assms(40,41)] exchanges(5) by blast
qed

definition example_config :: config where
  "example_config = loadConfig (\<lambda>_. [])"

definition example_surroundings :: surroundings where
  "example_surroundings =
     \<lparr>limiter_attempts = [Delivered], store_attempts = [Delivered], random_bytes = Some (replicate 16 0), time_now = 0,
      new_keypair = Some (pem_encode (js ''PUBLIC KEY'') [1], pem_encode (js ''PRIVATE KEY'') [1])\<rparr>"

definition example_app :: "redis_db app_parts" where
  "example_app = redis_app miniredis (show_time (\<lambda>_. 0)) (read_time (\<lambda>_. None)) example_config
     (base_template (\<lambda>_. []) (\<lambda>_. [])) (\<lambda>rq sw. Returned sw) example_surroundings"

definition busy_page :: create_page where
  "busy_page = started_page\<lparr>in_flight := Some (js ''secret'', 3600, None)\<rparr>"

lemma example_longest: "longest_expiry example_config = 604800"
  by (simp add: longest_expiry_def example_config_def loadConfig_def envInt_def envDuration_def SetMaxTTL_def
      SetAutoHideSeconds_def New_def duration_defs)

lemma example_limits: "cfg_rate_limit_create example_config = 30" "cfg_rate_limit_fetch example_config = 60"
  by (simp_all add: example_config_def loadConfig_def envInt_def)

theorem note_through_server_witness:
  "\<exists>s1 reply1 sp hs html t s2 reply2.
     serve example_app (received_request [] Map.empty (create_request 3600)) empty_redis = (s1, Some reply1) \<and>
     serve example_app (example_request ''GET'' [js ''share'', hex_encode (replicate 16 0)]) (r_elapse miniredis 60 s1) =
       (sp, Some (200, hs, html)) \<and>
     page_root (\<lambda>_. []) (share_data (app_settings example_app) (hex_encode (replicate 16 0))) html = Some (t, []) \<and>
     serve example_app (received_request [] Map.empty (fetch_request (hex_encode (replicate 16 0)))) sp = (s2, Some reply2) \<and>
     plaintext_out (foldl (share_step example_platform)
       (init_share_page (sp_loc example_platform) (sp_message example_platform)
           (map_option nat (attr_number ''data-autohide-seconds'' t))
         (example_document []\<lparr>share_id := hex_encode (replicate 16 0), href := share_url
           (create_step template_platform busy_page (Reply (Some (received_reply reply1)) fixed_randomness))\<rparr>))
       [DecryptClick, KeyReply (Some (received_reply reply2)), Decrypted 0]) = received_text (js ''secret'')"
proof -
  let ?bs = "replicate 16 (0 :: 8 word)"
  have limits: "60 \<le> (3600 :: nat)" "int 3600 \<le> longest_expiry example_config" by (simp_all add: example_longest)
  have su: "new_keypair example_surroundings = Some (pem_encode (js ''PUBLIC KEY'') [1], pem_encode (js ''PRIVATE KEY'') [1])"
    "random_bytes example_surroundings = Some ?bs" "length ?bs = 16" "(show_time (\<lambda>_. 0)) (time_now example_surroundings) \<noteq> None"
    "Delivered \<in> set (store_attempts example_surroundings)" "first_executed (store_attempts example_surroundings) = [Delivered]"
    by (simp_all add: example_surroundings_def example_time_shown)
  have allowed: "snd (allow miniredis (limiter_attempts example_surroundings) b limit ip s)"
    if "db_ok s" "db_view s (limiter_key b ip) = None" "1 \<le> limit" for b limit ip s
    using first_allowed [OF mini.redis_server_axioms that] by (simp add: example_surroundings_def)
  note rq = received_request_def
  have create_allowed: "snd (p_create_limiter example_app
      (remoteIP (received_request [] Map.empty (create_request 3600)) (p_trust_xff example_app)) empty_redis)"
    unfolding example_app_def redis_app_simps
    by (rule allowed [OF empty_redis_ok]) (simp_all add: empty_redis_view example_limits)
  obtain reply1 s1 where 1: "serve example_app (received_request [] Map.empty (create_request 3600)) empty_redis = (s1, Some reply1)"
    and reply1: "status (received_reply reply1) = 201" "body_json (received_reply reply1) =
      Inr \<lparr>reply_id = hex_encode ?bs, reply_pub = pem_encode (js ''PUBLIC KEY'') [1]\<rparr>"
    and ok1: "db_ok s1"
    and absent: "\<And>ip. db_view s1 (limiter_key (js ''fetch'') ip) = None"
    by (rule redis_create [OF mini.redis_server_axioms empty_redis_ok rfc3339_ok [OF example_time_ok, of "\<lambda>_. None"] limits example_app_def su(1,2,4,5)
        create_allowed]) (auto simp: empty_redis_view)
  have late: "(0 :: int) \<le> 60" by simp
  note ok2 = mini.elapse_ok [OF ok1 late]
  have fetch_allowed: "snd (p_fetch_limiter example_app
      (remoteIP (received_request [] Map.empty (fetch_request (hex_encode ?bs))) (p_trust_xff example_app))
      (r_elapse miniredis 60 s1))"
    unfolding example_app_def redis_app_simps
    by (rule allowed [OF ok2]) (simp_all add: mini.elapse_view [OF ok1 late] view_elapse_def absent example_limits)
  have bs: "?bs \<noteq> []" by simp
  let ?k = "hex_encode ?bs" and ?rq = "example_request ''GET'' [js ''share'', hex_encode ?bs]"
  have id: "hex_id ?k" by (rule hex_encode_hex_id [OF su(3)])
  have rq: "rq_method ?rq = js ''GET''" "rq_segments ?rq = [js ''share'', ?k]" by (simp_all add: example_request_def)
  have templates: "p_templates example_app = base_template (\<lambda>_. []) (\<lambda>_. [])" by (simp add: example_app_def redis_app_def)
  let ?pd = "share_data (app_settings example_app) ?k"
  obtain hs where page: "serve example_app ?rq (r_elapse miniredis 60 s1) =
      (r_elapse miniredis 60 s1, Some (200, hs, page_html (\<lambda>_. []) (\<lambda>_. []) ?pd))"
    using serve_share [OF templates rq] hex_id_plain [OF id] by blast
  obtain t where root: "page_root (\<lambda>_. []) ?pd (page_html (\<lambda>_. []) (\<lambda>_. []) ?pd) = Some (t, [])"
    using read_main_tag [of ?pd "[]"] by (simp add: page_root_html)
  note tag = served_id_tag(2) [OF templates rq id page root]
  obtain reply2 s2 where 2: "serve example_app (received_request [] Map.empty (fetch_request (hex_encode ?bs)))
      (r_elapse miniredis 60 s1) = (s2, Some reply2)" and ok3: "db_ok s2"
    by (rule redis_fetch [OF mini.redis_server_axioms ok2 example_app_def bs])
  obtain reply3 s3 where 3: "serve example_app (received_request [] Map.empty (fetch_request (hex_encode ?bs)))
      (r_elapse miniredis 0 s2) = (s3, Some reply3)"
    by (rule redis_fetch [OF mini.redis_server_axioms mini.elapse_ok [OF ok3 order_refl] example_app_def bs])
  have origin: "origin_ok (page_origin template_platform)"
    using example_origin by (simp add: template_platform_def)
  have in_flight: "in_flight busy_page = Some (js ''secret'', 3600, None)" by (simp add: busy_page_def)
  let ?q = "create_step template_platform busy_page (Reply (Some (received_reply reply1)) fixed_randomness)"
  let ?doc = "example_document []\<lparr>share_id := hex_encode ?bs, href := share_url ?q\<rparr>"
  have doc: "href ?doc = share_url ?q" "data_attr ''data-share-id'' t = Some (share_id ?doc)" by (simp_all add: tag)
  have crypto: "crypto template_platform = plain_crypto" "sp_crypto example_platform = crypto template_platform"
    "0x8000 \<le> arg_limit template_platform"
    by (simp_all add: template_platform_def example_platform_def)
  have keys: "generateKey (Some ()) (\<lambda>_. Some [1]) (\<lambda>_. Some [1]) =
      Some (pem_encode (js ''PUBLIC KEY'') [1], pem_encode (js ''PRIVATE KEY'') [1])"
    by (simp add: generateKey_def)
  have soon: "(60 :: int) < int 3600 * second" by (simp add: second_def)
  have pair: "key_pair_ok (crypto template_platform) [1] [1]" "aes_ok (crypto template_platform)"
    "length (fresh_iv fixed_randomness) = 12"
    by (simp_all add: crypto(1) plain_crypto_ok fixed_randomness_def)
  have "response_ok (received_reply reply1)" by (simp add: response_ok_def reply1)
  note shown = shown_link(2) [OF in_flight this reply1(2) refl _ _ pair(1,2) crypto(3) pair(3) id origin]
  obtain u where u: "parse_url (share_url ?q) = Inr u" "url_pathname u = js ''/share/'' @ ?k"
    using shown [of "pem_encode (js ''PRIVATE KEY'') [1]"] public_pem.dec_enc private_pem.dec_enc by auto
  have path: "split_on 47 (url_pathname u) = [] # rq_segments ?rq" by (simp add: u(2) share_path_segments [OF id] rq)
  have last: "page_root (\<lambda>_. []) (share_data (app_settings example_app) (last (rq_segments ?rq)))
      (page_html (\<lambda>_. []) (\<lambda>_. []) ?pd) = Some (t, [])" by (simp add: rq root)
  have same: "share_id ?doc = ?k" by simp
  note delivered = note_through_server [OF mini.redis_server_axioms empty_redis_ok example_time_ok in_flight limits keys refl refl
      _ _ pair(1,2) crypto(3) pair(3) origin example_app_def su(1-5) create_allowed 1 refl late soon u(1) rq(1) path
      example_app_def page last doc example_app_def su(6) _ _ crypto(2) refl order_refl example_app_def 3, unfolded same]
  have "plaintext_out (foldl (share_step example_platform) (init_share_page (sp_loc example_platform)
      (sp_message example_platform) (map_option nat (attr_number ''data-autohide-seconds'' t)) ?doc)
      [DecryptClick, KeyReply (Some (received_reply reply2)), Decrypted 0]) = received_text (js ''secret'')"
    using delivered [OF _ _ fetch_allowed 2, of 0] by simp
  with 1 page root 2 show ?thesis by blast
qed

end
